(* ===== verification/Prelude.thy ===== *)
theory Prelude
  imports Main "HOL-Library.Word"
begin

text \<open>
  Shared ground of the development: the machine integer types of klib/types.h, the
  lemma collections the component theories fill, and the facts on words (distances
  between addresses, masks, shifts) that their proofs share.
\<close>

unbundle bit_operations_syntax

section \<open>The integer types of klib/types.h\<close>

type_synonym u8 = "8 word"
type_synonym u16 = "16 word"
type_synonym u32 = "32 word"
type_synonym u64 = "64 word"

text \<open>
  The build defines the two addresses of the kernel image in ksrc/CMakeLists.txt: it is
  loaded at \<open>KERNEL_CONFIG_LMA\<close> and runs at \<open>KERNEL_CONFIG_VMA\<close> above that.
\<close>

abbreviation KERNEL_CONFIG_VMA :: u32 where
  "KERNEL_CONFIG_VMA \<equiv> 0xC0000000"

abbreviation KERNEL_CONFIG_LMA :: u32 where
  "KERNEL_CONFIG_LMA \<equiv> 0x00100000"

text \<open>
  An argument of a formatted print: the text of a \<open>%s\<close>, or the word of a \<open>%u\<close>, \<open>%d\<close> or
  \<open>%x\<close>. \<open>chars\<close> are the bytes of a string literal.
\<close>

datatype arg = Str "u8 list" | Num u32

definition chars :: "string \<Rightarrow> u8 list" where
  "chars s = map of_char s"

lemma length_chars [simp]: "length (chars s) = length s"
  by (simp add: chars_def)

text \<open>Collections: equations that compute a memory access, and facts on distances.\<close>

named_theorems mem_simps \<open>what a load returns after a store, copy or fill\<close>
named_theorems trace_simps \<open>what an operation appends to the trace of the machine\<close>
named_theorems frame_simps \<open>what an operation leaves unchanged\<close>

section \<open>Distances between addresses\<close>

text \<open>
  An address range is a start and a length in bytes; the offset of \<open>x\<close> from the start
  \<open>a\<close> is \<open>x - a\<close>, computed modulo \<open>2 ^ 32\<close> like every pointer of the code.
\<close>

lemma unat_offset [simp]:
  fixes a :: "'a::len word"
  assumes "i < 2 ^ LENGTH('a)"
  shows "unat (a + of_nat i - a) = i"
  using assms by (simp add: unat_of_nat)

lemma offset_of_nat [simp]:
  fixes a x :: "'a::len word"
  shows "a + of_nat (unat (x - a)) = x"
  by simp

lemma unat_of_nat32: "n < 2 ^ 32 \<Longrightarrow> unat (of_nat n :: u32) = n"
  by (simp add: unat_of_nat)

lemma unat_less32: "unat (x :: u32) < 2 ^ 32"
  using unsigned_less [of x] by simp

lemma of_nat32_inj:
  assumes "i < 2 ^ 32" "j < 2 ^ 32" "(of_nat i :: u32) = of_nat j"
  shows "i = j"
  using assms by (metis unat_of_nat32)

lemma unat_pred_less:
  fixes n :: "'a::len word"
  shows "n \<noteq> 0 \<Longrightarrow> unat (n - 1) < unat n"
  by (simp add: unat_minus_one unat_gt_0)

lemma Suc_unat_pred:
  fixes n :: "'a::len word"
  shows "n \<noteq> 0 \<Longrightarrow> Suc (unat (n - 1)) = unat n"
  by (simp add: unat_minus_one unat_gt_0)

lemma unat_sub_Suc:
  fixes x a :: "'a::len word"
  assumes "x \<noteq> a"
  shows "unat (x - a) = Suc (unat (x - (a + 1)))"
proof -
  have "x - a \<noteq> 0" using assms by simp
  from Suc_unat_pred [OF this] show ?thesis by (simp add: diff_diff_eq)
qed

lemma of_nat_pred: "0 < k \<Longrightarrow> of_nat (k - 1) + 1 = (of_nat k :: 'a::len word)"
  by (metis Suc_pred' add.commute of_nat_Suc)

lemma of_nat_pred': "0 < k \<Longrightarrow> of_nat k - 1 = (of_nat (k - 1) :: 'a::len word)"
  by (metis add_diff_cancel_right' of_nat_pred)

lemma ucast_up_down8: "ucast (ucast (i :: u8) :: u32) = i"
  by (rule bit_word_eqI) (auto simp: bit_simps)

text \<open>Masking the low bits is a remainder.\<close>

lemma and_low_mod:
  fixes x :: "'a::len word"
  shows "x AND 1 = x mod 2" "x AND 3 = x mod 4" "x AND 0xF = x mod 16" "x AND 0xFF = x mod 256"
    "x AND 0x3FF = x mod 1024" "x AND 0xFFF = x mod 4096"
  using take_bit_eq_mask [of 1 x] take_bit_eq_mask [of 2 x] take_bit_eq_mask [of 4 x]
    take_bit_eq_mask [of 8 x] take_bit_eq_mask [of 10 x] take_bit_eq_mask [of 12 x]
  by (simp_all add: take_bit_eq_mod mask_eq_exp_minus_1)

text \<open>Testing one bit with a mask.\<close>

lemma and_mask_bit:
  fixes x :: "'a::len word"
  shows "x AND 1 = 0 \<longleftrightarrow> \<not> bit x 0" "x AND 2 = 0 \<longleftrightarrow> \<not> bit x 1" "x AND 4 = 0 \<longleftrightarrow> \<not> bit x 2"
    "x AND 0x10 = 0 \<longleftrightarrow> \<not> bit x 4" "x AND 0x80 = 0 \<longleftrightarrow> \<not> bit x 7"
    "x AND 0x100 = 0 \<longleftrightarrow> \<not> bit x 8" "x AND 0x10000 = 0 \<longleftrightarrow> \<not> bit x 16"
  using and_exp_eq_0_iff_not_bit [of x 0] and_exp_eq_0_iff_not_bit [of x 1]
    and_exp_eq_0_iff_not_bit [of x 2] and_exp_eq_0_iff_not_bit [of x 4]
    and_exp_eq_0_iff_not_bit [of x 7] and_exp_eq_0_iff_not_bit [of x 8]
    and_exp_eq_0_iff_not_bit [of x 16]
  by simp_all

text \<open>Reading a word as a signed number.\<close>

lemma div_eq_1:
  fixes a b :: int
  assumes "b \<le> a" "a < 2 * b"
  shows "a div b = 1"
proof -
  have "(a - b) div b = 0" using assms by (intro div_pos_pos_trivial) simp_all
  moreover have "a div b = (a - b) div b + 1" using assms by (simp add: div_pos_geq)
  ultimately show ?thesis by simp
qed

lemma sint32: "sint (n :: u32) = (if uint n < 2 ^ 31 then uint n else uint n - 2 ^ 32)"
proof -
  have u: "0 \<le> uint n" "uint n < 2 ^ 32" using uint_lt2p [of n] by simp_all
  have "uint n div 2 ^ 31 = (if 2 ^ 31 \<le> uint n then 1 else 0)"
    using u by (simp add: div_eq_1)
  then have "bit (uint n) 31 \<longleftrightarrow> 2 ^ 31 \<le> uint n"
    by (simp add: bit_iff_odd)
  moreover have "sint n = take_bit 32 (uint n) - 2 ^ 32 * of_bool (bit (uint n) 31)"
    by (simp add: sint_uint signed_take_bit_eq_take_bit_minus)
  moreover have "take_bit 32 (uint n) = uint n"
    using u by (simp add: take_bit_int_eq_self)
  ultimately show ?thesis by (simp only:) simp
qed

lemma unat_nonneg_sint:
  fixes n :: u32
  assumes "\<not> sint n < 0"
  shows "unat n = nat (sint n)"
proof -
  have "sint n = uint n" using assms uint_lt2p [of n] by (auto simp: sint32 split: if_splits)
  then show ?thesis by simp
qed

lemma unat_neg_sint:
  fixes n :: u32
  assumes "sint n < 0"
  shows "unat (- n) = nat (- sint n)"
proof -
  have "2 ^ 31 \<le> uint n" "sint n = uint n - 2 ^ 32"
    using assms by (auto simp: sint32 split: if_splits)
  moreover have "uint (- n) = 2 ^ 32 - uint n"
    using calculation uint_sub_if' [of 0 n] by simp
  ultimately have "uint (- n) = - sint n" by simp
  then show ?thesis by (metis nat_uint_eq)
qed

section \<open>Loops that fill a table\<close>

text \<open>
  A loop over the indices below \<open>n\<close> whose round \<open>i\<close> updates slot \<open>i\<close> of a table, the way the
  code initialises its descriptor tables.
\<close>

locale fill_loop =
  fixes table :: "'s \<Rightarrow> nat \<Rightarrow> 'v" and round :: "nat \<Rightarrow> 's \<Rightarrow> 's" and loop :: "nat \<Rightarrow> 's \<Rightarrow> 's"
    and n :: nat and new :: "nat \<Rightarrow> 'v \<Rightarrow> 'v"
  assumes round_table: "table (round i s) = (table s)(i := new i (table s i))"
    and loop_round: "loop i s = (if i < n then loop (Suc i) (round i s) else s)"
begin

lemma loop_table:
  "table (loop i s) = (\<lambda>v. if i \<le> v \<and> v < n then new v (table s v) else table s v)"
proof (induction "n - i" arbitrary: i s)
  case 0
  then show ?case by (auto simp: loop_round [of i] fun_eq_iff)
next
  case (Suc k)
  then have "i < n" "k = n - Suc i" by simp_all
  with Suc.hyps(1) [of "Suc i" "round i s"] show ?case
    by (auto simp: loop_round [of i] fun_eq_iff round_table Suc_le_eq)
qed

lemma loop_keeps:
  assumes "\<And>i s. f (round i s) = f s"
  shows "f (loop i s) = f s"
proof (induction "n - i" arbitrary: i s)
  case 0
  then show ?case by (simp add: loop_round [of i])
next
  case (Suc k)
  then have "i < n" "k = n - Suc i" by simp_all
  with Suc.hyps(1) [of "Suc i" "round i s"] show ?case
    by (simp add: loop_round [of i] assms)
qed

end

end
