(* ===== verification/Machine.thy ===== *)
theory Machine
  imports Prelude
begin

text \<open>
  The machine under the kernel, as its drivers see it (ksrc/io.h and the inline assembly):
  every port access, device register access and privileged instruction is an event, and
  the state keeps the trace of the events so far, oldest first. What an input returns is
  the choice of the hardware: a function of the address and of everything that happened
  before, so that devices may keep any state and answer differently each time.

  Output through \<open>printk\<close> is an event as well; the theory Console models the routine
  itself, on the video memory, and the theory Output composes the two.

  A contract for busy waiting (the locale \<open>polled_loop\<close>) says when a loop that polls a
  device returns, and in which state.
\<close>

unbundle bit_operations_syntax

section \<open>Events and machine states\<close>

datatype segment = CS | SS | DS | ES | FS | GS

datatype event =
    OutB u16 u8 | OutW u16 u16 | OutD u16 u32
  | InB u16 u8 | InW u16 u16 | InD u16 u32
  | MmioRead u32 u32 | MmioWrite u32 u32
  | RdMsr u32 u32 u32 | WrMsr u32 u32 u32 | Cpuid u32
  | Sti | Cli | Hlt | Pause
  | Lgdt u16 u32 | Lidt u16 u32 | LoadSegment segment u16
  | MovCr nat u32 | Invlpg u32
  | Print string "arg list"

text \<open>
  \<open>rdmsr_edx\<close>, \<open>rdmsr_eax\<close> are the two halves the instruction leaves; \<open>cpuid\<close> leaves
  (eax, ebx, ecx, edx).
\<close>

record hardware =
  port8 :: "event list \<Rightarrow> u16 \<Rightarrow> u8"
  port16 :: "event list \<Rightarrow> u16 \<Rightarrow> u16"
  port32 :: "event list \<Rightarrow> u16 \<Rightarrow> u32"
  mmio :: "event list \<Rightarrow> u32 \<Rightarrow> u32"
  rdmsr :: "event list \<Rightarrow> u32 \<Rightarrow> u32 \<times> u32"
  cpuid :: "event list \<Rightarrow> u32 \<Rightarrow> u32 \<times> u32 \<times> u32 \<times> u32"
  control_register :: "event list \<Rightarrow> nat \<Rightarrow> u32"

record machine =
  hw :: hardware
  trace :: "event list"

definition emit :: "event \<Rightarrow> 'a machine_scheme \<Rightarrow> 'a machine_scheme" where
  "emit e s = s\<lparr>trace := trace s @ [e]\<rparr>"

lemma trace_emit [simp]: "trace (emit e s) = trace s @ [e]"
  by (simp add: emit_def)

lemma hw_emit [simp]: "hw (emit e s) = hw s"
  by (simp add: emit_def)

lemma more_emit [simp]: "machine.more (emit e s) = machine.more s"
  by (simp add: emit_def)

text \<open>Hardware that answers 0 to everything, for examples.\<close>

definition quiet :: hardware where
  "quiet = \<lparr>port8 = (\<lambda>es p. 0), port16 = (\<lambda>es p. 0), port32 = (\<lambda>es p. 0), mmio = (\<lambda>es a. 0),
     rdmsr = (\<lambda>es n. (0, 0)), cpuid = (\<lambda>es n. (0, 0, 0, 0)), control_register = (\<lambda>es n. 0)\<rparr>"

text \<open>A call of \<open>printk\<close>.\<close>

definition print :: "string \<Rightarrow> arg list \<Rightarrow> 'a machine_scheme \<Rightarrow> 'a machine_scheme" where
  "print fmt args s = emit (Print fmt args) s"

section \<open>Ports, ksrc/io.h\<close>

definition io_port_outb :: "u16 \<Rightarrow> u8 \<Rightarrow> 'a machine_scheme \<Rightarrow> 'a machine_scheme" where
  "io_port_outb port val s = emit (OutB port val) s"

definition io_port_inb :: "u16 \<Rightarrow> 'a machine_scheme \<Rightarrow> u8 \<times> 'a machine_scheme" where
  "io_port_inb port s =
     (let ret = port8 (hw s) (trace s) port in (ret, emit (InB port ret) s))"

definition io_port_outw :: "u16 \<Rightarrow> u16 \<Rightarrow> 'a machine_scheme \<Rightarrow> 'a machine_scheme" where
  "io_port_outw port val s = emit (OutW port val) s"

definition io_port_inw :: "u16 \<Rightarrow> 'a machine_scheme \<Rightarrow> u16 \<times> 'a machine_scheme" where
  "io_port_inw port s =
     (let ret = port16 (hw s) (trace s) port in (ret, emit (InW port ret) s))"

definition io_port_outdw :: "u16 \<Rightarrow> u32 \<Rightarrow> 'a machine_scheme \<Rightarrow> 'a machine_scheme" where
  "io_port_outdw port val s = emit (OutD port val) s"

definition io_port_indw :: "u16 \<Rightarrow> 'a machine_scheme \<Rightarrow> u32 \<times> 'a machine_scheme" where
  "io_port_indw port s =
     (let ret = port32 (hw s) (trace s) port in (ret, emit (InD port ret) s))"

definition io_wait :: "'a machine_scheme \<Rightarrow> 'a machine_scheme" where
  "io_wait s = io_port_outb 0x80 0 s"

text \<open>Device registers: volatile 32-bit accesses to an address of a device.\<close>

definition mmio_write :: "u32 \<Rightarrow> u32 \<Rightarrow> 'a machine_scheme \<Rightarrow> 'a machine_scheme" where
  "mmio_write a v s = emit (MmioWrite a v) s"

definition mmio_read :: "u32 \<Rightarrow> 'a machine_scheme \<Rightarrow> u32 \<times> 'a machine_scheme" where
  "mmio_read a s = (let v = mmio (hw s) (trace s) a in (v, emit (MmioRead a v) s))"

definition read_cr :: "nat \<Rightarrow> 'a machine_scheme \<Rightarrow> u32" where
  "read_cr n s = control_register (hw s) (trace s) n"

lemmas machine_defs = print_def io_port_outb_def io_port_inb_def io_port_outw_def
  io_port_inw_def io_port_outdw_def io_port_indw_def io_wait_def mmio_write_def mmio_read_def

text \<open>What an operation returns, and what it does to the trace and to everything else.\<close>

lemma fst_in [simp]:
  "fst (io_port_inb p s) = port8 (hw s) (trace s) p"
  "fst (io_port_inw p s) = port16 (hw s) (trace s) p"
  "fst (io_port_indw p s) = port32 (hw s) (trace s) p"
  "fst (mmio_read a s) = mmio (hw s) (trace s) a"
  by (simp_all add: machine_defs Let_def)

lemma machine_trace [simp, trace_simps]:
  "trace (print f as s) = trace s @ [Print f as]"
  "trace (io_port_outb p b s) = trace s @ [OutB p b]"
  "trace (io_port_outw p h s) = trace s @ [OutW p h]"
  "trace (io_port_outdw p v s) = trace s @ [OutD p v]"
  "trace (mmio_write a v s) = trace s @ [MmioWrite a v]"
  "trace (snd (io_port_inb p s)) = trace s @ [InB p (port8 (hw s) (trace s) p)]"
  "trace (snd (io_port_inw p s)) = trace s @ [InW p (port16 (hw s) (trace s) p)]"
  "trace (snd (io_port_indw p s)) = trace s @ [InD p (port32 (hw s) (trace s) p)]"
  "trace (snd (mmio_read a s)) = trace s @ [MmioRead a (mmio (hw s) (trace s) a)]"
  by (simp_all add: machine_defs Let_def)

lemma machine_hw [simp, frame_simps]:
  "hw (print f as s) = hw s" "hw (io_port_outb p b s) = hw s" "hw (io_port_outw p h s) = hw s"
  "hw (io_port_outdw p v s) = hw s" "hw (mmio_write a v s) = hw s"
  "hw (snd (io_port_inb p s)) = hw s" "hw (snd (io_port_inw p s)) = hw s"
  "hw (snd (io_port_indw p s)) = hw s" "hw (snd (mmio_read a s)) = hw s"
  by (simp_all add: machine_defs Let_def)

lemma machine_more [simp, frame_simps]:
  "machine.more (print f as s) = machine.more s"
  "machine.more (io_port_outb p b s) = machine.more s"
  "machine.more (io_port_outw p h s) = machine.more s"
  "machine.more (io_port_outdw p v s) = machine.more s"
  "machine.more (mmio_write a v s) = machine.more s"
  "machine.more (snd (io_port_inb p s)) = machine.more s"
  "machine.more (snd (io_port_inw p s)) = machine.more s"
  "machine.more (snd (io_port_indw p s)) = machine.more s"
  "machine.more (snd (mmio_read a s)) = machine.more s"
  by (simp_all add: machine_defs Let_def)

section \<open>Busy waiting\<close>

text \<open>
  A loop that polls a device until what it reads is ready. The client of the contract is a
  driver; the laws are the loop's equation and that it returns only by that equation. The
  consequences say exactly when it returns: after the first poll that is ready.
\<close>

locale polled_loop =
  fixes probe :: "'s \<Rightarrow> 'v \<times> 's" and ready :: "'v \<Rightarrow> bool" and loop :: "'s \<Rightarrow> 's option"
  assumes loop_unfold:
      "loop s = (if ready (fst (probe s)) then Some (snd (probe s)) else loop (snd (probe s)))"
    and loop_induct: "loop s = Some t \<Longrightarrow>
      (\<And>s. ready (fst (probe s)) \<Longrightarrow> P s (snd (probe s))) \<Longrightarrow>
      (\<And>s t. \<not> ready (fst (probe s)) \<Longrightarrow> P (snd (probe s)) t \<Longrightarrow> P s t) \<Longrightarrow> P s t"
begin

text \<open>The state after \<open>n\<close> polls, and what the next poll reads there.\<close>

primrec polled :: "nat \<Rightarrow> 's \<Rightarrow> 's" where
  "polled 0 s = s"
| "polled (Suc n) s = snd (probe (polled n s))"

definition reading :: "nat \<Rightarrow> 's \<Rightarrow> 'v" where
  "reading n s = fst (probe (polled n s))"

definition ready_at :: "nat \<Rightarrow> 's \<Rightarrow> bool" where
  "ready_at n s \<longleftrightarrow> ready (reading n s) \<and> (\<forall>i < n. \<not> ready (reading i s))"

lemma polled_next: "polled n (snd (probe s)) = polled (Suc n) s"
  by (induction n) simp_all

lemma reading_next: "reading n (snd (probe s)) = reading (Suc n) s"
  by (simp only: reading_def polled_next)

lemma ready_at_0: "ready_at 0 s \<longleftrightarrow> ready (fst (probe s))"
  by (simp add: ready_at_def reading_def)

lemma ready_at_Suc:
  "ready_at (Suc n) s \<longleftrightarrow> \<not> ready (fst (probe s)) \<and> ready_at n (snd (probe s))"
proof -
  have "reading 0 s = fst (probe s)" by (simp add: reading_def)
  then show ?thesis by (auto simp: ready_at_def reading_next All_less_Suc2)
qed

lemma loop_first: "ready_at n s \<Longrightarrow> loop s = Some (polled (Suc n) s)"
proof (induction n arbitrary: s)
  case 0
  then show ?case by (simp add: loop_unfold [of s] ready_at_0)
next
  case (Suc n)
  then have "loop s = loop (snd (probe s))" by (simp add: loop_unfold [of s] ready_at_Suc)
  also have "\<dots> = Some (polled (Suc n) (snd (probe s)))"
    by (rule Suc.IH) (use Suc.prems in \<open>simp add: ready_at_Suc\<close>)
  finally show ?case by (simp only: polled_next)
qed

lemma loop_only:
  assumes "loop s = Some t"
  shows "\<exists>n. t = polled (Suc n) s \<and> ready_at n s"
proof (rule loop_induct [where P = "\<lambda>s t. \<exists>n. t = polled (Suc n) s \<and> ready_at n s", OF assms])
  fix s assume "ready (fst (probe s))"
  then show "\<exists>n. snd (probe s) = polled (Suc n) s \<and> ready_at n s"
    by (intro exI [of _ 0]) (simp add: ready_at_0)
next
  fix s t
  assume "\<not> ready (fst (probe s))"
    and "\<exists>n. t = polled (Suc n) (snd (probe s)) \<and> ready_at n (snd (probe s))"
  then show "\<exists>n. t = polled (Suc n) s \<and> ready_at n s"
    unfolding polled_next by (metis ready_at_Suc)
qed

lemma loop_returns: "loop s = Some t \<longleftrightarrow> (\<exists>n. t = polled (Suc n) s \<and> ready_at n s)"
  using loop_only loop_first by blast

text \<open>The loop does not return exactly when no poll is ever ready.\<close>

lemma loop_None: "loop s = None \<longleftrightarrow> (\<forall>n. \<not> ready (reading n s))"
proof -
  have "(\<exists>n. ready_at n s) \<longleftrightarrow> (\<exists>n. ready (reading n s))"
    using exists_least_iff [of "\<lambda>n. ready (reading n s)"] by (auto simp: ready_at_def)
  then show ?thesis using loop_returns [of s] by (cases "loop s") auto
qed

end

text \<open>
  The loops on devices: a poll appends the events of what it read to the trace and leaves
  everything else alone.
\<close>

locale polled_device = polled_loop probe ready loop
  for probe :: "'a machine_scheme \<Rightarrow> 'v \<times> 'a machine_scheme" and ready and loop +
  fixes events :: "'v \<Rightarrow> event list"
  assumes probe_trace: "trace (snd (probe s)) = trace s @ events (fst (probe s))"
    and probe_hw: "hw (snd (probe s)) = hw s"
    and probe_more: "machine.more (snd (probe s)) = machine.more s"
begin

lemma polled_device:
  "trace (polled n s) = trace s @ concat (map (\<lambda>i. events (reading i s)) [0..<n])
   \<and> hw (polled n s) = hw s \<and> machine.more (polled n s) = machine.more s"
  by (induction n) (simp_all add: probe_trace probe_hw probe_more reading_def)

lemma loop_trace:
  assumes "loop s = Some t"
  shows "\<exists>vs v. trace t = trace s @ concat (map events vs) @ events v
     \<and> ready v \<and> (\<forall>w \<in> set vs. \<not> ready w) \<and> hw t = hw s \<and> machine.more t = machine.more s"
proof -
  obtain n where n: "t = polled (Suc n) s" "ready_at n s" using loop_only [OF assms] by blast
  let ?vs = "map (\<lambda>i. reading i s) [0..<n]"
  have "trace t = trace s @ concat (map events ?vs) @ events (reading n s)"
    using polled_device [of "Suc n" s] by (simp add: n(1) comp_def)
  moreover have "hw t = hw s \<and> machine.more t = machine.more s"
    using polled_device [of "Suc n" s] by (simp add: n(1))
  moreover have "ready (reading n s)" "\<forall>w \<in> set ?vs. \<not> ready w"
    using n(2) by (auto simp: ready_at_def)
  ultimately show ?thesis by blast
qed

end

end
