(* ===== verification/Memory.thy ===== *)
theory Memory
  imports Prelude
begin

text \<open>
  The memory the kernel addresses: a byte for each of the \<open>2 ^ 32\<close> linear addresses.
  Pointers are \<open>u32\<close> and pointer arithmetic wraps as it does in the code. Multi-byte
  loads and stores are little-endian and unaligned, as on the x86.

  A contract for typed accesses (the locale \<open>cell\<close>) collects what a load returns after
  a store of the same width; it is interpreted for the widths the code uses.
\<close>

unbundle bit_operations_syntax

type_synonym mem = "u32 \<Rightarrow> u8"

section \<open>Address ranges\<close>

definition in_range :: "u32 \<Rightarrow> nat \<Rightarrow> u32 \<Rightarrow> bool" where
  "in_range a n x \<longleftrightarrow> unat (x - a) < n"

definition apart :: "u32 \<Rightarrow> nat \<Rightarrow> u32 \<Rightarrow> nat \<Rightarrow> bool" where
  "apart a n b k \<longleftrightarrow> n = 0 \<or> k = 0 \<or> n \<le> unat (b - a) \<and> k \<le> unat (a - b)"

lemma in_range_0 [simp]: "\<not> in_range a 0 x"
  by (simp add: in_range_def)

lemma in_range_offset [simp]: "i < 2 ^ 32 \<Longrightarrow> in_range a n (a + of_nat i) \<longleftrightarrow> i < n"
  by (simp add: in_range_def unat_of_nat)

lemma in_range_E:
  assumes "in_range a n x"
  obtains i where "i < n" "x = a + of_nat i"
  using assms by (metis in_range_def offset_of_nat)

lemma in_range_mono: "in_range a n x \<Longrightarrow> n \<le> k \<Longrightarrow> in_range a k x"
  by (simp add: in_range_def)

lemma in_range_Suc: "in_range a (Suc n) x \<longleftrightarrow> x = a \<or> in_range (a + 1) n x"
  by (cases "x = a") (simp_all add: in_range_def unat_sub_Suc)

lemma apart_commute: "apart a n b k \<longleftrightarrow> apart b k a n"
  by (auto simp: apart_def)

text \<open>Two ranges are apart exactly when no address lies in both.\<close>

lemma apart_iff: "apart a n b k \<longleftrightarrow> (\<forall>x. \<not> (in_range a n x \<and> in_range b k x))"
proof (cases "n = 0 \<or> k = 0")
  case True
  then show ?thesis by (auto simp: apart_def)
next
  case False
  show ?thesis
  proof
    assume "apart a n b k"
    with False have h: "n \<le> unat (b - a)" "k \<le> unat (a - b)" by (auto simp: apart_def)
    show "\<forall>x. \<not> (in_range a n x \<and> in_range b k x)"
    proof (intro allI notI, elim conjE)
      fix x assume "in_range a n x" "in_range b k x"
      with h have "unat (x - a) < unat (b - a)" "unat (x - b) < unat (a - b)"
        by (simp_all add: in_range_def)
      then show False by unat_arith
    qed
  next
    assume none: "\<forall>x. \<not> (in_range a n x \<and> in_range b k x)"
    from none [rule_format, of b] none [rule_format, of a] False
    show "apart a n b k" by (auto simp: in_range_def apart_def)
  qed
qed

lemma apartD: "apart a n b k \<Longrightarrow> in_range a n x \<Longrightarrow> \<not> in_range b k x"
  by (auto simp: apart_iff)

lemma apart_mono: "apart a n b k \<Longrightarrow> n' \<le> n \<Longrightarrow> k' \<le> k \<Longrightarrow> apart a n' b k'"
  by (auto simp: apart_def)

lemma apart_shift:
  assumes "apart a n b k" and "i + n' \<le> n" and "i < 2 ^ 32"
  shows "apart (a + of_nat i) n' b k"
proof -
  have "in_range a n x" if x: "in_range (a + of_nat i) n' x" for x
  proof -
    have "unat (x - a) \<le> unat (x - (a + of_nat i)) + i"
      using \<open>i < 2 ^ 32\<close> unat_of_nat32 [of i] by unat_arith
    with x assms(2) show ?thesis by (simp add: in_range_def)
  qed
  with assms(1) show ?thesis by (auto simp: apart_iff)
qed

lemma in_range_part:
  assumes "in_range (a + of_nat j) n x" "j + n \<le> k" "k \<le> 2 ^ 32"
  shows "in_range a k x"
proof -
  from assms(1) obtain i where i: "i < n" "x = a + of_nat j + of_nat i" by (rule in_range_E)
  then have x: "x = a + of_nat (j + i)" by (simp add: add.assoc)
  have "j + i < 2 ^ 32" using i(1) assms(2,3) by simp
  then show ?thesis unfolding x using i(1) assms(2) by (simp del: of_nat_add)
qed

text \<open>Two parts of one block.\<close>

lemma apart_offsets:
  assumes "i + n \<le> j" "j + k \<le> 2 ^ 32"
  shows "apart (a + of_nat i) n (a + of_nat j) k"
proof (cases "n = 0 \<or> k = 0")
  case False
  then have ij: "i < j" "j < 2 ^ 32" using assms by simp_all
  have d: "a + of_nat j - (a + of_nat i) = (of_nat (j - i) :: u32)" using ij by simp
  have f: "unat (a + of_nat j - (a + of_nat i)) = j - i"
    unfolding d by (rule unat_of_nat32) (use ij in simp)
  have e: "a + of_nat i - (a + of_nat j) = - (of_nat (j - i) :: u32)" using ij by simp
  have "uint (of_nat (j - i) :: u32) = int (j - i)" using f unfolding d by (simp add: uint_nat)
  then have "uint (- (of_nat (j - i) :: u32)) = 2 ^ 32 - int (j - i)"
    using uint_sub_if' [of 0 "of_nat (j - i) :: u32"] ij by (simp del: of_nat_diff)
  then have "unat (a + of_nat i - (a + of_nat j)) = 2 ^ 32 - (j - i)"
    unfolding e unat_eq_nat_uint using ij by simp
  moreover have "n \<le> j - i" "k \<le> 2 ^ 32 - (j - i)" using assms ij by linarith+
  ultimately show ?thesis unfolding apart_def f by simp
qed (auto simp: apart_def)

section \<open>Loads and stores\<close>

definition load16 :: "mem \<Rightarrow> u32 \<Rightarrow> u16" where
  "load16 m a = ucast (m a) OR push_bit 8 (ucast (m (a + 1)))"

definition load32 :: "mem \<Rightarrow> u32 \<Rightarrow> u32" where
  "load32 m a = ucast (m a) OR push_bit 8 (ucast (m (a + 1)))
     OR push_bit 16 (ucast (m (a + 2))) OR push_bit 24 (ucast (m (a + 3)))"

definition store16 :: "mem \<Rightarrow> u32 \<Rightarrow> u16 \<Rightarrow> mem" where
  "store16 m a v = m(a := ucast v, a + 1 := ucast (drop_bit 8 v))"

definition store32 :: "mem \<Rightarrow> u32 \<Rightarrow> u32 \<Rightarrow> mem" where
  "store32 m a v = m(a := ucast v, a + 1 := ucast (drop_bit 8 v),
     a + 2 := ucast (drop_bit 16 v), a + 3 := ucast (drop_bit 24 v))"

text \<open>
  What every access width promises: a load depends on the bytes of its range only, a
  store changes only those, and a load returns what was stored there.
\<close>

locale cell =
  fixes ld :: "mem \<Rightarrow> u32 \<Rightarrow> 'v" and st :: "mem \<Rightarrow> u32 \<Rightarrow> 'v \<Rightarrow> mem" and width :: nat
  assumes ld_st: "ld (st m a v) a = v"
    and ld_cong: "(\<And>x. in_range a width x \<Longrightarrow> m x = m' x) \<Longrightarrow> ld m a = ld m' a"
    and st_other: "\<not> in_range a width x \<Longrightarrow> st m a v x = m x"
begin

lemma ld_st_apart:
  assumes "apart a width b width"
  shows "ld (st m a v) b = ld m b"
  using assms by (intro ld_cong st_other) (auto simp: apart_iff)

lemma ld_outside:
  assumes "\<And>x. \<not> in_range b n x \<Longrightarrow> m' x = m x" and "apart a width b n"
  shows "ld m' a = ld m a"
  using assms by (intro ld_cong) (auto simp: apart_iff)

end

lemma in_range_2: "in_range a 2 x \<longleftrightarrow> x = a \<or> x = a + 1"
  by (simp add: numeral_2_eq_2 in_range_Suc)

lemma in_range_4: "in_range a 4 x \<longleftrightarrow> x = a \<or> x = a + 1 \<or> x = a + 2 \<or> x = a + 3"
  by (simp add: eval_nat_numeral in_range_Suc add.assoc)

lemma in_range_1: "in_range a 1 x \<longleftrightarrow> x = a"
  by (simp add: in_range_Suc)

interpretation byte: cell "\<lambda>m. m" "\<lambda>m a v. m(a := v)" 1
  by unfold_locales (simp_all add: in_range_1 [simplified])

interpretation half: cell load16 store16 2
proof unfold_locales
  show "load16 (store16 m a v) a = v" for m a v
    by (rule bit_word_eqI) (auto simp: load16_def store16_def bit_simps)
qed (simp_all add: in_range_2 load16_def store16_def)

interpretation quad: cell load32 store32 4
proof unfold_locales
  show "load32 (store32 m a v) a = v" for m a v
  proof (rule bit_word_eqI)
    fix n :: nat assume "n < LENGTH(32)"
    then consider "n < 8" | "8 \<le> n" "n < 16" | "16 \<le> n" "n < 24" | "24 \<le> n" "n < 32"
      by fastforce
    then show "bit (load32 (store32 m a v) a) n = bit v n"
      by cases (auto simp: load32_def store32_def bit_simps)
  qed
qed (simp_all add: in_range_4 load32_def store32_def)

lemmas load_store [mem_simps] = half.ld_st quad.ld_st

section \<open>Blocks of bytes\<close>

text \<open>The memory with the bytes \<open>bs\<close> written from \<open>a\<close> on.\<close>

definition put_bytes :: "mem \<Rightarrow> u32 \<Rightarrow> u8 list \<Rightarrow> mem" where
  "put_bytes m a bs = (\<lambda>x. if in_range a (length bs) x then bs ! unat (x - a) else m x)"

lemma put_bytes_Nil [simp]: "put_bytes m a [] = m"
  by (simp add: put_bytes_def)

lemma put_bytes_other [mem_simps]: "\<not> in_range a (length bs) x \<Longrightarrow> put_bytes m a bs x = m x"
  by (simp add: put_bytes_def)

lemma put_bytes_nth [mem_simps]:
  "i < length bs \<Longrightarrow> length bs \<le> 2 ^ 32 \<Longrightarrow> put_bytes m a bs (a + of_nat i) = bs ! i"
  by (simp add: put_bytes_def unat_of_nat)

lemma in_range_snoc:
  assumes "n < 2 ^ 32"
  shows "in_range a (Suc n) x \<longleftrightarrow> x = a + of_nat n \<or> in_range a n x"
proof
  assume "in_range a (Suc n) x"
  then obtain i where "i < Suc n" "x = a + of_nat i" by (rule in_range_E)
  with assms show "x = a + of_nat n \<or> in_range a n x" by (auto simp: less_Suc_eq)
next
  assume "x = a + of_nat n \<or> in_range a n x"
  with assms show "in_range a (Suc n) x" by (auto intro: in_range_mono)
qed

lemma put_bytes_snoc:
  assumes "length bs < 2 ^ 32"
  shows "put_bytes m a (bs @ [c]) = put_bytes (m(a + of_nat (length bs) := c)) a bs"
  using assms in_range_snoc [OF assms, of a]
  by (auto simp: put_bytes_def fun_eq_iff nth_append in_range_def unat_of_nat)

lemma put_bytes_Cons:
  assumes "length bs < 2 ^ 32"
  shows "put_bytes m a (c # bs) = put_bytes (m(a := c)) (a + 1) bs"
proof
  fix x
  have "\<not> in_range (a + 1) (length bs) a"
  proof -
    have "a - (a + 1) = - 1" by simp
    then have "unat (a - (a + 1)) = 2 ^ 32 - 1"
      by (simp add: unsigned_minus_1_eq_mask mask_eq_exp_minus_1)
    with assms show ?thesis by (simp add: in_range_def)
  qed
  then show "put_bytes m a (c # bs) x = put_bytes (m(a := c)) (a + 1) bs x"
    by (auto simp: put_bytes_def in_range_Suc unat_sub_Suc)
qed

lemma put_bytes_append:
  "length (bs @ cs) \<le> 2 ^ 32 \<Longrightarrow>
   put_bytes m a (bs @ cs) = put_bytes (put_bytes m a bs) (a + of_nat (length bs)) cs"
proof (induction bs arbitrary: m a)
  case (Cons b bs)
  then show ?case by (simp add: put_bytes_Cons add.assoc)
qed simp

end
