(* ===== verification/KlibMem.thy ===== *)
theory KlibMem
  imports Memory
begin

text \<open>
  klib/mem.c: \<open>memset\<close>, \<open>memcmp\<close> and \<open>memcpy\<close>, each the loop of the source over the
  machine's memory, and what the loop computes: the whole memory after a fill or a copy
  (so also what it leaves alone), with the exact condition under which copying forwards
  is right, and the meaning of the result of a comparison. The return values of
  \<open>memset\<close> and \<open>memcpy\<close> are their first argument.
\<close>

unbundle bit_operations_syntax

section \<open>memset\<close>

text \<open>\<open>while( n-- ) *_m1++ = (char_t)c\<close>; the early return on 0 is the loop's own exit.\<close>

function memset_loop :: "mem \<Rightarrow> u32 \<Rightarrow> u32 \<Rightarrow> u32 \<Rightarrow> mem" where
  "memset_loop m p c n =
     (if n = 0 then m else memset_loop (m(p := ucast c)) (p + 1) c (n - 1))"
  by pat_completeness auto
termination
  by (relation "measure (\<lambda>(m, p, c, n). unat n)") (simp_all add: unat_pred_less)

definition memset :: "mem \<Rightarrow> u32 \<Rightarrow> u32 \<Rightarrow> u32 \<Rightarrow> mem \<times> u32" where
  "memset m m1 c n = (if n = 0 then (m, m1) else (memset_loop m m1 c n, m1))"

definition filled :: "mem \<Rightarrow> u32 \<Rightarrow> nat \<Rightarrow> u8 \<Rightarrow> mem" where
  "filled m p n b = (\<lambda>x. if in_range p n x then b else m x)"

declare memset_loop.simps [simp del]

lemma memset_loop_filled: "memset_loop m p c n = filled m p (unat n) (ucast c)"
proof (induction m p c n rule: memset_loop.induct)
  case (1 m p c n)
  show ?case
  proof (cases "n = 0")
    case True
    then show ?thesis by (simp add: memset_loop.simps [of m p c 0] filled_def)
  next
    case False
    from False have Suc: "unat n = Suc (unat (n - 1))" by (simp add: Suc_unat_pred)
    have "in_range p (unat n) x \<longleftrightarrow> x = p \<or> in_range (p + 1) (unat (n - 1)) x" for x
      unfolding Suc by (rule in_range_Suc)
    then have "filled (m(p := ucast c)) (p + 1) (unat (n - 1)) (ucast c)
        = filled m p (unat n) (ucast c)"
      by (auto simp: filled_def)
    moreover have "memset_loop m p c n = memset_loop (m(p := ucast c)) (p + 1) c (n - 1)"
      using False by (subst memset_loop.simps) simp
    ultimately show ?thesis using 1 [OF False] by (simp only:)
  qed
qed

lemma memset_filled: "memset m p c n = (filled m p (unat n) (ucast c), p)"
  by (auto simp: memset_def memset_loop_filled filled_def)

section \<open>memcpy\<close>

text \<open>\<open>while( n-- ) *_dst++ = *_src++\<close>: the copy runs forwards, one byte at a time.\<close>

function memcpy_loop :: "mem \<Rightarrow> u32 \<Rightarrow> u32 \<Rightarrow> u32 \<Rightarrow> mem" where
  "memcpy_loop m dst src n =
     (if n = 0 then m else memcpy_loop (m(dst := m src)) (dst + 1) (src + 1) (n - 1))"
  by pat_completeness auto
termination
  by (relation "measure (\<lambda>(m, dst, src, n). unat n)") (simp_all add: unat_pred_less)

definition memcpy :: "mem \<Rightarrow> u32 \<Rightarrow> u32 \<Rightarrow> u32 \<Rightarrow> mem \<times> u32" where
  "memcpy m dst src n = (if n = 0 then (m, dst) else (memcpy_loop m dst src n, dst))"

definition copied :: "mem \<Rightarrow> u32 \<Rightarrow> u32 \<Rightarrow> nat \<Rightarrow> mem" where
  "copied m dst src n = (\<lambda>x. if in_range dst n x then m (src + (x - dst)) else m x)"

text \<open>
  Copying forwards is right unless the destination starts inside the source, past its
  first byte: no byte is then overwritten before it is read.
\<close>

definition forward_ok :: "u32 \<Rightarrow> u32 \<Rightarrow> nat \<Rightarrow> bool" where
  "forward_ok dst src n \<longleftrightarrow> dst = src \<or> n \<le> unat (dst - src)"

lemma apart_forward_ok: "apart dst n src n \<Longrightarrow> forward_ok dst src n"
  by (auto simp: apart_def forward_ok_def)

declare memcpy_loop.simps [simp del]

lemma memcpy_loop_copied:
  "forward_ok dst src (unat n) \<Longrightarrow> memcpy_loop m dst src n = copied m dst src (unat n)"
proof (induction m dst src n rule: memcpy_loop.induct)
  case (1 m dst src n)
  show ?case
  proof (cases "n = 0")
    case True
    then show ?thesis by (simp add: memcpy_loop.simps [of m dst src 0] copied_def)
  next
    case False
    let ?m = "m(dst := m src)"
    from False have Suc: "unat n = Suc (unat (n - 1))" by (simp add: Suc_unat_pred)
    have step: "in_range dst (unat n) x \<longleftrightarrow> x = dst \<or> in_range (dst + 1) (unat (n - 1)) x" for x
      unfolding Suc by (rule in_range_Suc)
    have fw: "forward_ok (dst + 1) (src + 1) (unat (n - 1))"
      using "1.prems" Suc by (auto simp: forward_ok_def)
    \<comment> \<open>the byte the first step overwrites is not read by a later one\<close>
    have keep: "?m (src + 1 + (x - (dst + 1))) = m (src + (x - dst))"
      if x: "in_range (dst + 1) (unat (n - 1)) x" for x
    proof -
      have eq: "src + 1 + (x - (dst + 1)) = src + (x - dst)" by simp
      have "m (src + (x - dst)) = m src" if "src + (x - dst) = dst"
      proof -
        from that have xd: "x - dst = dst - src" by (simp add: algebra_simps)
        show ?thesis
        proof (cases "x = dst")
          case True
          then show ?thesis by simp
        next
          case False
          from x False have "unat (x - dst) < unat n"
            by (simp add: in_range_def unat_sub_Suc Suc)
          with "1.prems" xd show ?thesis by (auto simp: forward_ok_def)
        qed
      qed
      with eq show ?thesis by simp
    qed
    have "memcpy_loop m dst src n = memcpy_loop ?m (dst + 1) (src + 1) (n - 1)"
      using False by (subst memcpy_loop.simps) simp
    also have "\<dots> = copied ?m (dst + 1) (src + 1) (unat (n - 1))"
      by (rule "1.IH" [OF False fw])
    also have "\<dots> = copied m dst src (unat n)"
      using keep step by (auto simp: copied_def fun_eq_iff)
    finally show ?thesis .
  qed
qed

lemma memcpy_copied:
  "forward_ok dst src (unat n) \<Longrightarrow> memcpy m dst src n = (copied m dst src (unat n), dst)"
  by (auto simp: memcpy_def memcpy_loop_copied copied_def)

text \<open>A copy writes nothing outside its destination, whatever the overlap.\<close>

lemma memcpy_loop_other: "\<not> in_range dst (unat n) x \<Longrightarrow> memcpy_loop m dst src n x = m x"
proof (induction m dst src n rule: memcpy_loop.induct)
  case (1 m dst src n)
  show ?case
  proof (cases "n = 0")
    case False
    then have "unat n = Suc (unat (n - 1))" by (simp add: Suc_unat_pred)
    then have "x \<noteq> dst" "\<not> in_range (dst + 1) (unat (n - 1)) x"
      using 1(2) in_range_Suc [of dst "unat (n - 1)" x] by auto
    then show ?thesis using 1(1) [OF False] False by (subst memcpy_loop.simps) (simp add: fun_upd_def)
  qed (simp add: memcpy_loop.simps)
qed

lemma memcpy_other: "\<not> in_range dst (unat n) x \<Longrightarrow> fst (memcpy m dst src n) x = m x"
  by (simp add: memcpy_def memcpy_loop_other)

section \<open>memcmp\<close>

text \<open>
  \<open>while( --n && *_m1 == *_m2 )\<close>: at most \<open>n\<close> bytes are compared, and the result is the
  difference of the last two read, as \<open>char_t\<close> (signed on this target) widened to int.
\<close>

function memcmp_loop :: "mem \<Rightarrow> u32 \<Rightarrow> u32 \<Rightarrow> u32 \<Rightarrow> u32" where
  "memcmp_loop m p q n =
     (let n' = n - 1 in
      if n' \<noteq> 0 \<and> m p = m q then memcmp_loop m (p + 1) (q + 1) n'
      else scast (m p) - scast (m q))"
  by pat_completeness auto
termination
proof (relation "measure (\<lambda>(m, p, q, n). unat (n - 1))")
  fix m :: mem and p q n n' :: u32
  assume "n' = n - 1" "n' \<noteq> 0 \<and> m p = m q"
  then show "((m, p + 1, q + 1, n'), m, p, q, n) \<in> measure (\<lambda>(m, p, q, n). unat (n - 1))"
    using unat_pred_less [of n'] by simp
qed simp

definition memcmp :: "mem \<Rightarrow> u32 \<Rightarrow> u32 \<Rightarrow> u32 \<Rightarrow> u32" where
  "memcmp m m1 m2 n = (if n = 0 then 0 else memcmp_loop m m1 m2 n)"

declare memcmp_loop.simps [simp del]

text \<open>The position where the comparison stops: the first difference, or the last byte.\<close>

lemma memcmp_loop_stop:
  assumes "n \<noteq> 0"
  shows "\<exists>k < unat n. (\<forall>i < k. m (p + of_nat i) = m (q + of_nat i)) \<and>
      (m (p + of_nat k) \<noteq> m (q + of_nat k) \<or> Suc k = unat n) \<and>
      memcmp_loop m p q n = scast (m (p + of_nat k)) - scast (m (q + of_nat k))"
  using assms
proof (induction m p q n rule: memcmp_loop.induct)
  case (1 m p q n)
  show ?case
  proof (cases "n - 1 \<noteq> 0 \<and> m p = m q")
    case True
    from "1.prems" have Suc: "Suc (unat (n - 1)) = unat n" by (rule Suc_unat_pred)
    from True "1.IH" [OF refl True] obtain k where
      k: "k < unat (n - 1)" "\<forall>i < k. m (p + 1 + of_nat i) = m (q + 1 + of_nat i)"
        "m (p + 1 + of_nat k) \<noteq> m (q + 1 + of_nat k) \<or> Suc k = unat (n - 1)"
        "memcmp_loop m (p + 1) (q + 1) (n - 1)
           = scast (m (p + 1 + of_nat k)) - scast (m (q + 1 + of_nat k))"
      by blast
    have "\<forall>i < Suc k. m (p + of_nat i) = m (q + of_nat i)"
      using True k(2) by (auto simp: less_Suc_eq_0_disj add.assoc)
    with True k Suc show ?thesis
      by (intro exI [of _ "Suc k"]) (auto simp: memcmp_loop.simps [of m p q n] add.assoc)
  next
    case False
    with "1.prems" have "m p \<noteq> m q \<or> unat n = 1"
      by (metis right_minus_eq unat_1)
    moreover have "0 < unat n" using "1.prems" by (simp add: unat_gt_0)
    ultimately show ?thesis using False
      by (intro exI [of _ 0]) (auto simp: memcmp_loop.simps [of m p q n] Let_def)
  qed
qed

text \<open>The difference of two bytes, as an int: no wrap-around, so its sign is the order's.\<close>

lemma sint_byte_diff:
  fixes b c :: u8
  shows "sint (scast b - scast c :: u32) = sint b - sint c"
proof -
  have b: "- 128 \<le> sint b" "sint b < 128" and c: "- 128 \<le> sint c" "sint c < 128"
    using sint_ge [of b] sint_lt [of b] sint_ge [of c] sint_lt [of c] by simp_all
  have "sint (scast b :: u32) = sint b" "sint (scast c :: u32) = sint c"
    by (simp_all add: sint_up_scast is_up)
  with b c show ?thesis
    by (simp add: sint_word_diff signed_take_bit_int_eq_self)
qed

lemma scast_byte_eq_iff:
  fixes b c :: u8
  shows "(scast b :: u32) = scast c \<longleftrightarrow> b = c"
proof
  assume "(scast b :: u32) = scast c"
  with sint_byte_diff [of b c] have "sint b = sint c" by simp
  then show "b = c" by (rule signed_word_eqI)
qed simp

section \<open>Properties\<close>

text \<open>\<open>memset\<close> writes its byte to exactly the \<open>n\<close> bytes from \<open>m1\<close> on, truncating the
  value to a char, and returns \<open>m1\<close>.\<close>

theorem memset_spec:
  "memset m m1 c n = ((\<lambda>x. if in_range m1 (unat n) x then ucast c else m x), m1)"
  by (simp add: memset_filled filled_def)

text \<open>\<open>memcpy\<close> copies the \<open>n\<close> bytes at \<open>src\<close> to \<open>dst\<close> and changes nothing else, for
  ranges that are apart and also for overlapping ones whenever the destination does not
  start inside the source past its first byte (as the console's scroll relies on).\<close>

theorem memcpy_spec:
  assumes "forward_ok dst src (unat n)"
  shows "memcpy m dst src n
    = ((\<lambda>x. if in_range dst (unat n) x then m (src + (x - dst)) else m x), dst)"
  using memcpy_copied [OF assms] by (simp add: copied_def)

lemma memcpy_spec_witness:
  "memcpy (\<lambda>x. ucast x) 16 18 4
    = ((\<lambda>x. if in_range 16 4 x then ucast (18 + (x - 16)) else ucast x), 16)"
  using memcpy_spec [of 16 18 4 "\<lambda>x. ucast x"] by (simp add: forward_ok_def)

text \<open>\<open>memcmp\<close> is 0 exactly when the first \<open>n\<close> bytes agree; otherwise its sign is the
  order of the first differing bytes read as signed chars.\<close>

theorem memcmp_spec:
  "(memcmp m p q n = 0 \<longleftrightarrow> (\<forall>i < unat n. m (p + of_nat i) = m (q + of_nat i))) \<and>
   (\<forall>k < unat n. (\<forall>i < k. m (p + of_nat i) = m (q + of_nat i)) \<longrightarrow>
      m (p + of_nat k) \<noteq> m (q + of_nat k) \<longrightarrow>
      sint (memcmp m p q n) = sint (m (p + of_nat k)) - sint (m (q + of_nat k)))"
proof (cases "n = 0")
  case True
  then show ?thesis by (simp add: memcmp_def)
next
  case False
  from memcmp_loop_stop [OF this, of m p q] obtain k where k: "k < unat n"
    and same: "\<forall>i < k. m (p + of_nat i) = m (q + of_nat i)"
    and stop: "m (p + of_nat k) \<noteq> m (q + of_nat k) \<or> Suc k = unat n"
    and res: "memcmp m p q n = scast (m (p + of_nat k)) - scast (m (q + of_nat k))"
    using False by (auto simp: memcmp_def)
  have "memcmp m p q n = 0 \<longleftrightarrow> m (p + of_nat k) = m (q + of_nat k)"
    by (simp add: res scast_byte_eq_iff)
  moreover have "(\<forall>i < unat n. m (p + of_nat i) = m (q + of_nat i))"
    if "m (p + of_nat k) = m (q + of_nat k)"
    using that same stop by (metis less_Suc_eq)
  ultimately have "memcmp m p q n = 0 \<longleftrightarrow> (\<forall>i < unat n. m (p + of_nat i) = m (q + of_nat i))"
    using k by blast
  moreover have "j = k" if "j < unat n" "\<forall>i < j. m (p + of_nat i) = m (q + of_nat i)"
    "m (p + of_nat j) \<noteq> m (q + of_nat j)" for j
    using that same stop k by (metis Suc_lessI linorder_neqE_nat not_less_eq)
  ultimately show ?thesis by (auto simp: res sint_byte_diff)
qed

lemma memcmp_spec_witness: "sint (memcmp (\<lambda>x. ucast x) 5 5 3) = 0
   \<and> sint (memcmp (\<lambda>x. ucast x) 5 7 3) = -2"
  using memcmp_spec [of "\<lambda>x. ucast x" 5 5 3] memcmp_spec [of "\<lambda>x. ucast x" 5 7 3]
  by (auto dest: spec [of _ "0 :: nat"])

end
