(* ===== verification/KlibString.thy ===== *)
theory KlibString
  imports KlibMem
begin

text \<open>
  klib/string.c: NUL-terminated strings in memory (\<open>strlen\<close>, \<open>strcpy\<close>) and the
  conversion of integers to text (\<open>strfromu\<close>, \<open>strfromd\<close>, \<open>strhex\<close>).

  The scanning loops have no bound: on a memory without a NUL they do not stop, so they
  are partial functions into \<open>option\<close>, and each theorem says that they return. The two
  conversions are the same two loops with another base and another digit character; the
  locale \<open>radix_printer\<close> proves them once.
\<close>

unbundle bit_operations_syntax

section \<open>Strings in memory\<close>

text \<open>\<open>cstr m a s\<close>: the bytes of \<open>s\<close>, none of them NUL, lie at \<open>a\<close> and a NUL follows.\<close>

fun cstr :: "mem \<Rightarrow> u32 \<Rightarrow> u8 list \<Rightarrow> bool" where
  "cstr m a [] \<longleftrightarrow> m a = 0"
| "cstr m a (c # s) \<longleftrightarrow> m a = c \<and> c \<noteq> 0 \<and> cstr m (a + 1) s"

lemma cstr_iff:
  "cstr m a s \<longleftrightarrow> (\<forall>i < length s. m (a + of_nat i) = s ! i) \<and> 0 \<notin> set s
     \<and> m (a + of_nat (length s)) = 0"
  by (induction s arbitrary: a) (auto simp: All_less_Suc2 add.assoc)

text \<open>A string in memory is shorter than the address space: its NUL is not one of its bytes.\<close>

lemma cstr_length:
  assumes "cstr m a s"
  shows "length s < 2 ^ 32"
proof (rule ccontr)
  assume "\<not> length s < 2 ^ 32"
  then obtain i where i: "length s = i + 2 ^ 32" by (metis add.commute le_Suc_ex not_less)
  then have same: "(of_nat i :: u32) = of_nat (length s)"
    by (simp add: word_of_nat_eq_iff take_bit_eq_mod)
  from assms i have "s ! i = m (a + of_nat i)" and "m (a + of_nat (length s)) = 0"
    unfolding cstr_iff by (metis less_add_same_cancel1 zero_less_numeral zero_less_power)+
  with same have "s ! i = 0" by simp
  with assms i show False by (metis cstr_iff less_add_same_cancel1 nth_mem zero_less_numeral
      zero_less_power)
qed

lemma cstr_cong:
  assumes "cstr m a s" and "\<And>x. in_range a (Suc (length s)) x \<Longrightarrow> m' x = m x"
  shows "cstr m' a s"
  using assms cstr_length [OF assms(1)] by (simp add: cstr_iff)

lemma cstr_put_bytes:
  "length s < 2 ^ 32 \<Longrightarrow> 0 \<notin> set s \<Longrightarrow> cstr (put_bytes m a (s @ [0])) a s"
  by (auto simp: cstr_iff put_bytes_def unat_of_nat nth_append)

section \<open>strlen and strcpy\<close>

partial_function (option) strlen_loop :: "mem \<Rightarrow> u32 \<Rightarrow> u32 option" where
  "strlen_loop m p = (if m p \<noteq> 0 then strlen_loop m (p + 1) else Some p)"

definition strlen :: "mem \<Rightarrow> u32 \<Rightarrow> u32 option" where
  "strlen m s = map_option (\<lambda>offset. offset - s) (strlen_loop m s)"

lemma strlen_loop_cstr: "cstr m a s \<Longrightarrow> strlen_loop m a = Some (a + of_nat (length s))"
  by (induction s arbitrary: a) (simp_all add: strlen_loop.simps add.assoc)

lemma strlen_cstr: "cstr m a s \<Longrightarrow> strlen m a = Some (of_nat (length s))"
  by (simp add: strlen_def strlen_loop_cstr)

text \<open>
  \<open>while( (*dst++ = *src++) != '\0' )\<close>, with the pointer past the copied NUL as result
  (\<open>strcpy\<close> drops it, the \<open>%s\<close> case of \<open>vsprintf\<close> goes on from it).
\<close>

partial_function (option) strcpy_loop :: "mem \<Rightarrow> u32 \<Rightarrow> u32 \<Rightarrow> (mem \<times> u32) option" where
  "strcpy_loop m dst src =
     (if m src \<noteq> 0 then strcpy_loop (m(dst := m src)) (dst + 1) (src + 1)
      else Some (m(dst := m src), dst + 1))"

definition strcpy :: "mem \<Rightarrow> u32 \<Rightarrow> u32 \<Rightarrow> (mem \<times> u32) option" where
  "strcpy m dst src = map_option (\<lambda>(m', _). (m', dst)) (strcpy_loop m dst src)"

lemma strcpy_loop_cstr:
  assumes "cstr m src s" and "forward_ok dst src (Suc (length s))"
  shows "strcpy_loop m dst src
    = Some (put_bytes m dst (s @ [0]), dst + of_nat (Suc (length s)))"
  using assms
proof (induction s arbitrary: m dst src)
  case Nil
  then show ?case by (subst strcpy_loop.simps) (simp add: put_bytes_Cons)
next
  case (Cons c s)
  let ?m = "m(dst := m src)"
  have len: "length (c # s) < 2 ^ 32" using Cons.prems(1) by (rule cstr_length)
  have fw: "forward_ok (dst + 1) (src + 1) (Suc (length s))"
    using Cons.prems(2) by (auto simp: forward_ok_def)
  have "\<not> in_range (src + 1) (Suc (length s)) dst \<or> dst = src"
    using Cons.prems(2) unat_sub_Suc [of dst src]
    by (cases "dst = src") (auto simp: forward_ok_def in_range_def)
  then have "cstr ?m (src + 1) s"
    using Cons.prems(1) by (auto intro!: cstr_cong [of m "src + 1" s])
  then have "strcpy_loop ?m (dst + 1) (src + 1)
      = Some (put_bytes ?m (dst + 1) (s @ [0]), dst + 1 + of_nat (Suc (length s)))"
    using fw by (rule Cons.IH)
  then have "strcpy_loop ?m (dst + 1) (src + 1)
      = Some (put_bytes m dst ((c # s) @ [0]), dst + of_nat (Suc (length (c # s))))"
    using Cons.prems(1) len by (simp only: put_bytes_Cons append_Cons) (simp add: put_bytes_Cons add.assoc)
  then show ?case using Cons.prems(1) by (subst strcpy_loop.simps) simp
qed

lemma strlen_loop_NUL: "strlen_loop m a = Some p \<Longrightarrow> m p = 0"
  by (rule strlen_loop.raw_induct [where P = "\<lambda>m a p. m p = 0"]) (auto split: if_splits)

text \<open>What \<open>strlen\<close> returns is the distance to the first NUL.\<close>

lemma strlen_loop_first:
  "strlen_loop m b = Some p \<Longrightarrow> \<exists>k. p = b + of_nat k \<and> (\<forall>i<k. m (b + of_nat i) \<noteq> 0) \<and> m p = 0"
proof (rule strlen_loop.raw_induct [where P = "\<lambda>m b p. \<exists>k. p = b + of_nat k \<and> (\<forall>i<k. m (b + of_nat i) \<noteq> 0) \<and> m p = 0"], goal_cases)
  case (1 f m b p)
  show ?case
  proof (cases "m b = 0")
    case True
    then show ?thesis using 1(3) by (intro exI [of _ 0]) simp
  next
    case False
    then obtain k where "p = b + 1 + of_nat k" "\<forall>i<k. m (b + 1 + of_nat i) \<noteq> 0" "m p = 0"
      using 1 by fastforce
    then show ?thesis using False
      by (intro exI [of _ "Suc k"]) (auto simp: All_less_Suc2 add.assoc)
  qed
qed

lemma strlen_first:
  assumes "strlen m a = Some n"
  shows "i < unat n \<Longrightarrow> m (a + of_nat i) \<noteq> 0" "m (a + n) = 0"
proof -
  obtain k where k: "\<forall>i<k. m (a + of_nat i) \<noteq> 0" "m (a + of_nat k) = 0" "n = of_nat k"
    using assms strlen_loop_first [of m a] by (force simp: strlen_def)
  have "unat n \<le> k" by (simp add: k(3) unat_of_nat)
  then show "i < unat n \<Longrightarrow> m (a + of_nat i) \<noteq> 0" "m (a + n) = 0" using k by auto
qed

lemma strlen_bound: "strlen m a = Some n \<Longrightarrow> m (a + of_nat k) = 0 \<Longrightarrow> unat n \<le> k"
  using strlen_first(1) [of m a n k] by (meson not_le)

section \<open>Digits\<close>

text \<open>The digits of a number in a base, the most significant first.\<close>

function digits :: "nat \<Rightarrow> nat \<Rightarrow> nat list" where
  "digits b n = (if b \<le> 1 \<or> n < b then [n] else digits b (n div b) @ [n mod b])"
  by pat_completeness auto
termination
  by (relation "measure snd") (auto intro!: div_less_dividend)

declare digits.simps [simp del]

definition undigits :: "nat \<Rightarrow> nat list \<Rightarrow> nat" where
  "undigits b ds = foldl (\<lambda>v d. v * b + d) 0 ds"

lemma undigits_digits: "1 < b \<Longrightarrow> undigits b (digits b n) = n"
proof (induction b n rule: digits.induct)
  case (1 b n)
  then show ?case by (subst digits.simps) (auto simp: undigits_def)
qed

lemma digits_less: "1 < b \<Longrightarrow> d \<in> set (digits b n) \<Longrightarrow> d < b"
proof (induction b n rule: digits.induct)
  case (1 b n)
  then show ?case by (subst (asm) (2) digits.simps) (auto split: if_splits)
qed

lemma digits_not_Nil [simp]: "digits b n \<noteq> []"
  by (subst digits.simps) simp

lemma digits_hd: "1 < b \<Longrightarrow> n \<noteq> 0 \<Longrightarrow> hd (digits b n) \<noteq> 0"
proof (induction b n rule: digits.induct)
  case (1 b n)
  then show ?case by (subst digits.simps) (auto simp: div_eq_0_iff)
qed

lemma digits_0 [simp]: "1 < b \<Longrightarrow> digits b 0 = [0]"
  by (subst digits.simps) simp

lemma length_digits: "1 < b \<Longrightarrow> n < 2 ^ k \<Longrightarrow> 0 < k \<Longrightarrow> length (digits b n) \<le> k"
proof (induction b n arbitrary: k rule: digits.induct)
  case (1 b n)
  show ?case
  proof (cases "n < b")
    case True
    with 1 show ?thesis by (subst digits.simps) simp
  next
    case False
    have "1 < k" using False "1.prems"
      by (metis One_nat_def Suc_1 less_2_cases_iff less_trans_Suc linorder_neqE_nat not_less_eq
          power_one_right)
    moreover have "n div b < 2 ^ (k - 1)"
    proof -
      have "n div b \<le> n div 2" using "1.prems" by (simp add: div_le_mono2)
      moreover have "n div 2 < 2 ^ (k - 1)"
        using "1.prems" \<open>1 < k\<close> by (cases k) (auto simp: less_mult_imp_div_less mult.commute)
      ultimately show ?thesis by simp
    qed
    ultimately have "length (digits b (n div b)) \<le> k - 1"
      using 1 False by auto
    with False \<open>1 < k\<close> "1.prems" show ?thesis by (subst digits.simps) auto
  qed
qed

lemma div10_less: "n div 10 \<noteq> 0 \<Longrightarrow> unat (n div (10 :: u32)) < unat n"
  and div16_less: "n div 16 \<noteq> 0 \<Longrightarrow> unat (n div (16 :: u32)) < unat n"
  by (auto simp: unat_div unat_0_iff [symmetric] simp del: unat_0_iff
      intro!: div_less_dividend intro: gr0I)

section \<open>Integers to text\<close>

text \<open>
  \<open>strfromu\<close> and \<open>strhex\<close>: the first loop moves \<open>offset\<close> to the place of the last digit,
  the second writes the digits backwards from there. The result is \<open>strlen(s)\<close>.
\<close>

function strfromu_last :: "u32 \<Rightarrow> u32 \<Rightarrow> u32" where
  "strfromu_last num offset =
     (let num' = num div 10 in if num' \<noteq> 0 then strfromu_last num' (offset + 1) else offset)"
  by pat_completeness auto
termination
  by (relation "measure (\<lambda>(num, offset). unat num)") (auto simp: div10_less)

function strfromu_put :: "mem \<Rightarrow> u32 \<Rightarrow> u32 \<Rightarrow> mem" where
  "strfromu_put m num offset =
     (let m' = m(offset := ucast (num mod 10 + 0x30)); num' = num div 10 in
      if num' \<noteq> 0 then strfromu_put m' num' (offset - 1) else m')"
  by pat_completeness auto
termination
  by (relation "measure (\<lambda>(m, num, offset). unat num)") (auto simp: div10_less)

definition strfromu :: "mem \<Rightarrow> u32 \<Rightarrow> u32 \<Rightarrow> (u32 \<times> mem) option" where
  "strfromu m n s =
     (let offset = strfromu_last n s;
          m1 = m(offset + 1 := 0);
          m2 = strfromu_put m1 n offset
      in map_option (\<lambda>len. (len, m2)) (strlen m2 s))"

function strhex_last :: "u32 \<Rightarrow> u32 \<Rightarrow> u32" where
  "strhex_last num offset =
     (let num' = num div 16 in if num' \<noteq> 0 then strhex_last num' (offset + 1) else offset)"
  by pat_completeness auto
termination
  by (relation "measure (\<lambda>(num, offset). unat num)") (auto simp: div16_less)

definition strhex_digit :: "u32 \<Rightarrow> u8" where
  "strhex_digit tmp = (if tmp < 10 then ucast (tmp + 0x30) else ucast (tmp - 10 + 65))"

function strhex_put :: "mem \<Rightarrow> u32 \<Rightarrow> u32 \<Rightarrow> mem" where
  "strhex_put m num offset =
     (let tmp = num mod 16; m' = m(offset := strhex_digit tmp); num' = num div 16 in
      if num' \<noteq> 0 then strhex_put m' num' (offset - 1) else m')"
  by pat_completeness auto
termination
  by (relation "measure (\<lambda>(m, num, offset). unat num)") (auto simp: div16_less)

definition strhex :: "mem \<Rightarrow> u32 \<Rightarrow> u32 \<Rightarrow> (u32 \<times> mem) option" where
  "strhex m n s =
     (let offset = strhex_last n s;
          m1 = m(offset + 1 := 0);
          m2 = strhex_put m1 n offset
      in map_option (\<lambda>len. (len, m2)) (strlen m2 s))"

text \<open>\<open>strfromd\<close>: a minus sign, then \<open>n *= -1\<close> and the unsigned conversion.\<close>

definition strfromd :: "mem \<Rightarrow> u32 \<Rightarrow> u32 \<Rightarrow> (u32 \<times> mem) option" where
  "strfromd m n s =
     (if sint n < 0
      then map_option (\<lambda>(len, m'). (1 + len, m')) (strfromu (m(s := 45)) (n * - 1) (s + 1))
      else map_option (\<lambda>(len, m'). (0 + len, m')) (strfromu m n s))"

declare strfromu_last.simps [simp del] strfromu_put.simps [simp del]
  strhex_last.simps [simp del] strhex_put.simps [simp del]

lemma dec_digit_char: "d < 10 \<Longrightarrow> (ucast (of_nat d + 0x30 :: u32) :: u8) = of_nat (d + 48) \<and>
    (of_nat (d + 48) :: u8) \<noteq> 0"
  by (simp add: numeral_eq_Suc less_Suc_eq) (elim disjE; simp)

lemma hex_digit_char: "d < 16 \<Longrightarrow>
    strhex_digit (of_nat d) = of_nat (if d < 10 then d + 48 else d + 55) \<and>
    strhex_digit (of_nat d) \<noteq> 0"
  by (simp add: numeral_eq_Suc less_Suc_eq) (elim disjE; simp add: strhex_digit_def)

text \<open>
  The contract of such a conversion: the two loops in base \<open>base\<close> with the digit
  characters \<open>digit\<close>, none of which is NUL.
\<close>

locale radix_printer =
  fixes base :: u32 and digit :: "u32 \<Rightarrow> u8"
    and last_loop :: "u32 \<Rightarrow> u32 \<Rightarrow> u32" and put_loop :: "mem \<Rightarrow> u32 \<Rightarrow> u32 \<Rightarrow> mem"
  assumes base: "1 < unat base"
    and last_eq: "last_loop n p = (if n div base \<noteq> 0 then last_loop (n div base) (p + 1) else p)"
    and put_eq: "put_loop m n p = (if n div base \<noteq> 0
        then put_loop (m(p := digit (n mod base))) (n div base) (p - 1)
        else m(p := digit (n mod base)))"
    and digit: "unat d < unat base \<Longrightarrow> digit d \<noteq> 0"
begin

definition text_of :: "u32 \<Rightarrow> u8 list" where
  "text_of n = map (\<lambda>d. digit (of_nat d)) (digits (unat base) (unat n))"

lemma text_of_step:
  "text_of n = (if n div base \<noteq> 0 then text_of (n div base) else []) @ [digit (n mod base)]"
proof -
  have "n div base = 0 \<longleftrightarrow> unat n < unat base"
    using base by (simp add: unat_0_iff [symmetric] unat_div div_eq_0_iff del: unat_0_iff)
  moreover have "of_nat (unat n mod unat base) = n mod base"
    by (simp add: word_arith_nat_mod)
  moreover have "n mod base = n" if "unat n < unat base"
    using that by (simp add: word_arith_nat_mod)
  ultimately show ?thesis
    using base by (subst text_of_def, subst digits.simps) (auto simp: text_of_def unat_div)
qed

lemma text_of_not_Nil [simp]: "text_of n \<noteq> []"
  by (simp add: text_of_def)

lemma length_text_of: "length (text_of n) \<le> 32"
  using length_digits [OF base, of "unat n" 32] unsigned_less [of n] by (simp add: text_of_def)

lemma text_of_nonzero: "0 \<notin> set (text_of n)"
proof
  assume "0 \<in> set (text_of n)"
  then obtain d where d: "d \<in> set (digits (unat base) (unat n))" and z: "digit (of_nat d) = 0"
    by (auto simp: text_of_def)
  from d base have "d < unat base" by (blast dest: digits_less)
  moreover from this have "unat (of_nat d :: u32) = d"
    using unat_less32 [of base] by (intro unat_of_nat32) simp
  ultimately show False using digit [of "of_nat d"] z by simp
qed

lemma div_less: "n div base \<noteq> 0 \<Longrightarrow> unat (n div base) < unat n"
  using base by (auto simp: unat_div unat_0_iff [symmetric] simp del: unat_0_iff
      intro!: div_less_dividend intro: gr0I)

lemma last_loop_eq: "last_loop n p = p + of_nat (length (text_of n) - 1)"
proof (induction "unat n" arbitrary: n p rule: less_induct)
  case less
  have len: "0 < length (text_of (n div base))" by simp
  show ?case
    using less [OF div_less, of "p + 1"] of_nat_pred [OF len, where 'a = 32]
    by (subst last_eq, subst text_of_step) (auto simp: add.assoc add.commute)
qed

lemma put_loop_eq: "put_loop m n (p + of_nat (length (text_of n) - 1)) = put_bytes m p (text_of n)"
proof (induction "unat n" arbitrary: n m rule: less_induct)
  case less
  show ?case
  proof (cases "n div base = 0")
    case True
    then show ?thesis
      by (subst put_eq, subst (1 2) text_of_step) (simp add: put_bytes_Cons)
  next
    case False
    let ?k = "length (text_of (n div base))"
    have k: "0 < ?k" "?k < 2 ^ 32" using length_text_of [of "n div base"] by simp_all
    have "(of_nat ?k :: u32) - 1 = of_nat (?k - 1)" using k(1) by (rule of_nat_pred')
    then have "put_loop m n (p + of_nat ?k)
        = put_loop (m(p + of_nat ?k := digit (n mod base))) (n div base) (p + of_nat (?k - 1))"
      using False by (subst put_eq) (simp add: add_diff_eq [symmetric])
    also have "\<dots> = put_bytes (m(p + of_nat ?k := digit (n mod base))) p (text_of (n div base))"
      using False by (intro less div_less)
    also have "\<dots> = put_bytes m p (text_of (n div base) @ [digit (n mod base)])"
      using k by (simp add: put_bytes_snoc)
    finally show ?thesis
      using False by (subst (1 2) text_of_step) simp
  qed
qed

text \<open>Both loops together leave the text and its NUL, and its length is the result.\<close>

lemma print_eq:
  assumes off: "offset = last_loop n s" and m2: "m2 = put_loop (m(offset + 1 := 0)) n offset"
  shows "m2 = put_bytes m s (text_of n @ [0])"
    and "strlen m2 s = Some (of_nat (length (text_of n)))"
proof -
  have len: "length (text_of n) < 2 ^ 32" "0 < length (text_of n)"
    using length_text_of [of n] by simp_all
  then have end_eq: "offset + 1 = s + of_nat (length (text_of n))"
    using of_nat_pred [OF len(2), where 'a = 32] by (simp add: off last_loop_eq add.assoc)
  then have "m2 = put_bytes (m(s + of_nat (length (text_of n)) := 0)) s (text_of n)"
    unfolding m2 off last_loop_eq by (simp only: put_loop_eq)
  with len show eq: "m2 = put_bytes m s (text_of n @ [0])"
    by (simp add: put_bytes_snoc)
  show "strlen m2 s = Some (of_nat (length (text_of n)))"
    unfolding eq using len text_of_nonzero by (intro strlen_cstr cstr_put_bytes)
qed

end

text \<open>The model's two conversions keep the contract.\<close>

interpretation dec: radix_printer 10 "\<lambda>d. ucast (d + 0x30)" strfromu_last strfromu_put
proof unfold_locales
  show "(ucast (d + 0x30) :: u8) \<noteq> 0" if "unat d < unat (10 :: u32)" for d :: u32
    using that dec_digit_char [of "unat d"] by simp
qed (simp, (subst strfromu_last.simps strfromu_put.simps, simp add: Let_def)+)

interpretation hex: radix_printer 16 strhex_digit strhex_last strhex_put
proof unfold_locales
  show "strhex_digit d \<noteq> 0" if "unat d < unat (16 :: u32)" for d :: u32
    using that hex_digit_char [THEN conjunct2, of "unat d"] by simp
qed (simp, (subst strhex_last.simps strhex_put.simps, simp add: Let_def)+)

text \<open>The texts as plain lists of characters, without machine words.\<close>

definition dec_char :: "nat \<Rightarrow> u8" where
  "dec_char d = of_nat (d + 48)"

definition dec_text :: "nat \<Rightarrow> u8 list" where
  "dec_text n = map dec_char (digits 10 n)"

definition hex_char :: "nat \<Rightarrow> u8" where
  "hex_char d = of_nat (if d < 10 then d + 48 else d + 55)"

definition hex_text :: "nat \<Rightarrow> u8 list" where
  "hex_text n = map hex_char (digits 16 n)"

definition int_text :: "int \<Rightarrow> u8 list" where
  "int_text i = (if i < 0 then 45 # dec_text (nat (- i)) else dec_text (nat i))"

lemma dec_text_of: "dec.text_of n = dec_text (unat n)"
  unfolding dec.text_of_def dec_text_def
  by (rule map_cong) (auto dest!: digits_less [rotated] dec_digit_char simp: dec_char_def)

lemma hex_text_of: "hex.text_of n = hex_text (unat n)"
  unfolding hex.text_of_def hex_text_def
  by (rule map_cong) (auto dest!: digits_less [rotated] hex_digit_char simp: hex_char_def)

lemma strfromu_eq:
  "strfromu m n s
    = Some (of_nat (length (dec_text (unat n))), put_bytes m s (dec_text (unat n) @ [0]))"
  using dec.print_eq [OF refl refl, of m n s] by (simp add: strfromu_def dec_text_of)

lemma strhex_eq:
  "strhex m n s
    = Some (of_nat (length (hex_text (unat n))), put_bytes m s (hex_text (unat n) @ [0]))"
  using hex.print_eq [OF refl refl, of m n s] by (simp add: strhex_def hex_text_of)

lemma strfromd_eq:
  "strfromd m n s
    = Some (of_nat (length (int_text (sint n))), put_bytes m s (int_text (sint n) @ [0]))"
proof (cases "sint n < 0")
  case True
  have "length (dec_text (unat (- n)) @ [0]) < 2 ^ 32"
    using dec.length_text_of [of "- n"] by (simp add: dec_text_of)
  with True show ?thesis
    by (simp add: strfromd_def strfromu_eq int_text_def put_bytes_Cons unat_neg_sint)
next
  case False
  then show ?thesis by (simp add: strfromd_def strfromu_eq int_text_def unat_nonneg_sint)
qed

section \<open>Reading the texts back\<close>

definition undec :: "u8 list \<Rightarrow> nat" where
  "undec t = undigits 10 (map (\<lambda>c. unat c - 48) t)"

definition unhex :: "u8 list \<Rightarrow> nat" where
  "unhex t = undigits 16 (map (\<lambda>c. if unat c < 58 then unat c - 48 else unat c - 55) t)"

lemma unat_dec_char: "d < 10 \<Longrightarrow> unat (dec_char d) = d + 48"
  by (simp add: dec_char_def unat_of_nat del: of_nat_add)

lemma unat_hex_char: "d < 16 \<Longrightarrow> unat (hex_char d) = (if d < 10 then d + 48 else d + 55)"
  by (simp add: hex_char_def unat_of_nat del: of_nat_add)

lemma undec_dec_text: "undec (dec_text n) = n"
proof -
  have "map (\<lambda>c. unat c - 48) (dec_text n) = digits 10 n"
    by (auto simp: dec_text_def unat_dec_char dest!: digits_less [rotated] intro!: map_idI)
  then show ?thesis by (simp add: undec_def undigits_digits)
qed

lemma unhex_hex_text: "unhex (hex_text n) = n"
proof -
  have "map (\<lambda>c. if unat c < 58 then unat c - 48 else unat c - 55) (hex_text n) = digits 16 n"
    by (auto simp: hex_text_def unat_hex_char dest!: digits_less [rotated] intro!: map_idI)
  then show ?thesis by (simp add: unhex_def undigits_digits)
qed

lemma dec_text_not_Nil [simp]: "dec_text n \<noteq> []"
  by (simp add: dec_text_def)

lemma hex_text_not_Nil [simp]: "hex_text n \<noteq> []"
  by (simp add: hex_text_def)

lemma hd_dec_text:
  assumes "n \<noteq> 0"
  shows "hd (dec_text n) \<noteq> 48"
proof -
  let ?d = "hd (digits 10 n)"
  have "?d \<noteq> 0" using assms digits_hd [of 10 n] by simp
  moreover have "?d < 10" by (rule digits_less [of 10 _ n]) simp_all
  ultimately have "unat (dec_char ?d) \<noteq> 48" by (simp add: unat_dec_char)
  then show ?thesis by (auto simp: dec_text_def hd_map)
qed

lemma hd_hex_text:
  assumes "n \<noteq> 0"
  shows "hd (hex_text n) \<noteq> 48"
proof -
  let ?d = "hd (digits 16 n)"
  have "?d \<noteq> 0" using assms digits_hd [of 16 n] by simp
  moreover have "?d < 16" by (rule digits_less [of 16 _ n]) simp_all
  ultimately have "unat (hex_char ?d) \<noteq> 48" by (simp add: unat_hex_char)
  then show ?thesis by (auto simp: hex_text_def hd_map)
qed

lemma text_nonzero:
  "0 \<notin> set (dec_text (unat n))" "0 \<notin> set (hex_text (unat n))" "0 \<notin> set (int_text (sint n))"
  for n :: u32
proof -
  show d: "0 \<notin> set (dec_text (unat n))" for n :: u32 using dec.text_of_nonzero [of n] by (simp add: dec_text_of)
  show "0 \<notin> set (hex_text (unat n))" using hex.text_of_nonzero [of n] by (simp add: hex_text_of)
  show "0 \<notin> set (int_text (sint n))"
    using d [of n] d [of "- n"] by (auto simp: int_text_def unat_nonneg_sint unat_neg_sint)
qed

lemma length_text:
  "length (dec_text (unat n)) \<le> 32" "length (hex_text (unat n)) \<le> 32"
  "length (int_text (sint n)) \<le> 33"
  for n :: u32
proof -
  show d: "length (dec_text (unat n)) \<le> 32" for n :: u32
    using dec.length_text_of [of n] by (simp add: dec_text_of)
  show "length (hex_text (unat n)) \<le> 32" using hex.length_text_of [of n] by (simp add: hex_text_of)
  show "length (int_text (sint n)) \<le> 33"
    using d [of n] d [of "- n"] by (auto simp: int_text_def unat_nonneg_sint unat_neg_sint)
qed

section \<open>Properties\<close>

text \<open>\<open>strlen\<close> stops on every string in memory and returns its exact length; on a
  memory without any NUL it never returns.\<close>

theorem strlen_spec:
  "(\<forall>s. cstr m a s \<longrightarrow> (\<exists>n. strlen m a = Some n \<and> unat n = length s))
   \<and> ((\<forall>x. m x \<noteq> 0) \<longrightarrow> strlen m a = None)"
proof (intro conjI allI impI)
  fix s assume "cstr m a s"
  then show "\<exists>n. strlen m a = Some n \<and> unat n = length s"
    using cstr_length by (simp add: strlen_cstr) (simp add: unat_of_nat)
next
  assume "\<forall>x. m x \<noteq> 0"
  then have "strlen_loop m a = None" using strlen_loop_NUL [of m a] by fastforce
  then show "strlen m a = None" by (simp add: strlen_def)
qed

lemma strlen_spec_witness:
  "(\<exists>n. strlen (\<lambda>x. if x < 3 then 65 else 0) 0 = Some n \<and> unat n = length [65, 65, 65 :: u8])
   \<and> strlen (\<lambda>x. 65) 0 = None"
proof
  show "\<exists>n. strlen (\<lambda>x. if x < 3 then 65 else 0) 0 = Some n \<and> unat n = length [65, 65, 65 :: u8]"
    by (rule strlen_spec [THEN conjunct1, rule_format]) simp
  show "strlen (\<lambda>x. 65) 0 = None"
    by (rule strlen_spec [THEN conjunct2, rule_format]) simp
qed

text \<open>\<open>strcpy\<close> returns its destination, which then holds the source's string with its
  NUL, and writes nothing else; the ranges may overlap when the destination is below.\<close>

theorem strcpy_spec:
  assumes "cstr m src s" and "forward_ok dst src (Suc (length s))"
  shows "\<exists>m'. strcpy m dst src = Some (m', dst) \<and> cstr m' dst s
    \<and> (\<forall>x. \<not> in_range dst (Suc (length s)) x \<longrightarrow> m' x = m x)"
proof -
  have "cstr (put_bytes m dst (s @ [0])) dst s"
    using assms(1) by (intro cstr_put_bytes cstr_length) (auto simp: cstr_iff)
  then show ?thesis
    by (simp add: strcpy_def strcpy_loop_cstr [OF assms]) (simp add: put_bytes_other)
qed

lemma strcpy_spec_witness:
  "\<exists>m'. strcpy (\<lambda>x. if x < 3 then 65 else 0) 100 0 = Some (m', 100) \<and> cstr m' 100 [65, 65, 65]
    \<and> (\<forall>x. \<not> in_range 100 (Suc (length [65, 65, 65 :: u8])) x \<longrightarrow> m' x = (if x < 3 then 65 else 0))"
  by (rule strcpy_spec [of "\<lambda>x. if x < 3 then 65 else 0" 0 "[65, 65, 65]" 100])
    (simp_all add: forward_ok_def)

text \<open>\<open>strfromu\<close> always returns; it leaves at \<open>s\<close> a NUL-terminated decimal text that
  reads back as \<open>n\<close>, with no leading zero, returns its length, and writes nothing else.\<close>

theorem strfromu_spec:
  "\<exists>t m'. strfromu m n s = Some (of_nat (length t), m') \<and> cstr m' s t \<and> undec t = unat n
    \<and> t \<noteq> [] \<and> (unat n \<noteq> 0 \<longrightarrow> hd t \<noteq> 48) \<and> length t \<le> 32
    \<and> (\<forall>x. \<not> in_range s (Suc (length t)) x \<longrightarrow> m' x = m x)"
  using length_text(1) [of n] text_nonzero(1) [of n] hd_dec_text [of "unat n"]
  by (simp add: strfromu_eq undec_dec_text put_bytes_other cstr_put_bytes
      exI [of _ "dec_text (unat n)"])

text \<open>\<open>strhex\<close> does the same in base 16, with upper-case letters.\<close>

theorem strhex_spec:
  "\<exists>t m'. strhex m n s = Some (of_nat (length t), m') \<and> cstr m' s t \<and> unhex t = unat n
    \<and> t \<noteq> [] \<and> (unat n \<noteq> 0 \<longrightarrow> hd t \<noteq> 48) \<and> length t \<le> 32
    \<and> (\<forall>x. \<not> in_range s (Suc (length t)) x \<longrightarrow> m' x = m x)"
  using length_text(2) [of n] text_nonzero(2) [of n] hd_hex_text [of "unat n"]
  by (simp add: strhex_eq unhex_hex_text put_bytes_other cstr_put_bytes
      exI [of _ "hex_text (unat n)"])

text \<open>\<open>strfromd\<close> prints the signed value of its argument: a minus sign exactly for the
  negative ones (the most negative one included), then the decimal text of the absolute value.\<close>

theorem strfromd_spec:
  "\<exists>t m'. strfromd m n s = Some (of_nat (length t), m') \<and> cstr m' s t
    \<and> (if sint n < 0 then hd t = 45 \<and> int (undec (tl t)) = - sint n
       else int (undec t) = sint n)
    \<and> (\<forall>x. \<not> in_range s (Suc (length t)) x \<longrightarrow> m' x = m x)"
proof -
  let ?t = "int_text (sint n)"
  have "cstr (put_bytes m s (?t @ [0])) s ?t"
    using length_text(3) [of n] text_nonzero(3) [of n] by (intro cstr_put_bytes) simp_all
  moreover have "if sint n < 0 then hd ?t = 45 \<and> int (undec (tl ?t)) = - sint n
      else int (undec ?t) = sint n"
    by (simp add: int_text_def undec_dec_text)
  ultimately show ?thesis
    by (intro exI [of _ ?t] exI [of _ "put_bytes m s (?t @ [0])"])
      (simp add: strfromd_eq put_bytes_other)
qed

end
