(* ===== verification/Cpu.thy ===== *)
theory Cpu
  imports Machine KlibMem KlibString
begin

text \<open>
  Processor control (ksrc/cpu.h, cpu.c): model-specific registers and CPUID. The vendor
  string is assembled in memory, so \<open>cpu_cpuid_manufacturer\<close> also takes the addresses the
  compiler gave to its four local variables.
\<close>

unbundle bit_operations_syntax

abbreviation MSR_IA32_APIC_BASE :: u32 where "MSR_IA32_APIC_BASE \<equiv> 0x1B"

definition cpu_msr_read :: "u32 \<Rightarrow> 'a machine_scheme \<Rightarrow> (u32 \<times> u32) \<times> 'a machine_scheme" where
  "cpu_msr_read msr s =
     (let (edx, eax) = rdmsr (hw s) (trace s) msr in ((edx, eax), emit (RdMsr msr edx eax) s))"

definition cpu_msr_write :: "u32 \<Rightarrow> u32 \<Rightarrow> u32 \<Rightarrow> 'a machine_scheme \<Rightarrow> 'a machine_scheme" where
  "cpu_msr_write msr edx eax s = emit (WrMsr msr edx eax) s"

text \<open>(eax, ebx, ecx, edx) after CPUID with sub-leaf 0.\<close>

definition cpu_cpuid ::
  "u32 \<Rightarrow> 'a machine_scheme \<Rightarrow> (u32 \<times> u32 \<times> u32 \<times> u32) \<times> 'a machine_scheme" where
  "cpu_cpuid leaf s = (cpuid (hw s) (trace s) leaf, emit (Cpuid leaf) s)"

definition cpu_has_apic :: "'a machine_scheme \<Rightarrow> u8 \<times> 'a machine_scheme" where
  "cpu_has_apic s =
     (let ((eax, ebx, ecx, edx), s) = cpu_cpuid 1 s in (ucast (drop_bit 9 edx AND 1), s))"

definition cpu_cpuid_leafts :: "'a machine_scheme \<Rightarrow> u32 \<times> 'a machine_scheme" where
  "cpu_cpuid_leafts s = (let ((eax, ebx, ecx, edx), s) = cpu_cpuid 0 s in (eax, s))"

record cpuid_locals =
  at_eax :: u32
  at_ebx :: u32
  at_ecx :: u32
  at_edx :: u32

definition store_locals :: "cpuid_locals \<Rightarrow> u32 \<times> u32 \<times> u32 \<times> u32 \<Rightarrow> mem \<Rightarrow> mem" where
  "store_locals l r m = (case r of (eax, ebx, ecx, edx) \<Rightarrow>
     store32 (store32 (store32 (store32 m (at_eax l) eax) (at_ebx l) ebx) (at_ecx l) ecx)
       (at_edx l) edx)"

definition cpu_cpuid_manufacturer ::
  "cpuid_locals \<Rightarrow> u32 \<Rightarrow> mem \<Rightarrow> 'a machine_scheme \<Rightarrow> u32 \<times> mem \<times> 'a machine_scheme" where
  "cpu_cpuid_manufacturer l buffer m s =
     (let (r, s) = cpu_cpuid 0 s;
          m = store_locals l r m;
          m = m(buffer + 12 := 0);
          m = fst (memcpy m buffer (at_ebx l) 4);
          m = fst (memcpy m (buffer + 4) (at_edx l) 4);
          m = fst (memcpy m (buffer + 8) (at_ecx l) 4)
      in (buffer, m, s))"

lemma cpu_frame [simp, frame_simps]:
  "trace (snd (cpu_msr_read n s)) = trace s @ [RdMsr n (fst (fst (cpu_msr_read n s))) (snd (fst (cpu_msr_read n s)))]"
  "trace (cpu_msr_write n d a s) = trace s @ [WrMsr n d a]"
  "hw (snd (cpu_msr_read n s)) = hw s" "hw (cpu_msr_write n d a s) = hw s"
  "machine.more (snd (cpu_msr_read n s)) = machine.more s"
  "machine.more (cpu_msr_write n d a s) = machine.more s"
  "fst (cpu_msr_read n s) = rdmsr (hw s) (trace s) n"
  by (simp_all add: cpu_msr_read_def cpu_msr_write_def split: prod.splits)

text \<open>\<open>cpu_has_apic\<close> is 1 or 0 by bit 9 of edx in leaf 1.\<close>

lemma cpu_has_apic_bit:
  "cpuid (hw s) (trace s) 1 = (eax, ebx, ecx, edx) \<Longrightarrow>
   fst (cpu_has_apic s) = (if bit edx 9 then 1 else 0)"
  by (simp add: cpu_has_apic_def cpu_cpuid_def bit_iff_odd_drop_bit and_one_eq mod_2_eq_odd)

section \<open>The vendor string\<close>

definition bytes32 :: "u32 \<Rightarrow> u8 list" where
  "bytes32 v = [ucast v, ucast (drop_bit 8 v), ucast (drop_bit 16 v), ucast (drop_bit 24 v)]"

lemma length_bytes32 [simp]: "length (bytes32 v) = 4"
  by (simp add: bytes32_def)

lemma store32_put_bytes: "store32 m a v = put_bytes m a (bytes32 v)"
  by (simp add: store32_def bytes32_def put_bytes_Cons add.assoc)

text \<open>The bytes of a word in memory are those a store put there.\<close>

lemma copied_word:
  assumes "\<And>i. i < 4 \<Longrightarrow> m (src + of_nat i) = bytes32 v ! i" and "apart dst 4 src 4"
  shows "fst (memcpy m dst src 4) = store32 m dst v"
proof -
  have "forward_ok dst src (unat (4 :: u32))" using assms(2) by (simp add: apart_forward_ok)
  then have "fst (memcpy m dst src 4) = copied m dst src 4" by (simp add: memcpy_copied)
  also have "\<dots> = put_bytes m dst (bytes32 v)"
  proof
    fix x
    show "copied m dst src 4 x = put_bytes m dst (bytes32 v) x"
      using assms(1) [of "unat (x - dst)"] by (simp add: copied_def put_bytes_def in_range_def)
  qed
  finally show ?thesis by (simp add: store32_put_bytes)
qed

lemma store32_nth: "i < 4 \<Longrightarrow> store32 m a v (a + of_nat i) = bytes32 v ! i"
  by (simp add: store32_put_bytes put_bytes_nth)

lemma store32_apart:
  assumes "apart a 4 b 4" "i < 4"
  shows "store32 m a v (b + of_nat i) = m (b + of_nat i)"
  using assms by (intro quad.st_other) (auto simp: apart_iff)

lemma apart_part:
  assumes "apart b 13 a 4" "k \<le> 9"
  shows "apart (b + of_nat k) 4 a 4"
  using assms by (intro apart_shift [of b 13]) simp_all

definition locals_ok :: "cpuid_locals \<Rightarrow> u32 \<Rightarrow> bool" where
  "locals_ok l b \<longleftrightarrow> apart (at_ebx l) 4 (at_ecx l) 4 \<and> apart (at_ebx l) 4 (at_edx l) 4
     \<and> apart (at_ecx l) 4 (at_edx l) 4 \<and> apart b 13 (at_ebx l) 4 \<and> apart b 13 (at_ecx l) 4
     \<and> apart b 13 (at_edx l) 4"

text \<open>The three copies of \<open>cpu_cpuid_manufacturer\<close> are stores of the three registers.\<close>

lemma cpu_cpuid_manufacturer_stores:
  assumes "locals_ok l b" and "cpuid (hw s) (trace s) 0 = (eax, ebx, ecx, edx)"
  shows "cpu_cpuid_manufacturer l b m s = (b, put_bytes
     ((store_locals l (eax, ebx, ecx, edx) m)(b + 12 := 0)) b
     (bytes32 ebx @ bytes32 edx @ bytes32 ecx), emit (Cpuid 0) s)"
proof -
  define m1 where "m1 = (store_locals l (eax, ebx, ecx, edx) m)(b + 12 := 0)"
  note ok = assms(1) [unfolded locals_ok_def]
  have ap: "apart (b + of_nat k) 4 (at_ebx l) 4" "apart (b + of_nat k) 4 (at_ecx l) 4"
    "apart (b + of_nat k) 4 (at_edx l) 4" if "k \<le> 9" for k
    using ok that by (simp_all add: apart_part)
  have last: "m1 (a + of_nat i) = store_locals l (eax, ebx, ecx, edx) m (a + of_nat i)"
    if "apart b 13 a 4" "i < 4" for a i
  proof -
    have "in_range b 13 (b + 12)" using in_range_offset [of 12 b 13] by simp
    moreover have "in_range a 4 (a + of_nat i)" using that(2) by simp
    ultimately have "a + of_nat i \<noteq> b + 12" using apartD [OF that(1)] by metis
    then show ?thesis by (simp add: m1_def)
  qed
  have rd: "m1 (at_ebx l + of_nat i) = bytes32 ebx ! i" "m1 (at_ecx l + of_nat i) = bytes32 ecx ! i"
    "m1 (at_edx l + of_nat i) = bytes32 edx ! i" if "i < 4" for i
    using ok that
    by (simp_all add: last store_locals_def store32_nth store32_apart apart_commute [of _ _ "at_ebx l"]
        apart_commute [of "at_edx l"])
  have c1: "fst (memcpy m1 b (at_ebx l) 4) = store32 m1 b ebx"
    using rd(1) ap(1) [of 0] by (intro copied_word) simp_all
  have c2: "fst (memcpy (store32 m1 b ebx) (b + 4) (at_edx l) 4) = store32 (store32 m1 b ebx) (b + 4) edx"
    using rd(3) ap(3) [of 0] ap(3) [of 4] by (intro copied_word) (simp_all add: store32_apart)
  have c3: "fst (memcpy (store32 (store32 m1 b ebx) (b + 4) edx) (b + 8) (at_ecx l) 4)
      = store32 (store32 (store32 m1 b ebx) (b + 4) edx) (b + 8) ecx"
    using rd(2) ap(2) [of 0] ap(2) [of 4] ap(2) [of 8]
    by (intro copied_word) (simp_all add: store32_apart)
  have "store32 (store32 (store32 m1 b ebx) (b + 4) edx) (b + 8) ecx
      = put_bytes m1 b (bytes32 ebx @ bytes32 edx @ bytes32 ecx)"
    by (simp add: store32_put_bytes put_bytes_append add.assoc)
  then show ?thesis
    using c1 c2 c3 assms(2)
    by (simp add: cpu_cpuid_manufacturer_def cpu_cpuid_def m1_def)
qed

text \<open>\<open>cpu_cpuid_manufacturer\<close> leaves the vendor string in the buffer, the bytes of ebx, edx and
  ecx in this order and a NUL after them, when its locals lie apart from each other and from
  the 13 bytes of the buffer.\<close>

theorem cpu_vendor_string:
  assumes "locals_ok l b" and "cpuid (hw s) (trace s) 0 = (eax, ebx, ecx, edx)"
    and "0 \<notin> set (bytes32 ebx @ bytes32 edx @ bytes32 ecx)"
  shows "\<exists>m'. cpu_cpuid_manufacturer l b m s = (b, m', emit (Cpuid 0) s)
    \<and> cstr m' b (bytes32 ebx @ bytes32 edx @ bytes32 ecx)"
proof -
  let ?t = "bytes32 ebx @ bytes32 edx @ bytes32 ecx"
  let ?m = "put_bytes ((store_locals l (eax, ebx, ecx, edx) m)(b + 12 := 0)) b ?t"
  have len: "length ?t = 12" by simp
  have "?m (b + of_nat i) = ?t ! i" if "i < 12" for i
    by (rule put_bytes_nth) (use that len in simp_all)
  moreover have "?m (b + 12) = 0"
    using len by (subst put_bytes_other) (auto simp: in_range_def)
  ultimately have "cstr ?m b ?t" using assms(3) len by (simp add: cstr_iff)
  then show ?thesis using cpu_cpuid_manufacturer_stores [OF assms(1,2)] by blast
qed

definition intel :: machine where
  "intel = \<lparr>hw = quiet\<lparr>cpuid := \<lambda>es n. (13, 0x756E6547, 0x6C65746E, 0x49656E69)\<rparr>, trace = []\<rparr>"

lemma cpu_vendor_string_witness:
  "\<exists>m'. cpu_cpuid_manufacturer \<lparr>at_eax = 0x100, at_ebx = 0x104, at_ecx = 0x108, at_edx = 0x10C\<rparr> 0x200
      (\<lambda>x. 0) intel = (0x200, m', emit (Cpuid 0) intel)
    \<and> cstr m' 0x200 (chars ''GenuineIntel'')"
proof -
  let ?l = "\<lparr>at_eax = 0x100, at_ebx = 0x104, at_ecx = 0x108, at_edx = 0x10C\<rparr>"
  let ?t = "bytes32 0x756E6547 @ bytes32 0x49656E69 @ bytes32 0x6C65746E"
  have ok: "locals_ok ?l 0x200" by (simp add: locals_ok_def apart_def)
  have id: "cpuid (hw intel) (trace intel) 0 = (13, 0x756E6547, 0x6C65746E, 0x49656E69)"
    by (simp add: intel_def)
  have t: "?t = chars ''GenuineIntel''" by (simp add: bytes32_def chars_def)
  then have "0 \<notin> set ?t" by (simp add: chars_def)
  from cpu_vendor_string [OF ok id this] show ?thesis by (simp only: t)
qed

end
