(* ===== verification/Pit8254.thy ===== *)
theory Pit8254
  imports Machine
begin

text \<open>
  The interval timer (ksrc/drivers/i8254.h, i8254.c): \<open>pit_wait_ms\<close> loads channel 0 and
  polls its status with read-back commands until the output is set. The loop is the first
  client of the contract for busy waiting.
\<close>

unbundle bit_operations_syntax

abbreviation PIT_PORT_COMMAND :: u16 where "PIT_PORT_COMMAND \<equiv> 0x43"
abbreviation PIT_SELECT_CHANNEL1 :: u16 where "PIT_SELECT_CHANNEL1 \<equiv> 0x40"
abbreviation PIT_ACCESS_BOTH :: u8 where "PIT_ACCESS_BOTH \<equiv> 0x30"

definition pit_latch :: "u32 \<Rightarrow> u16" where
  "pit_latch ms = ucast (11932 * (ms div 10))"

text \<open>One round of the waiting loop: the read-back command, then the status byte.\<close>

definition pit_probe :: "'a machine_scheme \<Rightarrow> u8 \<times> 'a machine_scheme" where
  "pit_probe s =
     (let s = io_port_outb PIT_PORT_COMMAND 0xE2 s
      in io_port_inb PIT_SELECT_CHANNEL1 s)"

definition pit_done :: "u8 \<Rightarrow> bool" where
  "pit_done status \<longleftrightarrow> status AND 0x80 \<noteq> 0"

partial_function (option) pit_loop :: "'a machine_scheme \<Rightarrow> 'a machine_scheme option" where
  "pit_loop s = (if pit_done (fst (pit_probe s)) then Some (snd (pit_probe s))
     else pit_loop (snd (pit_probe s)))"

text \<open>The counter is loaded low byte first.\<close>

definition pit_load :: "u32 \<Rightarrow> 'a machine_scheme \<Rightarrow> 'a machine_scheme" where
  "pit_load ms s =
     (let latch = pit_latch ms;
          s = io_port_outb PIT_PORT_COMMAND PIT_ACCESS_BOTH s;
          s = io_port_outb PIT_SELECT_CHANNEL1 (ucast (latch AND 0xFF)) s;
          s = io_port_outb PIT_SELECT_CHANNEL1 (ucast (drop_bit 8 latch AND 0xFF)) s
      in s)"

definition pit_wait_ms :: "u32 \<Rightarrow> 'a machine_scheme \<Rightarrow> 'a machine_scheme option" where
  "pit_wait_ms ms s = pit_loop (pit_load ms s)"

lemma pit_load_frame [simp]:
  "trace (pit_load ms s) = trace s @ [OutB 0x43 0x30, OutB 0x40 (ucast (pit_latch ms AND 0xFF)),
     OutB 0x40 (ucast (drop_bit 8 (pit_latch ms) AND 0xFF))]"
  "hw (pit_load ms s) = hw s"
  "machine.more (pit_load ms s) = machine.more s"
  by (simp_all add: pit_load_def Let_def)

lemma pit_probe_frame [simp]:
  "trace (snd (pit_probe s)) = trace s @ [OutB PIT_PORT_COMMAND 0xE2,
     InB PIT_SELECT_CHANNEL1 (fst (pit_probe s))]"
  "hw (snd (pit_probe s)) = hw s"
  "machine.more (snd (pit_probe s)) = machine.more s"
  by (simp_all add: pit_probe_def Let_def)

definition pit_events :: "u8 \<Rightarrow> event list" where
  "pit_events status = [OutB PIT_PORT_COMMAND 0xE2, InB PIT_SELECT_CHANNEL1 status]"

interpretation pit: polled_device pit_probe pit_done pit_loop pit_events
proof unfold_locales
  fix s t :: "'a machine_scheme" and P :: "'a machine_scheme \<Rightarrow> 'a machine_scheme \<Rightarrow> bool"
  assume ret: "pit_loop s = Some t"
    and base: "\<And>s. pit_done (fst (pit_probe s)) \<Longrightarrow> P s (snd (pit_probe s))"
    and step: "\<And>s t. \<not> pit_done (fst (pit_probe s)) \<Longrightarrow> P (snd (pit_probe s)) t \<Longrightarrow> P s t"
  show "P s t"
    by (rule pit_loop.raw_induct [where P = P, OF _ ret]) (auto intro: base step split: if_splits)
qed (rule pit_loop.simps, simp_all add: pit_events_def)

lemma pit_wait_ms_trace:
  assumes "pit_wait_ms ms s = Some t"
  shows "\<exists>es. trace t = trace s @ es \<and> hw t = hw s \<and> machine.more t = machine.more s"
proof -
  from assms have "pit_loop (pit_load ms s) = Some t" by (simp add: pit_wait_ms_def)
  from pit.loop_trace [OF this] show ?thesis by auto
qed

text \<open>\<open>pit_wait_ms\<close> loads channel 0 (low byte first) and polls its status: when it returns,
  the last status read has bit 7 set and none before it has, and nothing but the trace has
  changed; it fails to return exactly when no poll ever reads bit 7 set.\<close>

theorem pit_wait_ms_returns:
  "(case pit_wait_ms ms s of
      None \<Rightarrow> \<forall>n. \<not> pit_done (pit.reading n (pit_load ms s))
    | Some t \<Rightarrow> \<exists>vs v. trace t = trace s @ [OutB 0x43 0x30,
          OutB 0x40 (ucast (pit_latch ms AND 0xFF)),
          OutB 0x40 (ucast (drop_bit 8 (pit_latch ms) AND 0xFF))]
          @ concat (map pit_events vs) @ pit_events v
        \<and> pit_done v \<and> (\<forall>w \<in> set vs. \<not> pit_done w)
        \<and> hw t = hw s \<and> machine.more t = machine.more s)"
proof (cases "pit_wait_ms ms s")
  case None
  then have "pit_loop (pit_load ms s) = None" by (simp add: pit_wait_ms_def)
  moreover from this have "\<forall>n. \<not> pit_done (pit.reading n (pit_load ms s))"
    using pit.loop_None by blast
  ultimately show ?thesis unfolding pit_wait_ms_def by (simp only: option.case) blast
next
  case (Some t)
  then have "pit_loop (pit_load ms s) = Some t" by (simp add: pit_wait_ms_def)
  from pit.loop_trace [OF this] Some show ?thesis by simp
qed

text \<open>On a timer whose second status has the output set.\<close>

definition slow_pit :: machine where
  "slow_pit = \<lparr>hw = quiet\<lparr>port8 := \<lambda>es p. if length es < 5 then 0 else 0x80\<rparr>, trace = []\<rparr>"

lemma pit_wait_ms_returns_witness:
  "\<exists>t vs v. pit_wait_ms 10 slow_pit = Some t \<and>
     trace t = [OutB 0x43 0x30, OutB 0x40 0x9C, OutB 0x40 0x2E] @ concat (map pit_events vs) @ pit_events v
     \<and> pit_done v"
proof -
  have "pit_done (pit.reading 1 (pit_load 10 slow_pit))"
    by (simp add: pit.reading_def pit_probe_def pit_done_def slow_pit_def)
  then have "pit_loop (pit_load 10 slow_pit) \<noteq> None" using pit.loop_None by blast
  then obtain t where t: "pit_wait_ms 10 slow_pit = Some t" by (auto simp: pit_wait_ms_def)
  with pit_wait_ms_returns [of 10 slow_pit] obtain vs v where
    "trace t = trace slow_pit @ [OutB 0x43 0x30, OutB 0x40 (ucast (pit_latch 10 AND 0xFF)),
      OutB 0x40 (ucast (drop_bit 8 (pit_latch 10) AND 0xFF))]
      @ concat (map pit_events vs) @ pit_events v" "pit_done v"
    by (simp only: option.case) blast
  moreover have "trace slow_pit = []" by (simp add: slow_pit_def)
  ultimately have "trace t = [OutB 0x43 0x30, OutB 0x40 0x9C, OutB 0x40 0x2E]
      @ concat (map pit_events vs) @ pit_events v"
    by (simp add: pit_latch_def)
  with t \<open>pit_done v\<close> show ?thesis by blast
qed

section \<open>What the chip counts\<close>

text \<open>
  Channel 0 as the chip's data sheet has it, from the bytes written to its ports: a command byte
  that selects channel 0 and both bytes (bits 7 to 4 are 0011) makes it wait for the low byte and
  then the high byte of the count, and a count of 0 stands for 65536. The state is the bytes of
  a count that is being loaded and the count loaded last; a read-back command changes neither. The
  chip counts 1193182 times a second.
\<close>

definition counts :: "u8 \<Rightarrow> u8 \<Rightarrow> nat" where
  "counts lo hi = (let n = unat lo + 256 * unat hi in if n = 0 then 65536 else n)"

fun channel0 :: "event \<Rightarrow> u8 list \<times> nat \<Rightarrow> u8 list \<times> nat" where
  "channel0 (OutB p v) (bytes, n) =
     (if p = 0x43 then (if drop_bit 4 v = 3 then ([], n) else (bytes, n))
      else if p = 0x40 then (case bytes of [] \<Rightarrow> ([v], n) | lo # _ \<Rightarrow> ([], counts lo v))
      else (bytes, n))"
| "channel0 _ c = c"

lemma channel0_polls: "fold channel0 (concat (map pit_events vs)) c = c"
proof -
  have "channel0 (OutB PIT_PORT_COMMAND 0xE2) c = c" by (cases c) (simp add: drop_bit_eq_div)
  then show ?thesis by (induction vs) (simp_all add: pit_events_def)
qed

lemma counts_of_halves:
  fixes w :: u16
  shows "counts (ucast (w AND 0xFF)) (ucast (drop_bit 8 w AND 0xFF)) = (if w = 0 then 65536 else unat w)"
proof -
  have "unat (ucast (w AND 0xFF) :: u8) = unat w mod 256"
    by (simp add: unsigned_ucast_eq and_low_mod take_bit_eq_mod unat_mod)
  moreover have "unat (ucast (drop_bit 8 w AND 0xFF) :: u8) = unat w div 256"
  proof -
    have "unat w div 256 < 256" using unsigned_less [of w, where 'a = nat] by simp
    then show ?thesis by (simp add: unsigned_ucast_eq and_low_mod take_bit_eq_mod unat_mod unat_div drop_bit_eq_div)
  qed
  ultimately show ?thesis by (simp add: counts_def Let_def unat_eq_zero)
qed

lemma pit_load_counts:
  "fold channel0 [OutB 0x43 0x30, OutB 0x40 (ucast (pit_latch ms AND 0xFF)),
     OutB 0x40 (ucast (drop_bit 8 (pit_latch ms) AND 0xFF))] c
   = ([], if pit_latch ms = 0 then 65536 else unat (pit_latch ms))"
proof (cases c)
  case (Pair b n)
  have "(drop_bit 4 0x30 :: u8) = 3" by (simp add: drop_bit_eq_div)
  then show ?thesis by (simp add: Pair counts_of_halves del: drop_bit_numeral_bit0 drop_bit_numeral_bit1 cong: if_cong)
qed

lemma pit_wait_ms_trace_full:
  assumes "pit_wait_ms ms s = Some t"
  shows "\<exists>vs v. trace t = trace s @ [OutB 0x43 0x30, OutB 0x40 (ucast (pit_latch ms AND 0xFF)),
      OutB 0x40 (ucast (drop_bit 8 (pit_latch ms) AND 0xFF))] @ concat (map pit_events vs) @ pit_events v"
proof -
  from assms have "pit_loop (pit_load ms s) = Some t" by (simp add: pit_wait_ms_def)
  from pit.loop_trace [OF this] show ?thesis by auto
qed

lemma pit_arith:
  fixes m n :: nat
  assumes "n \<le> 65536" and "m < 55 \<Longrightarrow> n = (if m < 10 then 65536 else 11932 * (m div 10))"
  shows "(1193182 * m \<le> 1000 * n \<longleftrightarrow> m \<le> 10 \<or> m \<in> {20, 30, 40, 50})
    \<and> (m < 10 \<longrightarrow> n = 65536)
    \<and> (10 \<le> m \<and> m < 55 \<longrightarrow> 1000 * n - 1000 < 1193182 * (m div 10 * 10) \<and> 1193182 * (m div 10 * 10) \<le> 1000 * n)"
proof (cases "m < 55")
  case True
  define d where "d = m div 10"
  have m: "m = 10 * d + m mod 10" "m mod 10 < 10" by (simp_all add: d_def)
  from True have "d < 6" unfolding d_def by simp
  then have "d \<in> {0, 1, 2, 3, 4, 5}" by auto
  then show ?thesis using assms(2) [OF True] m unfolding d_def [symmetric] by (elim insertE) auto
next
  case False
  with assms(1) show ?thesis by auto
qed

text \<open>C29. Which waits the counter can make. The count that \<open>pit_wait_ms\<close> loads lasts as long as was
  asked for these requests and no other: up to 10 ms, and 20, 30, 40 and 50 ms. From 10 ms on it is
  then the smallest count that does; for less than 10 ms it is 65536, the largest the chip has,
  so that a request of 1 ms waits for 54.9 ms. Every other request is cut short: one below 55 ms
  to the multiple of ten under it, and a longer one because no count lasts that long.\<close>

theorem pit_wait_ms_interval:
  assumes "pit_wait_ms ms s = Some t"
  shows "\<exists>es n. trace t = trace s @ es \<and> (\<forall>c. fold channel0 es c = ([], n))
    \<and> (1193182 * unat ms \<le> 1000 * n \<longleftrightarrow> unat ms \<le> 10 \<or> unat ms \<in> {20, 30, 40, 50})
    \<and> (unat ms < 10 \<longrightarrow> n = 65536)
    \<and> (10 \<le> unat ms \<and> unat ms < 55 \<longrightarrow> 1000 * n - 1000 < 1193182 * (unat ms div 10 * 10)
        \<and> 1193182 * (unat ms div 10 * 10) \<le> 1000 * n)"
proof -
  define n where "n = (if pit_latch ms = 0 then 65536 else unat (pit_latch ms))"
  obtain es where es: "trace t = trace s @ es" "\<forall>c. fold channel0 es c = ([], n)"
  proof -
    from pit_wait_ms_trace_full [OF assms] obtain vs v where "trace t = trace s @ ([OutB 0x43 0x30,
        OutB 0x40 (ucast (pit_latch ms AND 0xFF)), OutB 0x40 (ucast (drop_bit 8 (pit_latch ms) AND 0xFF))]
        @ concat (map pit_events (vs @ [v])))"
      by auto
    moreover have "fold channel0 (([OutB 0x43 0x30, OutB 0x40 (ucast (pit_latch ms AND 0xFF)),
        OutB 0x40 (ucast (drop_bit 8 (pit_latch ms) AND 0xFF))]) @ concat (map pit_events (vs @ [v]))) c = ([], n)" for c
      unfolding fold_append comp_apply pit_load_counts channel0_polls n_def ..
    ultimately show ?thesis using that by blast
  qed
  have latch: "unat (pit_latch ms) = 11932 * (unat ms div 10)" if "unat ms < 60"
  proof -
    from that have "unat ms div 10 < 6" by simp
    then show ?thesis
      by (simp add: pit_latch_def unsigned_ucast_eq unat_word_ariths unat_div take_bit_nat_eq_self)
  qed
  have "n \<le> 65536" using unsigned_less [of "pit_latch ms", where 'a = nat] by (simp add: n_def)
  moreover have "n = (if unat ms < 10 then 65536 else 11932 * (unat ms div 10))" if "unat ms < 55"
    using that latch by (auto simp: n_def unat_eq_zero [symmetric])
  ultimately have "1193182 * unat ms \<le> 1000 * n \<longleftrightarrow> unat ms \<le> 10 \<or> unat ms \<in> {20, 30, 40, 50}"
    "unat ms < 10 \<longrightarrow> n = 65536"
    "10 \<le> unat ms \<and> unat ms < 55 \<longrightarrow> 1000 * n - 1000 < 1193182 * (unat ms div 10 * 10)
      \<and> 1193182 * (unat ms div 10 * 10) \<le> 1000 * n"
    using pit_arith [of n "unat ms"] by blast+
  with es show ?thesis by blast
qed

lemma pit_wait_ms_interval_witness:
  "\<exists>t es n. pit_wait_ms 5 slow_pit = Some t \<and> trace t = es \<and> fold channel0 es ([], 0) = ([], n) \<and> n = 65536"
proof -
  have "pit_done (pit.reading 1 (pit_load 5 slow_pit))"
    by (simp add: pit.reading_def pit_probe_def pit_done_def slow_pit_def)
  then have "pit_loop (pit_load 5 slow_pit) \<noteq> None" using pit.loop_None by blast
  then obtain t where t: "pit_wait_ms 5 slow_pit = Some t" by (auto simp: pit_wait_ms_def)
  have "trace slow_pit = []" by (simp add: slow_pit_def)
  with pit_wait_ms_interval [OF t] t show ?thesis by auto
qed

end
