(* ===== verification/Lapic82489DX.thy ===== *)
theory Lapic82489DX
  imports Cpu Pit8254
begin

text \<open>
  The local APIC (ksrc/drivers/82489DX.h, 82489DX.c) and the two tick counts of ksrc/timer.c
  it calibrates. Its registers are words at \<open>lapic_base\<close>, read and written through
  \<open>LAPIC_REG\<close>; the base is the page address in the APIC base register.
\<close>

unbundle bit_operations_syntax

section \<open>State and registers\<close>

record lapic = machine +
  lapic_base :: u32
  lapic_ticks_per_ms :: u32
  lapic_ticks_per_us :: u32

abbreviation LAPIC_ID :: u32 where "LAPIC_ID \<equiv> 0x20"
abbreviation LAPIC_VER :: u32 where "LAPIC_VER \<equiv> 0x30"
abbreviation LAPIC_EIO :: u32 where "LAPIC_EIO \<equiv> 0xB0"
abbreviation LAPIC_LVTTR :: u32 where "LAPIC_LVTTR \<equiv> 0x320"
abbreviation LAPIC_LVTLINT0 :: u32 where "LAPIC_LVTLINT0 \<equiv> 0x350"
abbreviation LAPIC_LVTLINT1 :: u32 where "LAPIC_LVTLINT1 \<equiv> 0x360"
abbreviation LAPIC_ICR :: u32 where "LAPIC_ICR \<equiv> 0x380"
abbreviation LAPIC_CCR :: u32 where "LAPIC_CCR \<equiv> 0x390"
abbreviation LAPIC_DCR :: u32 where "LAPIC_DCR \<equiv> 0x3E0"

definition LAPIC_LVTTR_VECTOR :: "u32 \<Rightarrow> u32" where "LAPIC_LVTTR_VECTOR v = v AND 0xFF"
definition LAPIC_LVTTR_MASK :: u32 where "LAPIC_LVTTR_MASK = push_bit 16 1"
definition LAPIC_LVTTR_ONESHOT :: u32 where "LAPIC_LVTTR_ONESHOT = push_bit 17 0"
definition LAPIC_LVTTR_PERIODIC :: u32 where "LAPIC_LVTTR_PERIODIC = push_bit 17 1"
definition LAPIC_LINT_NMI :: u32 where "LAPIC_LINT_NMI = push_bit 8 4"
definition LAPIC_LINT_MASK :: u32 where "LAPIC_LINT_MASK = push_bit 16 1"
definition LAPIC_DCR_DIV16 :: u32 where "LAPIC_DCR_DIV16 = 3"

lemmas lapic_words = LAPIC_LVTTR_VECTOR_def LAPIC_LVTTR_MASK_def LAPIC_LVTTR_ONESHOT_def
  LAPIC_LVTTR_PERIODIC_def LAPIC_LINT_NMI_def LAPIC_LINT_MASK_def LAPIC_DCR_DIV16_def

definition lapic_write :: "u32 \<Rightarrow> u32 \<Rightarrow> 'a lapic_scheme \<Rightarrow> 'a lapic_scheme" where
  "lapic_write reg v s = mmio_write (lapic_base s OR reg) v s"

definition lapic_read :: "u32 \<Rightarrow> 'a lapic_scheme \<Rightarrow> u32 \<times> 'a lapic_scheme" where
  "lapic_read reg s = mmio_read (lapic_base s OR reg) s"

definition lapic_eio :: "u32 \<Rightarrow> 'a lapic_scheme \<Rightarrow> 'a lapic_scheme" where
  "lapic_eio val s = lapic_write LAPIC_EIO val s"

section \<open>The base address\<close>

definition lapic_get_base :: "'a machine_scheme \<Rightarrow> u32 \<times> 'a machine_scheme" where
  "lapic_get_base s =
     (let ((edx, eax), s) = cpu_msr_read MSR_IA32_APIC_BASE s in (eax AND 0xFFFFF000, s))"

definition lapic_enable :: "'a machine_scheme \<Rightarrow> 'a machine_scheme" where
  "lapic_enable s =
     (let ((edx, eax), s) = cpu_msr_read MSR_IA32_APIC_BASE s;
          eax = eax OR 0x800
      in cpu_msr_write MSR_IA32_APIC_BASE edx eax s)"

definition lapic_remap :: "u32 \<Rightarrow> 'a machine_scheme \<Rightarrow> 'a machine_scheme" where
  "lapic_remap addr s =
     (let ((edx, eax), s) = cpu_msr_read MSR_IA32_APIC_BASE s;
          eax = eax AND 0x00000FFF;
          eax = eax OR addr
      in cpu_msr_write MSR_IA32_APIC_BASE edx eax s)"

definition lapic_init :: "'a lapic_scheme \<Rightarrow> 'a lapic_scheme" where
  "lapic_init s =
     (let s = print ''Initializing LAPIC 82489DX !\<newline>'' [] s;
          (base, s) = lapic_get_base s;
          s = s\<lparr>lapic_base := base\<rparr>;
          (idr, s) = lapic_read LAPIC_ID s;
          (ver, s) = lapic_read LAPIC_VER s;
          s = lapic_write LAPIC_LVTLINT0 LAPIC_LINT_MASK s;
          s = lapic_write LAPIC_LVTLINT1 LAPIC_LINT_NMI s
      in lapic_enable s)"

section \<open>The timer\<close>

definition lapic_timer_calibrate :: "'a lapic_scheme \<Rightarrow> 'a lapic_scheme option" where
  "lapic_timer_calibrate s =
     (let s = lapic_write LAPIC_DCR LAPIC_DCR_DIV16 s;
          s = lapic_write LAPIC_LVTTR (LAPIC_LVTTR_ONESHOT OR LAPIC_LVTTR_MASK) s;
          s = lapic_write LAPIC_ICR 0xFFFFFFFF s
      in map_option (\<lambda>s.
        let (current_ccr, s) = lapic_read LAPIC_CCR s;
            ticks_in_10ms = 0xFFFFFFFF - current_ccr;
            s = lapic_write LAPIC_ICR 0 s;
            s = s\<lparr>lapic_ticks_per_ms := ticks_in_10ms div 10\<rparr>;
            s = (if lapic_ticks_per_ms s = 0
                 then s\<lparr>lapic_ticks_per_ms := (1000000000 div 16) div 1000\<rparr> else s);
            s = s\<lparr>lapic_ticks_per_us := lapic_ticks_per_ms s div 1000\<rparr>
        in print ''    timer ticks set to: %d/ms, %d/us\<newline>''
             [Num (lapic_ticks_per_ms s), Num (lapic_ticks_per_us s)] s)
        (pit_wait_ms 10 s))"

definition lapic_timer_config :: "'a lapic_scheme \<Rightarrow> 'a lapic_scheme option" where
  "lapic_timer_config s =
     map_option (\<lambda>s.
       let s = lapic_write LAPIC_DCR LAPIC_DCR_DIV16 s;
           s = lapic_write LAPIC_LVTTR
             (LAPIC_LVTTR_VECTOR 32 OR LAPIC_LVTTR_PERIODIC OR LAPIC_LVTTR_MASK) s;
           s = lapic_write LAPIC_ICR (lapic_ticks_per_ms s * 1000) s;
           (v, s) = lapic_read LAPIC_LVTTR s
       in lapic_write LAPIC_LVTTR (v AND NOT LAPIC_LVTTR_MASK) s)
       (lapic_timer_calibrate (print ''LAPIC configure:\<newline>'' [] s))"

section \<open>What the operations do\<close>

lemma lapic_fields [simp, frame_simps]:
  "lapic_base (emit e s) = lapic_base s"
  "lapic_ticks_per_ms (emit e s) = lapic_ticks_per_ms s"
  "lapic_ticks_per_us (emit e s) = lapic_ticks_per_us s"
  "emit e s\<lparr>lapic_base := b\<rparr> = emit e (s\<lparr>lapic_base := b\<rparr>)"
  by (simp_all add: emit_def)

lemma lapic_more:
  assumes "machine.more t = machine.more s"
  shows "lapic_base t = lapic_base s \<and> lapic_ticks_per_ms t = lapic_ticks_per_ms s
    \<and> lapic_ticks_per_us t = lapic_ticks_per_us s \<and> lapic.more t = lapic.more s"
  using assms by (cases s; cases t) simp

lemmas lapic_op_defs = machine_defs lapic_write_def lapic_read_def cpu_msr_read_def cpu_msr_write_def

lemma lapic_eio_emit: "lapic_eio v s = emit (MmioWrite (lapic_base s OR LAPIC_EIO) v) s"
  by (simp add: lapic_eio_def lapic_op_defs)

text \<open>\<open>lapic_init\<close> takes the page address of the APIC base register as the base of the
  registers, masks LINT0, makes LINT1 the NMI line, and sets the enable bit of the base
  register and no other.\<close>

theorem lapic_init_effect:
  fixes s :: "'a lapic_scheme"
  assumes "\<And>es. rdmsr (hw s) es MSR_IA32_APIC_BASE = (edx, eax)"
  defines "b \<equiv> eax AND 0xFFFFF000"
  shows "\<exists>i v. trace (lapic_init s) = trace s @ [Print ''Initializing LAPIC 82489DX !\<newline>'' [],
      RdMsr MSR_IA32_APIC_BASE edx eax, MmioRead (b OR LAPIC_ID) i, MmioRead (b OR LAPIC_VER) v,
      MmioWrite (b OR LAPIC_LVTLINT0) 0x10000, MmioWrite (b OR LAPIC_LVTLINT1) 0x400,
      RdMsr MSR_IA32_APIC_BASE edx eax, WrMsr MSR_IA32_APIC_BASE edx (eax OR 0x800)]
    \<and> lapic_base (lapic_init s) = b \<and> hw (lapic_init s) = hw s
    \<and> lapic_ticks_per_ms (lapic_init s) = lapic_ticks_per_ms s
    \<and> lapic_ticks_per_us (lapic_init s) = lapic_ticks_per_us s
    \<and> lapic.more (lapic_init s) = lapic.more s"
  using assms(1)
  by (simp add: lapic_init_def lapic_get_base_def lapic_enable_def lapic_op_defs lapic_words b_def
      Let_def emit_def)

text \<open>The registers of a machine whose APIC base register holds the usual address.\<close>

definition apic_machine :: "(event list \<Rightarrow> u32 \<Rightarrow> u32) \<Rightarrow> lapic" where
  "apic_machine f = \<lparr>hw = quiet\<lparr>port8 := \<lambda>es p. 0x80, mmio := f, rdmsr := \<lambda>es n. (0, 0xFEE00900)\<rparr>,
     trace = [], lapic_base = 0xFEE00000, lapic_ticks_per_ms = 0, lapic_ticks_per_us = 0\<rparr>"

lemma lapic_init_effect_witness:
  "lapic_base (lapic_init (apic_machine (\<lambda>es a. 0))) = 0xFEE00000"
  using lapic_init_effect [of "apic_machine (\<lambda>es a. 0)" 0 "0xFEE00900"]
  by (simp add: apic_machine_def)

text \<open>\<open>lapic_remap\<close> to a page address replaces the base in the base register and keeps its
  flags: the base the driver reads back from the new value is the address, the low twelve
  bits are as before.\<close>

theorem lapic_remap_roundtrip:
  assumes "rdmsr (hw s) (trace s) MSR_IA32_APIC_BASE = (edx, eax)" and "addr AND 0xFFF = 0"
  shows "\<exists>eax'. trace (lapic_remap addr s) = trace s @ [RdMsr MSR_IA32_APIC_BASE edx eax,
      WrMsr MSR_IA32_APIC_BASE edx eax'] \<and> eax' AND 0xFFFFF000 = addr \<and> eax' AND 0xFFF = eax AND 0xFFF"
proof -
  let ?e = "eax AND 0xFFF OR addr"
  have low: "bit addr n \<Longrightarrow> 12 \<le> n" for n
  proof (rule ccontr)
    assume b: "bit addr n" and "\<not> 12 \<le> n"
    then have "bit (addr AND mask 12) n" by (simp add: bit_and_iff bit_mask_iff)
    with assms(2) show False by (simp add: mask_eq_exp_minus_1)
  qed
  have m: "(0xFFF :: u32) = mask 12" "(0xFFFFF000 :: u32) = NOT (mask 12)"
    by (simp_all add: mask_eq_exp_minus_1)
  have "?e AND NOT (mask 12) = addr"
    unfolding m by (rule bit_word_eqI) (auto simp: bit_simps dest: low)
  moreover have "?e AND mask 12 = eax AND mask 12"
    unfolding m by (rule bit_word_eqI) (auto simp: bit_simps dest: low)
  ultimately have "?e AND 0xFFFFF000 = addr" "?e AND 0xFFF = eax AND 0xFFF" by (simp_all only: m)
  then show ?thesis using assms(1)
    by (intro exI [of _ ?e]) (simp add: lapic_remap_def lapic_op_defs)
qed

lemma lapic_remap_roundtrip_witness:
  "\<exists>eax'. trace (lapic_remap 0xFED00000 (apic_machine (\<lambda>es a. 0))) = [RdMsr MSR_IA32_APIC_BASE 0 0xFEE00900,
      WrMsr MSR_IA32_APIC_BASE 0 eax'] \<and> eax' AND 0xFFFFF000 = 0xFED00000 \<and> eax' AND 0xFFF = 0x900"
  using lapic_remap_roundtrip [of "apic_machine (\<lambda>es a. 0)" 0 "0xFEE00900" "0xFED00000"]
  by (simp add: apic_machine_def)

section \<open>Calibration\<close>

definition calibrated_ms :: "u32 \<Rightarrow> u32" where
  "calibrated_ms ccr = (let m = (0xFFFFFFFF - ccr) div 10 in if m = 0 then 62500 else m)"

lemma calibrated_ms_nonzero: "calibrated_ms ccr \<noteq> 0"
  by (simp add: calibrated_ms_def Let_def)

text \<open>Calibration measures how far the timer, started from all ones, counted down while the
  PIT waited 10 ms. When it returns, the ticks per millisecond are a tenth of that, or 62500
  when that is 0, so never 0; the ticks per microsecond are a thousandth of them.\<close>

theorem lapic_calibrated:
  assumes "lapic_timer_calibrate s = Some t"
  shows "\<exists>ccr wait. trace t = trace s @ [MmioWrite (lapic_base s OR LAPIC_DCR) 3,
        MmioWrite (lapic_base s OR LAPIC_LVTTR) 0x10000,
        MmioWrite (lapic_base s OR LAPIC_ICR) 0xFFFFFFFF]
      @ wait @ [MmioRead (lapic_base s OR LAPIC_CCR) ccr, MmioWrite (lapic_base s OR LAPIC_ICR) 0,
        Print ''    timer ticks set to: %d/ms, %d/us\<newline>''
          [Num (lapic_ticks_per_ms t), Num (lapic_ticks_per_us t)]]
    \<and> lapic_ticks_per_ms t = calibrated_ms ccr \<and> lapic_ticks_per_ms t \<noteq> 0
    \<and> lapic_ticks_per_us t = lapic_ticks_per_ms t div 1000
    \<and> lapic_base t = lapic_base s \<and> hw t = hw s \<and> lapic.more t = lapic.more s"
proof -
  let ?s = "lapic_write LAPIC_ICR 0xFFFFFFFF (lapic_write LAPIC_LVTTR
    (LAPIC_LVTTR_ONESHOT OR LAPIC_LVTTR_MASK) (lapic_write LAPIC_DCR LAPIC_DCR_DIV16 s))"
  obtain u where u: "pit_wait_ms 10 ?s = Some u"
    using assms by (auto simp: lapic_timer_calibrate_def Let_def)
  with pit_wait_ms_trace obtain wait where w: "trace u = trace ?s @ wait" "hw u = hw ?s"
    "machine.more u = machine.more ?s" by blast
  note m = lapic_more [OF w(3)]
  let ?ccr = "mmio (hw u) (trace u) (lapic_base u OR LAPIC_CCR)"
  have t: "t = (let s = emit (MmioWrite (lapic_base u OR LAPIC_ICR) 0)
        (emit (MmioRead (lapic_base u OR LAPIC_CCR) ?ccr) u);
      s = s\<lparr>lapic_ticks_per_ms := calibrated_ms ?ccr,
        lapic_ticks_per_us := calibrated_ms ?ccr div 1000\<rparr>
    in emit (Print ''    timer ticks set to: %d/ms, %d/us\<newline>''
             [Num (lapic_ticks_per_ms s), Num (lapic_ticks_per_us s)]) s)"
    using assms u
    by (auto simp: lapic_timer_calibrate_def lapic_op_defs Let_def calibrated_ms_def emit_def)
  show ?thesis
    by (intro exI [of _ ?ccr] exI [of _ wait])
       (use w(1,2) m in \<open>simp add: t Let_def calibrated_ms_nonzero emit_def lapic_op_defs lapic_words\<close>)
qed

lemma apic_machine_pit:
  assumes "hw s = hw (apic_machine f)"
  shows "\<exists>t. pit_wait_ms 10 s = Some t"
proof -
  have "pit_done (pit.reading 0 (pit_load 10 s))"
    using assms by (simp add: pit.reading_def pit_probe_def pit_done_def apic_machine_def)
  then have "pit_loop (pit_load 10 s) \<noteq> None" using pit.loop_None by blast
  then show ?thesis by (simp add: pit_wait_ms_def)
qed

lemma apic_machine_calibrate:
  assumes "hw s = hw (apic_machine f)"
  shows "\<exists>t. lapic_timer_calibrate s = Some t"
proof -
  obtain t where "pit_wait_ms 10 (lapic_write LAPIC_ICR 0xFFFFFFFF (lapic_write LAPIC_LVTTR
      (LAPIC_LVTTR_ONESHOT OR LAPIC_LVTTR_MASK) (lapic_write LAPIC_DCR LAPIC_DCR_DIV16 s))) = Some t"
    using apic_machine_pit [where f = f] assms by (metis lapic_write_def machine_hw(5))
  then show ?thesis by (simp add: lapic_timer_calibrate_def Let_def)
qed

lemma lapic_calibrated_witness:
  "\<exists>t. lapic_timer_calibrate (apic_machine (\<lambda>es a. 0xFFFFFFFF - 625000)) = Some t
     \<and> lapic_ticks_per_ms t \<noteq> 0"
proof -
  obtain t where t: "lapic_timer_calibrate (apic_machine (\<lambda>es a. 0xFFFFFFFF - 625000)) = Some t"
    using apic_machine_calibrate [OF refl] by blast
  from lapic_calibrated [OF this] t show ?thesis by blast
qed

text \<open>C28. \<open>lapic_timer_config\<close> ends by programming a periodic timer on vector 32 and unmasking
  it, provided the chip returns from the timer register what was written there: the divider
  is 16, and the initial count 1000 times the calibrated ticks per millisecond, modulo
  \<open>2 ^ 32\<close> (a period of a second, not of a millisecond).\<close>

theorem lapic_timer_configured:
  assumes "lapic_timer_config s = Some t"
    and "\<And>es a. mmio (hw s) (es @ [MmioWrite (lapic_base s OR LAPIC_LVTTR) a,
        MmioWrite (lapic_base s OR LAPIC_ICR) (lapic_ticks_per_ms t * 1000)])
        (lapic_base s OR LAPIC_LVTTR) = a"
  shows "\<exists>es. trace t = trace s @ es @ [MmioWrite (lapic_base s OR LAPIC_DCR) 3,
      MmioWrite (lapic_base s OR LAPIC_LVTTR) 0x30020,
      MmioWrite (lapic_base s OR LAPIC_ICR) (lapic_ticks_per_ms t * 1000),
      MmioRead (lapic_base s OR LAPIC_LVTTR) 0x30020,
      MmioWrite (lapic_base s OR LAPIC_LVTTR) 0x20020]
    \<and> lapic_ticks_per_ms t \<noteq> 0 \<and> lapic_base t = lapic_base s \<and> hw t = hw s"
proof -
  let ?s = "print ''LAPIC configure:\<newline>'' [] s"
  obtain u where u: "lapic_timer_calibrate ?s = Some u"
    using assms(1) by (auto simp: lapic_timer_config_def)
  from lapic_calibrated [OF u] obtain es where es: "trace u = trace s @ es"
    "lapic_ticks_per_ms u \<noteq> 0" "lapic_base u = lapic_base s" "hw u = hw s"
    by (auto simp: print_def)
  have t: "t = (let a = lapic_base u OR LAPIC_LVTTR;
      s = emit (MmioWrite (lapic_base u OR LAPIC_ICR) (lapic_ticks_per_ms u * 1000))
        (emit (MmioWrite a 0x30020) (emit (MmioWrite (lapic_base u OR LAPIC_DCR) 3) u));
      v = mmio (hw u) (trace s) a
    in emit (MmioWrite a (v AND NOT LAPIC_LVTTR_MASK)) (emit (MmioRead a v) s))"
    using assms(1) u
    by (auto simp: lapic_timer_config_def lapic_op_defs lapic_words Let_def)
  have ticks: "lapic_ticks_per_ms t = lapic_ticks_per_ms u" by (simp add: t Let_def)
  have "mmio (hw u) (trace s @ es @ [MmioWrite (lapic_base s OR LAPIC_DCR) 3,
      MmioWrite (lapic_base s OR LAPIC_LVTTR) 0x30020,
      MmioWrite (lapic_base s OR LAPIC_ICR) (lapic_ticks_per_ms u * 1000)])
        (lapic_base s OR LAPIC_LVTTR) = 0x30020"
    using assms(2) [of "trace s @ es @ [MmioWrite (lapic_base s OR LAPIC_DCR) 3]" "0x30020"] es(4) ticks
    by simp
  then show ?thesis
    by (intro exI [of _ es]) (simp add: t Let_def es lapic_words)
qed

text \<open>Registers that return what was written to them last.\<close>

definition register_file :: "event list \<Rightarrow> u32 \<Rightarrow> u32" where
  "register_file es a =
     fold (\<lambda>e v. case e of MmioWrite b w \<Rightarrow> if b = a then w else v | _ \<Rightarrow> v) es 0"

lemma lapic_timer_configured_witness:
  "\<exists>t es. lapic_timer_config (apic_machine register_file) = Some t \<and>
     trace t = es @ [MmioWrite 0xFEE003E0 3, MmioWrite 0xFEE00320 0x30020,
       MmioWrite 0xFEE00380 (lapic_ticks_per_ms t * 1000),
       MmioRead 0xFEE00320 0x30020, MmioWrite 0xFEE00320 0x20020]"
proof -
  let ?s = "apic_machine register_file"
  have "\<exists>u. lapic_timer_calibrate (print ''LAPIC configure:\<newline>'' [] ?s) = Some u"
    by (rule apic_machine_calibrate [where f = register_file]) simp
  then obtain t where t: "lapic_timer_config ?s = Some t"
    by (auto simp: lapic_timer_config_def)
  have base: "lapic_base ?s = 0xFEE00000" "trace ?s = []"
    by (simp_all add: apic_machine_def)
  have "mmio (hw ?s) (es @ [MmioWrite (lapic_base ?s OR LAPIC_LVTTR) a,
        MmioWrite (lapic_base ?s OR LAPIC_ICR) (lapic_ticks_per_ms t * 1000)])
        (lapic_base ?s OR LAPIC_LVTTR) = a" for es a
    by (simp add: apic_machine_def register_file_def)
  from lapic_timer_configured [OF t this] t show ?thesis by (auto simp: base)
qed

end
