(* ===== verification/Layout.thy ===== *)
theory Layout
  imports Prelude
begin

text \<open>
  The layout of the packed structures of the headers: a list of fields with their widths in
  bits, lowest address and lowest bit first, which is how gcc lays out packed bit-fields for
  the i386. Fields are read and written in a word by name; the laws (read after write, of
  the same and of another field) are proved once for all of them.
\<close>

unbundle bit_operations_syntax

type_synonym layout = "(string \<times> nat) list"

section \<open>Offsets and sizes\<close>

fun bit_offset :: "string \<Rightarrow> layout \<Rightarrow> nat" where
  "bit_offset f [] = 0"
| "bit_offset f ((g, n) # l) = (if f = g then 0 else n + bit_offset f l)"

fun bit_width :: "string \<Rightarrow> layout \<Rightarrow> nat" where
  "bit_width f [] = 0"
| "bit_width f ((g, n) # l) = (if f = g then n else bit_width f l)"

definition bit_size :: "layout \<Rightarrow> nat" where
  "bit_size l = sum_list (map snd l)"

definition sizeof :: "layout \<Rightarrow> nat" where
  "sizeof l = bit_size l div 8"

definition offsetof :: "layout \<Rightarrow> string \<Rightarrow> nat" where
  "offsetof l f = bit_offset f l div 8"

definition well_formed :: "layout \<Rightarrow> bool" where
  "well_formed l \<longleftrightarrow> distinct (map fst l) \<and> bit_size l mod 8 = 0"

lemma bit_size_Nil [simp]: "bit_size [] = 0"
  and bit_size_Cons [simp]: "bit_size ((f, n) # l) = n + bit_size l"
  by (simp_all add: bit_size_def)

lemma field_in_size: "f \<in> set (map fst l) \<Longrightarrow> bit_offset f l + bit_width f l \<le> bit_size l"
  by (induction l) force+

text \<open>The bit ranges of two fields of a layout are disjoint.\<close>

lemma fields_disjoint:
  assumes "f \<noteq> g" "f \<in> set (map fst l)" "g \<in> set (map fst l)"
  shows "bit_offset f l + bit_width f l \<le> bit_offset g l
       \<or> bit_offset g l + bit_width g l \<le> bit_offset f l"
  using assms
proof (induction l)
  case (Cons e l)
  obtain h n where e: "e = (h, n)" by (cases e)
  from Cons show ?case
    by (cases "f = h"; cases "g = h") (auto simp: e)
qed simp

section \<open>Fields of a word\<close>

definition get_bits :: "nat \<Rightarrow> nat \<Rightarrow> 'a::len word \<Rightarrow> 'a word" where
  "get_bits i n w = drop_bit i w AND mask n"

definition set_bits :: "nat \<Rightarrow> nat \<Rightarrow> 'a::len word \<Rightarrow> 'a word \<Rightarrow> 'a word" where
  "set_bits i n v w = w AND NOT (push_bit i (mask n)) OR push_bit i (v AND mask n)"

definition get_field :: "layout \<Rightarrow> string \<Rightarrow> 'a::len word \<Rightarrow> 'a word" where
  "get_field l f w = get_bits (bit_offset f l) (bit_width f l) w"

definition set_field :: "layout \<Rightarrow> string \<Rightarrow> 'a::len word \<Rightarrow> 'a word \<Rightarrow> 'a word" where
  "set_field l f v w = set_bits (bit_offset f l) (bit_width f l) v w"

lemma get_set_bits:
  fixes v w :: "'a::len word"
  assumes "i + n \<le> LENGTH('a)"
  shows "get_bits i n (set_bits i n v w) = v AND mask n"
  using assms by (intro bit_word_eqI) (auto simp: get_bits_def set_bits_def bit_simps)

lemma get_set_bits_other:
  assumes "i + n \<le> j \<or> j + k \<le> i"
  shows "get_bits j k (set_bits i n v w) = get_bits j k w"
  using assms
  by (intro bit_word_eqI)
     (auto simp: get_bits_def set_bits_def bit_simps dest: bit_imp_le_length)

lemma get_set_field:
  fixes v w :: "'a::len word"
  assumes "f \<in> set (map fst l)" "bit_size l \<le> LENGTH('a)"
  shows "get_field l f (set_field l f v w) = v AND mask (bit_width f l)"
  unfolding get_field_def set_field_def using field_in_size [OF assms(1)] assms(2)
  by (intro get_set_bits) simp

lemma get_set_field_other:
  assumes "f \<noteq> g" "f \<in> set (map fst l)" "g \<in> set (map fst l)"
  shows "get_field l g (set_field l f v w) = get_field l g w"
  unfolding get_field_def set_field_def
  by (rule get_set_bits_other) (rule fields_disjoint [OF assms])

text \<open>A field of one bit is a flag.\<close>

lemma set_bits_flag:
  "set_bits i (Suc 0) 1 w = set_bit i w" "set_bits i (Suc 0) 0 w = unset_bit i w"
  by (rule bit_word_eqI; auto simp: set_bits_def bit_simps)+

lemma set_flag:
  assumes "bit_width f l = 1"
  shows "set_field l f 1 w = set_bit (bit_offset f l) w"
    "set_field l f 0 w = unset_bit (bit_offset f l) w"
  using assms by (simp_all add: set_field_def set_bits_flag)

text \<open>Two words agree when they agree on all fields of a layout that covers them.\<close>

lemma get_field_bit:
  fixes w :: "'a::len word"
  shows "bit (get_field l f w) i \<longleftrightarrow>
    i < bit_width f l \<and> i < LENGTH('a) \<and> bit w (bit_offset f l + i)"
  by (auto simp: get_field_def get_bits_def bit_simps)

lemma covering_field:
  assumes "distinct (map fst l)" "k < bit_size l"
  shows "\<exists>f \<in> set (map fst l). bit_offset f l \<le> k \<and> k < bit_offset f l + bit_width f l"
  using assms
proof (induction l arbitrary: k)
  case (Cons e l)
  obtain h n where e: "e = (h, n)" by (cases e)
  show ?case
  proof (cases "k < n")
    case True
    then show ?thesis by (simp add: e)
  next
    case False
    with Cons.prems have "distinct (map fst l)" "k - n < bit_size l" by (auto simp: e)
    from Cons.IH [OF this] obtain f where f: "f \<in> set (map fst l)" "bit_offset f l \<le> k - n"
      "k - n < bit_offset f l + bit_width f l" by blast
    with Cons.prems(1) have "f \<noteq> h" by (auto simp: e)
    then show ?thesis using f False by (intro bexI [of _ f]) (auto simp: e)
  qed
qed simp

lemma fields_eqI:
  fixes v w :: "'a::len word"
  assumes "distinct (map fst l)" "bit_size l = LENGTH('a)"
    and "\<And>f. f \<in> set (map fst l) \<Longrightarrow> get_field l f v = get_field l f w"
  shows "v = w"
proof (rule bit_word_eqI)
  fix k assume k: "k < LENGTH('a)"
  then obtain f where f: "f \<in> set (map fst l)" "bit_offset f l \<le> k"
    "k < bit_offset f l + bit_width f l"
    using covering_field [OF assms(1), of k] assms(2) by auto
  let ?j = "k - bit_offset f l"
  have j: "?j < bit_width f l" "?j < LENGTH('a)" "bit_offset f l + ?j = k" using f k by simp_all
  have "bit (get_field l f v) ?j = bit (get_field l f w) ?j" using assms(3) [OF f(1)] by simp
  then show "bit v k = bit w k" unfolding get_field_bit using j by simp
qed

text \<open>The value of a field in a numeral, computed.\<close>

lemma get_field_eval:
  "get_field l f w = drop_bit (bit_offset f l) w AND mask (bit_width f l)"
  by (simp add: get_field_def get_bits_def)

lemmas layout_eval = get_field_eval set_field_def set_bits_def mask_eq_exp_minus_1

end
