(* ===== verification/Ioapic82093AA.thy ===== *)
theory Ioapic82093AA
  imports Machine Layout
begin

text \<open>
  The I/O APIC (ksrc/drivers/82093AA.h, 82093AA.c). Its registers are reached through a
  select and a window register. \<open>ioapic_after\<close> is the chip's side of a trace: which register
  is selected, and what the registers hold.

  The contract for such a bank of registers is the locale \<open>register_bank\<close>; what a
  read-modify-write does to the bank is proved from it once, for masking and unmasking.
\<close>

unbundle bit_operations_syntax

section \<open>Registers\<close>

abbreviation ioapic_base :: u32 where "ioapic_base \<equiv> 0xFEC00000"

abbreviation (input) IOAPIC_IOAPICID :: u32 where "IOAPIC_IOAPICID \<equiv> 0x00"
abbreviation (input) IOAPIC_IOAPICVER :: u32 where "IOAPIC_IOAPICVER \<equiv> 0x01"

definition IOAPIC_IOREDTBL_L :: "nat \<Rightarrow> u32" where
  "IOAPIC_IOREDTBL_L index = 0x10 + of_nat index * 2"

definition IOAPIC_IOREDTBL_H :: "nat \<Rightarrow> u32" where
  "IOAPIC_IOREDTBL_H index = 0x10 + of_nat index * 2 + 1"

definition ioapic_regsel_t :: layout where
  "ioapic_regsel_t = [(''sel'', 8), (''_res0'', 24)]"

definition ioapic_win_t :: layout where
  "ioapic_win_t = [(''data'', 32)]"

definition ioapic_id_t :: layout where
  "ioapic_id_t = [(''_res0'', 24), (''id'', 4), (''_res1'', 4)]"

definition ioapic_ver_t :: layout where
  "ioapic_ver_t = [(''ver'', 8), (''_res0'', 8), (''mre'', 8), (''_res1'', 8)]"

definition ioapic_arb_t :: layout where
  "ioapic_arb_t = [(''_res0'', 24), (''id'', 4), (''_res1'', 4)]"

definition ioapic_redtbl_L_t :: layout where
  "ioapic_redtbl_L_t = [(''intvec'', 8), (''delmod'', 3), (''destmod'', 1), (''delivs'', 1),
     (''intpol'', 1), (''riir'', 1), (''tm'', 1), (''mask'', 1), (''_res0'', 15)]"

definition ioapic_redtbl_H_t :: layout where
  "ioapic_redtbl_H_t = [(''_res0'', 24), (''des'', 8)]"

text \<open>The two macros: the window lies four words above the select register.\<close>

definition ioapic_read :: "u32 \<Rightarrow> u32 \<Rightarrow> 'a machine_scheme \<Rightarrow> u32 \<times> 'a machine_scheme" where
  "ioapic_read base reg s =
     (let s = mmio_write base reg s in mmio_read (base + 4 * 4) s)"

definition ioapic_write :: "u32 \<Rightarrow> u32 \<Rightarrow> u32 \<Rightarrow> 'a machine_scheme \<Rightarrow> 'a machine_scheme" where
  "ioapic_write base reg v s =
     (let s = mmio_write base reg s in mmio_write (base + 4 * 4) v s)"

section \<open>Initialisation\<close>

definition ioapic_entry_L :: "nat \<Rightarrow> u32" where
  "ioapic_entry_L idx =
     (let tbll = 0;
          tbll = set_field ioapic_redtbl_L_t ''intvec'' (of_nat (idx + 32)) tbll
      in if get_field ioapic_redtbl_L_t ''intvec'' tbll = 34
         then set_field ioapic_redtbl_L_t ''mask'' 1 tbll else tbll)"

definition ioapic_entry_H :: u32 where
  "ioapic_entry_H = (let tblh = 0 in set_field ioapic_redtbl_H_t ''des'' 0 tblh)"

function ioapic_loop :: "nat \<Rightarrow> nat \<Rightarrow> 'a machine_scheme \<Rightarrow> 'a machine_scheme" where
  "ioapic_loop idx mre s =
     (if idx < mre then
        let s = ioapic_write ioapic_base (IOAPIC_IOREDTBL_L idx) (ioapic_entry_L idx) s;
            s = ioapic_write ioapic_base (IOAPIC_IOREDTBL_H idx) ioapic_entry_H s
        in ioapic_loop (idx + 1) mre s
      else s)"
  by pat_completeness auto
termination
  by (relation "measure (\<lambda>(idx, mre, s). mre - idx)") auto

declare ioapic_loop.simps [simp del]

definition ioapic_init :: "'a machine_scheme \<Rightarrow> 'a machine_scheme" where
  "ioapic_init s =
     (let s = print ''Initializing IOAPIC 82093AA !\<newline>'' [] s;
          (ioid, s) = ioapic_read ioapic_base IOAPIC_IOAPICID s;
          (iov, s) = ioapic_read ioapic_base IOAPIC_IOAPICVER s
      in ioapic_loop 0 (unat (get_field ioapic_ver_t ''mre'' iov)) s)"

section \<open>The chip's side\<close>

definition ioapic_event :: "event \<Rightarrow> u8 \<times> (u8 \<Rightarrow> u32) \<Rightarrow> u8 \<times> (u8 \<Rightarrow> u32)" where
  "ioapic_event e c = (case e of
     MmioWrite a v \<Rightarrow>
       if a = ioapic_base then (ucast v, snd c)
       else if a = ioapic_base + 16 then (fst c, (snd c)(fst c := v)) else c
   | _ \<Rightarrow> c)"

definition ioapic_after :: "(u8 \<Rightarrow> u32) \<Rightarrow> event list \<Rightarrow> u8 \<times> (u8 \<Rightarrow> u32)" where
  "ioapic_after r es = fold ioapic_event es (0, r)"

definition ioapic_regs :: "(u8 \<Rightarrow> u32) \<Rightarrow> 'a machine_scheme \<Rightarrow> u8 \<Rightarrow> u32" where
  "ioapic_regs r s = snd (ioapic_after r (trace s))"

text \<open>The window reads the selected register.\<close>

definition ioapic_answers :: "(u8 \<Rightarrow> u32) \<Rightarrow> 'a machine_scheme \<Rightarrow> bool" where
  "ioapic_answers r s \<longleftrightarrow> (\<forall>es. mmio (hw s) es (ioapic_base + 16)
     = snd (ioapic_after r es) (fst (ioapic_after r es)))"

lemma ioapic_after_snoc:
  "ioapic_after r (es @ [e]) = ioapic_event e (ioapic_after r es)"
  "ioapic_after r (es @ [e, e']) = ioapic_event e' (ioapic_event e (ioapic_after r es))"
  "ioapic_after r (es @ [e, e', e''])
     = ioapic_event e'' (ioapic_event e' (ioapic_event e (ioapic_after r es)))"
  by (simp_all add: ioapic_after_def)

lemma ioapic_event_other:
  "(\<forall>a v. e \<noteq> MmioWrite a v) \<Longrightarrow> ioapic_event e c = c"
  "a \<noteq> ioapic_base \<Longrightarrow> a \<noteq> ioapic_base + 16 \<Longrightarrow> ioapic_event (MmioWrite a v) c = c"
  by (auto simp: ioapic_event_def split: event.splits)

section \<open>A bank of registers\<close>

locale register_bank =
  fixes ok :: "'s \<Rightarrow> bool" and bank :: "'s \<Rightarrow> 'r \<Rightarrow> 'v"
    and rd :: "'r \<Rightarrow> 's \<Rightarrow> 'v \<times> 's" and wr :: "'r \<Rightarrow> 'v \<Rightarrow> 's \<Rightarrow> 's"
  assumes rd_value: "ok s \<Longrightarrow> fst (rd r s) = bank s r"
    and rd_bank: "bank (snd (rd r s)) = bank s"
    and wr_bank: "bank (wr r v s) = (bank s)(r := v)"
    and rd_ok: "ok (snd (rd r s)) = ok s"
    and wr_ok: "ok (wr r v s) = ok s"
begin

definition modify :: "('v \<Rightarrow> 'v) \<Rightarrow> 'r \<Rightarrow> 's \<Rightarrow> 's" where
  "modify f r s = (let (v, s) = rd r s in wr r (f v) s)"

lemma modify_bank: "ok s \<Longrightarrow> bank (modify f r s) = (bank s)(r := f (bank s r))"
  by (simp add: modify_def split_beta wr_bank rd_bank rd_value)

lemma modify_ok: "ok (modify f r s) = ok s"
  by (simp add: modify_def split_beta wr_ok rd_ok)

lemma modify_modify:
  "ok s \<Longrightarrow> bank (modify g r (modify f r s)) = (bank s)(r := g (f (bank s r)))"
  by (simp add: modify_bank modify_ok)

lemma modify_undo: "ok s \<Longrightarrow> g (f (bank s r)) = bank s r \<Longrightarrow> bank (modify g r (modify f r s)) = bank s"
  by (simp add: modify_modify)

end

interpretation ioapic: register_bank "ioapic_answers r" "ioapic_regs r"
  "\<lambda>i. ioapic_read ioapic_base (ucast i)" "\<lambda>i. ioapic_write ioapic_base (ucast i)" for r
proof unfold_locales
  fix s :: "'a machine_scheme" and i :: u8 and v :: u32
  note sel = ucast_up_down8 [of i]
  show "fst (ioapic_read ioapic_base (ucast i) s) = ioapic_regs r s i" if "ioapic_answers r s"
    using that sel
    by (simp add: ioapic_read_def ioapic_answers_def ioapic_regs_def ioapic_after_snoc
        ioapic_event_def Let_def)
  show "ioapic_regs r (snd (ioapic_read ioapic_base (ucast i) s)) = ioapic_regs r s"
    by (simp add: ioapic_read_def ioapic_regs_def ioapic_after_snoc ioapic_event_def Let_def)
  show "ioapic_regs r (ioapic_write ioapic_base (ucast i) v s) = (ioapic_regs r s)(i := v)"
    using sel by (simp add: ioapic_write_def ioapic_regs_def ioapic_after_snoc ioapic_event_def Let_def)
qed (simp_all add: ioapic_answers_def ioapic_read_def ioapic_write_def Let_def)

section \<open>The redirection table\<close>

definition index_L :: "nat \<Rightarrow> u8" where "index_L k = 0x10 + of_nat k * 2"
definition index_H :: "nat \<Rightarrow> u8" where "index_H k = 0x10 + of_nat k * 2 + 1"

lemma unat_index:
  assumes "k < 120"
  shows "unat (index_L k) = 16 + 2 * k" "unat (index_H k) = 17 + 2 * k"
  using assms by (simp_all add: index_L_def index_H_def unat_word_ariths unat_of_nat)

lemma index_inj:
  assumes "k < 120" "j < 120"
  shows "index_L k = index_L j \<longleftrightarrow> k = j" "index_H k = index_H j \<longleftrightarrow> k = j"
    "index_L k \<noteq> index_H j" "index_H j \<noteq> index_L k"
  unfolding word_unat_eq_iff unat_index [OF assms(1)] unat_index [OF assms(2)] by presburger+

lemma ioredtbl_index:
  assumes "k < 120"
  shows "IOAPIC_IOREDTBL_L k = ucast (index_L k)" "IOAPIC_IOREDTBL_H k = ucast (index_H k)"
  using unat_index [OF assms] assms
  by (simp_all add: word_unat_eq_iff unsigned_ucast_eq IOAPIC_IOREDTBL_L_def IOAPIC_IOREDTBL_H_def
      unat_word_ariths unat_of_nat take_bit_eq_mod)

lemma ioapic_entry_H_0: "ioapic_entry_H = 0"
  by (simp add: ioapic_entry_H_def ioapic_redtbl_H_t_def layout_eval)

lemma ioapic_entry_L_eq:
  assumes "k < 224"
  shows "ioapic_entry_L k = (if k = 2 then 0x10022 else of_nat (k + 32))"
proof -
  have v: "of_nat (k + 32) AND (0xFF :: u32) = of_nat (k + 32)"
    using assms by (simp add: and_low_mod word_unat_eq_iff unat_mod unat_of_nat del: of_nat_add)
  have two: "(of_nat (k + 32) :: u32) = 34 \<longleftrightarrow> k = 2"
    using assms by (simp add: word_unat_eq_iff unat_of_nat del: of_nat_add)
  show ?thesis
    using v two by (auto simp: ioapic_entry_L_def ioapic_redtbl_L_t_def layout_eval Let_def)
qed

lemma ioapic_loop_frame [simp]:
  "ioapic_answers r (ioapic_loop i m s) = ioapic_answers r s"
  "machine.more (ioapic_loop i m s) = machine.more s" "hw (ioapic_loop i m s) = hw s"
proof -
  have "hw (ioapic_loop i m s) = hw s \<and> machine.more (ioapic_loop i m s) = machine.more s"
  proof (induction i m s rule: ioapic_loop.induct)
    case (1 i m s)
    then show ?case by (subst (1 2) ioapic_loop.simps) (simp add: ioapic_write_def Let_def)
  qed
  then show "ioapic_answers r (ioapic_loop i m s) = ioapic_answers r s"
    "machine.more (ioapic_loop i m s) = machine.more s" "hw (ioapic_loop i m s) = hw s"
    by (simp_all add: ioapic_answers_def)
qed

lemma ioapic_loop_regs:
  "m \<le> 120 \<Longrightarrow>
   (\<forall>k. i \<le> k \<and> k < m \<longrightarrow> ioapic_regs r (ioapic_loop i m s) (index_L k) = ioapic_entry_L k
      \<and> ioapic_regs r (ioapic_loop i m s) (index_H k) = 0)
   \<and> (\<forall>x. (\<forall>k. i \<le> k \<and> k < m \<longrightarrow> x \<noteq> index_L k \<and> x \<noteq> index_H k) \<longrightarrow>
      ioapic_regs r (ioapic_loop i m s) x = ioapic_regs r s x)"
proof (induction i m s rule: ioapic_loop.induct)
  case (1 i m s)
  show ?case
  proof (cases "i < m")
    case True
    let ?s = "ioapic_write ioapic_base (IOAPIC_IOREDTBL_H i) ioapic_entry_H
      (ioapic_write ioapic_base (IOAPIC_IOREDTBL_L i) (ioapic_entry_L i) s)"
    have regs: "ioapic_regs r ?s = (ioapic_regs r s)(index_L i := ioapic_entry_L i, index_H i := 0)"
      using True 1(2) by (simp add: ioredtbl_index ioapic.wr_bank ioapic_entry_H_0)
    have loop: "ioapic_loop i m s = ioapic_loop (i + 1) m ?s"
      using True by (subst ioapic_loop.simps) (simp add: Let_def)
    from 1(1) [OF True refl refl 1(2)]
    have IH: "\<forall>k. i + 1 \<le> k \<and> k < m \<longrightarrow> ioapic_regs r (ioapic_loop i m s) (index_L k) = ioapic_entry_L k
        \<and> ioapic_regs r (ioapic_loop i m s) (index_H k) = 0"
      "\<forall>x. (\<forall>k. i + 1 \<le> k \<and> k < m \<longrightarrow> x \<noteq> index_L k \<and> x \<noteq> index_H k) \<longrightarrow>
        ioapic_regs r (ioapic_loop i m s) x = ioapic_regs r ?s x"
      unfolding loop by blast+
    have here: "ioapic_regs r (ioapic_loop i m s) (index_L i) = ioapic_entry_L i"
      "ioapic_regs r (ioapic_loop i m s) (index_H i) = 0"
      using IH(2) True 1(2) by (simp_all add: regs index_inj)
    show ?thesis
    proof (intro conjI allI impI)
      fix k assume "i \<le> k \<and> k < m"
      then show "ioapic_regs r (ioapic_loop i m s) (index_L k) = ioapic_entry_L k"
        "ioapic_regs r (ioapic_loop i m s) (index_H k) = 0"
        using IH(1) here by (cases "k = i"; simp)+
    next
      fix x assume x: "\<forall>k. i \<le> k \<and> k < m \<longrightarrow> x \<noteq> index_L k \<and> x \<noteq> index_H k"
      with True have "x \<noteq> index_L i" "x \<noteq> index_H i" by auto
      with x IH(2) show "ioapic_regs r (ioapic_loop i m s) x = ioapic_regs r s x"
        by (simp add: regs)
    qed
  next
    case False
    then show ?thesis by (auto simp: ioapic_loop.simps [of i m s])
  qed
qed

lemma init_table:
  assumes "ioapic_answers r s"
    and "unat (get_field ioapic_ver_t ''mre'' (ioapic_regs r s 1)) = m" and "m < 120"
  shows "(\<forall>k < m. ioapic_regs r (ioapic_init s) (index_L k)
        = (if k = 2 then 0x10022 else of_nat (k + 32))
      \<and> ioapic_regs r (ioapic_init s) (index_H k) = 0)
    \<and> (\<forall>x. (\<forall>k < m. x \<noteq> index_L k \<and> x \<noteq> index_H k) \<longrightarrow>
        ioapic_regs r (ioapic_init s) x = ioapic_regs r s x)
    \<and> ioapic_regs r (ioapic_init s) (index_L m) = ioapic_regs r s (index_L m)"
proof -
  let ?s0 = "print ''Initializing IOAPIC 82093AA !\<newline>'' [] s"
  let ?s1 = "snd (ioapic_read ioapic_base (ucast (0 :: u8)) ?s0)"
  let ?s2 = "snd (ioapic_read ioapic_base (ucast (1 :: u8)) ?s1)"
  have "ioapic_regs r ?s0 = ioapic_regs r s"
    by (simp add: ioapic_regs_def ioapic_after_snoc ioapic_event_other)
  then have regs: "ioapic_regs r ?s2 = ioapic_regs r s" "ioapic_regs r ?s1 = ioapic_regs r s"
    by (simp_all only: ioapic.rd_bank)
  have "ioapic_answers r ?s1"
    using assms(1) by (simp only: ioapic.rd_ok) (simp add: ioapic_answers_def)
  then have ver: "fst (ioapic_read ioapic_base (ucast (1 :: u8)) ?s1) = ioapic_regs r s 1"
    by (simp only: ioapic.rd_value regs)
  have "ioapic_init s = ioapic_loop 0 m ?s2"
    using ver assms(2) by (simp add: ioapic_init_def split_beta Let_def)
  moreover have "m \<le> 120" using assms(3) by simp
  note ioapic_loop_regs [OF this, of 0 r ?s2, unfolded regs(1)]
  ultimately show ?thesis using assms(3)
    by (auto simp: regs ioapic_entry_L_eq index_inj)
qed

text \<open>C12. On an I/O APIC whose version register reports \<open>m\<close> as its last entry, initialisation
  programs each entry below \<open>m\<close>: vector \<open>k + 32\<close>, delivered to processor 0, unmasked except entry
  2 (the cascade). Every other register keeps its value, the last entry \<open>m\<close> among them.\<close>

theorem ioapic_init_table:
  assumes "ioapic_answers r s"
    and "unat (get_field ioapic_ver_t ''mre'' (ioapic_regs r s 1)) = m" and "m < 120"
  shows "(\<forall>k < m. ioapic_regs r (ioapic_init s) (index_L k)
        = (if k = 2 then 0x10022 else of_nat (k + 32))
      \<and> ioapic_regs r (ioapic_init s) (index_H k) = 0)
    \<and> (\<forall>x. (\<forall>k < m. x \<noteq> index_L k \<and> x \<noteq> index_H k) \<longrightarrow>
        ioapic_regs r (ioapic_init s) x = ioapic_regs r s x)
    \<and> ioapic_regs r (ioapic_init s) (index_L m) = ioapic_regs r s (index_L m)"
  using assms by (rule init_table)

text \<open>The usual chip with 24 lines: its version register holds 23.\<close>

definition lines24 :: "u8 \<Rightarrow> u32" where
  "lines24 x = (if x = 1 then 0x00170011 else 0x10000)"

definition ioapic_machine :: machine where
  "ioapic_machine = \<lparr>hw = quiet\<lparr>mmio := \<lambda>es a.
     snd (ioapic_after lines24 es) (fst (ioapic_after lines24 es))\<rparr>, trace = []\<rparr>"

lemma ioapic_machine_ok:
  "ioapic_answers lines24 ioapic_machine" "ioapic_regs lines24 ioapic_machine x = lines24 x"
  by (simp_all add: ioapic_answers_def ioapic_regs_def ioapic_machine_def ioapic_after_def)

lemma ioapic_init_table_witness:
  "ioapic_regs lines24 (ioapic_init ioapic_machine) (index_L 1) = 33
   \<and> ioapic_regs lines24 (ioapic_init ioapic_machine) (index_L 23) = 0x10000"
proof -
  note ok = ioapic_machine_ok(1) and r = ioapic_machine_ok(2)
  have ver: "unat (get_field ioapic_ver_t ''mre'' (ioapic_regs lines24 ioapic_machine 1)) = 23"
    by (simp add: r lines24_def ioapic_ver_t_def layout_eval)
  from ioapic_init_table [OF ok ver] show ?thesis
    by (simp add: r) (simp add: lines24_def index_L_def)
qed

end
