(* ===== verification/Pic8259A.thy ===== *)
theory Pic8259A
  imports Machine
begin

text \<open>
  The 8259A driver (ksrc/drivers/8259A.h, 8259A.c): the two legacy interrupt controllers
  are remapped to the vectors 32 to 47, masked, and acknowledged.

  The contract is stated against the chip's programming sequence: \<open>command_write\<close> and
  \<open>data_write\<close> are the reading the datasheet gives of a byte at the command and at the
  data port (initialisation words, then mask writes), and \<open>chip_after\<close> replays a trace.
\<close>

unbundle bit_operations_syntax

section \<open>The driver\<close>

abbreviation PIC_MC :: u16 where "PIC_MC \<equiv> 0x20"
abbreviation PIC_MD :: u16 where "PIC_MD \<equiv> 0x21"
abbreviation PIC_SC :: u16 where "PIC_SC \<equiv> 0xA0"
abbreviation PIC_SD :: u16 where "PIC_SD \<equiv> 0xA1"

definition PIC_ICW1_IC4 :: u8 where "PIC_ICW1_IC4 = push_bit 0 1 OR push_bit 4 1"
definition PIC_ICW2_VEC :: "u8 \<Rightarrow> u8" where "PIC_ICW2_VEC index = index"
definition PIC_ICW3_MASTER :: "nat \<Rightarrow> u8" where "PIC_ICW3_MASTER ir = push_bit ir 1"
definition PIC_ICW3_SLAVE :: "u8 \<Rightarrow> u8" where "PIC_ICW3_SLAVE sid = sid AND 0x07"
definition PIC_ICW4_PM :: u8 where "PIC_ICW4_PM = push_bit 0 1"

definition pic_mask_all :: "'a machine_scheme \<Rightarrow> 'a machine_scheme" where
  "pic_mask_all s =
     (let s = io_port_outb PIC_MD 0xFF s;
          s = io_port_outb PIC_SD 0xFF s
      in s)"

definition pic_unmask_all :: "'a machine_scheme \<Rightarrow> 'a machine_scheme" where
  "pic_unmask_all s =
     (let s = io_port_outb PIC_MD 0x00 s;
          s = io_port_outb PIC_SD 0x00 s
      in s)"

definition pic_init :: "'a machine_scheme \<Rightarrow> 'a machine_scheme" where
  "pic_init s =
     (let s = print ''Initializing PIC 8259A !\<newline>'' [] s;
          s = io_port_outb PIC_MC PIC_ICW1_IC4 s;
          s = io_port_outb PIC_MD (PIC_ICW2_VEC 32) s;
          s = io_port_outb PIC_MD (PIC_ICW3_MASTER 2) s;
          s = io_port_outb PIC_MD PIC_ICW4_PM s;
          s = io_port_outb PIC_SC PIC_ICW1_IC4 s;
          s = io_port_outb PIC_SD (PIC_ICW2_VEC 40) s;
          s = io_port_outb PIC_SD (PIC_ICW3_SLAVE 2) s;
          s = io_port_outb PIC_SD PIC_ICW4_PM s
      in pic_unmask_all s)"

definition pic_eio :: "u8 \<Rightarrow> 'a machine_scheme \<Rightarrow> 'a machine_scheme" where
  "pic_eio vector s =
     (let s = (if vector \<ge> 40 then io_port_outb PIC_SC 0x20 s else s)
      in io_port_outb PIC_MC 0x20 s)"

lemmas pic_words = PIC_ICW1_IC4_def PIC_ICW2_VEC_def PIC_ICW3_MASTER_def PIC_ICW3_SLAVE_def
  PIC_ICW4_PM_def

lemma pic_trace [simp, trace_simps]:
  "trace (pic_mask_all s) = trace s @ [OutB PIC_MD 0xFF, OutB PIC_SD 0xFF]"
  "trace (pic_unmask_all s) = trace s @ [OutB PIC_MD 0, OutB PIC_SD 0]"
  "trace (pic_init s) = trace s @ [Print ''Initializing PIC 8259A !\<newline>'' [],
     OutB PIC_MC 0x11, OutB PIC_MD 32, OutB PIC_MD 4, OutB PIC_MD 1,
     OutB PIC_SC 0x11, OutB PIC_SD 40, OutB PIC_SD 2, OutB PIC_SD 1,
     OutB PIC_MD 0, OutB PIC_SD 0]"
  "trace (pic_eio v s) = trace s @ (if v \<ge> 40 then [OutB PIC_SC 0x20] else []) @ [OutB PIC_MC 0x20]"
  by (simp_all add: pic_mask_all_def pic_unmask_all_def pic_init_def pic_eio_def pic_words)

lemma pic_frame [simp, frame_simps]:
  "hw (pic_mask_all s) = hw s" "machine.more (pic_mask_all s) = machine.more s"
  "hw (pic_unmask_all s) = hw s" "machine.more (pic_unmask_all s) = machine.more s"
  "hw (pic_init s) = hw s" "machine.more (pic_init s) = machine.more s"
  "hw (pic_eio v s) = hw s" "machine.more (pic_eio v s) = machine.more s"
  by (simp_all add: pic_mask_all_def pic_unmask_all_def pic_init_def pic_eio_def)

section \<open>The chip's side\<close>

datatype phase = Run | Icw2 | Icw3 | Icw4

record chip =
  phase :: phase
  single :: bool
  wants_icw4 :: bool
  vector_base :: u8
  wiring :: u8
  mode :: u8
  imr :: u8
  eois :: nat

definition command_write :: "u8 \<Rightarrow> chip \<Rightarrow> chip" where
  "command_write v c =
     (if bit v 4 then c\<lparr>phase := Icw2, single := bit v 1, wants_icw4 := bit v 0, imr := 0\<rparr>
      else if v = 0x20 then c\<lparr>eois := eois c + 1\<rparr> else c)"

definition data_write :: "u8 \<Rightarrow> chip \<Rightarrow> chip" where
  "data_write v c = (case phase c of
     Run \<Rightarrow> c\<lparr>imr := v\<rparr>
   | Icw2 \<Rightarrow> c\<lparr>vector_base := v AND 0xF8,
       phase := if \<not> single c then Icw3 else if wants_icw4 c then Icw4 else Run\<rparr>
   | Icw3 \<Rightarrow> c\<lparr>wiring := v, phase := if wants_icw4 c then Icw4 else Run\<rparr>
   | Icw4 \<Rightarrow> c\<lparr>mode := v, phase := Run\<rparr>)"

fun chip_event :: "u16 \<Rightarrow> u16 \<Rightarrow> event \<Rightarrow> chip \<Rightarrow> chip" where
  "chip_event cmd dat (OutB p v) c =
     (if p = cmd then command_write v c else if p = dat then data_write v c else c)"
| "chip_event cmd dat _ c = c"

definition chip_after :: "u16 \<Rightarrow> u16 \<Rightarrow> event list \<Rightarrow> chip \<Rightarrow> chip" where
  "chip_after cmd dat es c = fold (chip_event cmd dat) es c"

lemma chip_after_append [simp]:
  "chip_after cmd dat (es @ es') c = chip_after cmd dat es' (chip_after cmd dat es c)"
  by (simp add: chip_after_def)

lemma chip_after_Cons [simp]:
  "chip_after cmd dat (e # es) c = chip_after cmd dat es (chip_event cmd dat e c)"
  "chip_after cmd dat [] c = c"
  by (simp_all add: chip_after_def)

text \<open>A controller in the state the initialisation leaves, with every line masked.\<close>

definition remapped :: "u8 \<Rightarrow> u8 \<Rightarrow> chip \<Rightarrow> bool" where
  "remapped base wires c \<longleftrightarrow> phase c = Run \<and> vector_base c = base \<and> \<not> single c \<and> wiring c = wires
     \<and> mode c = 1 \<and> imr c = 0xFF"

lemma remapped_chips:
  "remapped 32 4 (chip_after PIC_MC PIC_MD (trace (pic_mask_all (pic_init s))) c)"
  "remapped 40 2 (chip_after PIC_SC PIC_SD (trace (pic_mask_all (pic_init s))) c)"
  by (simp_all add: remapped_def command_write_def data_write_def bit_word_iff_drop_bit_and)

text \<open>C18. Whatever state the two controllers were in, after \<open>pic_init\<close> and \<open>pic_mask_all\<close> they
  are initialised and running: the master delivers from vector 32 with the slave on its line
  2, the slave from vector 40 with identity 2, both in 8086 mode, every line masked.\<close>

theorem pic_remapped:
  fixes s :: "'a machine_scheme" and c c' :: chip
  defines "t \<equiv> trace (pic_mask_all (pic_init s))"
  defines "master \<equiv> chip_after PIC_MC PIC_MD t c" and "slave \<equiv> chip_after PIC_SC PIC_SD t c'"
  shows "phase master = Run \<and> vector_base master = 32 \<and> \<not> single master \<and> wiring master = 4
      \<and> mode master = 1 \<and> imr master = 0xFF
      \<and> phase slave = Run \<and> vector_base slave = 40 \<and> \<not> single slave \<and> wiring slave = 2
      \<and> mode slave = 1 \<and> imr slave = 0xFF"
  using remapped_chips [of s] by (simp add: t_def master_def slave_def remapped_def)

text \<open>An interrupt is acknowledged exactly once at the master, and once at the slave
  exactly when its vector is one of the slave's (40 and above).\<close>

theorem pic_eio_counts:
  "eois (chip_after PIC_MC PIC_MD (trace (pic_eio v s)) c)
      = eois (chip_after PIC_MC PIC_MD (trace s) c) + 1
   \<and> eois (chip_after PIC_SC PIC_SD (trace (pic_eio v s)) c)
      = eois (chip_after PIC_SC PIC_SD (trace s) c) + (if 40 \<le> v then 1 else 0)"
  by (simp add: command_write_def bit_word_iff_drop_bit_and)

end
