(* ===== verification/Idt.thy ===== *)
theory Idt
  imports Lapic82489DX Ioapic82093AA Pic8259A
begin

text \<open>
  The interrupt descriptor table (ksrc/idt.h, idt.c, idt.s): the gates, the table of C
  handlers, masking at the I/O APIC, the assembly stubs between the CPU's stack frame and
  the handlers' arguments, and the two default handlers.

  Function pointers are the datatype \<open>handler\<close>, one constructor for each C function the
  kernel registers. The two tables have 255 entries; the slot with index 255 of the handler
  table stands for the word after it. The address of the table and of the stubs are given
  by the linker and are parameters.
\<close>

unbundle bit_operations_syntax

section \<open>Data\<close>

datatype handler = Null | Idt_exception_handler | Idt_interrupt_handler
  | Acpi_interrupt_handler_power | I8042_irq_handler | Kbd_irq_handler | Mouse_irq_handler

record idt = lapic +
  idt_gate :: "nat \<Rightarrow> u64"
  idt_gate_callback :: "nat \<Rightarrow> handler"
  lidt_limit :: u16
  lidt_base :: u32

definition idt_lidt_t :: layout where
  "idt_lidt_t = [(''limit'', 16), (''base'', 32)]"

definition idt_gate_t :: layout where
  "idt_gate_t = [(''offset_low'', 16), (''ss'', 16), (''flags'', 16), (''offset_high'', 16)]"

definition IDT_FLAG_GATE_DPL0 :: u16 where "IDT_FLAG_GATE_DPL0 = push_bit 13 0"
definition IDT_FLAG_GATE_P :: u16 where "IDT_FLAG_GATE_P = push_bit 15 1"
definition IDT_FLAG_GATE_D :: u16 where "IDT_FLAG_GATE_D = push_bit 11 1"

record idt_registers =
  edi :: u32
  esi :: u32
  ebp :: u32
  esp :: u32
  ebx :: u32
  edx :: u32
  ecx :: u32
  eax :: u32

definition idt_error_t :: layout where
  "idt_error_t = [(''ext'', 1), (''idt'', 1), (''ti'', 1), (''ssi'', 16), (''_r0'', 13)]"

record idt_cpu_frame =
  eip :: u32
  cs :: u32
  eflags :: u32

section \<open>Gates\<close>

definition idt_set_gate_task :: "u16 \<Rightarrow> u16 \<Rightarrow> u64" where
  "idt_set_gate_task tss flags =
     push_bit 16 (ucast tss) OR push_bit 40 5 OR push_bit 32 (ucast flags)"

definition idt_set_gate_interrupt :: "u16 \<Rightarrow> u32 \<Rightarrow> u16 \<Rightarrow> u64" where
  "idt_set_gate_interrupt ss offset flags =
     (ucast offset AND 0x0000FFFF) OR push_bit 16 (ucast ss) OR push_bit 40 6
       OR push_bit 32 (ucast flags) OR push_bit 32 (ucast (offset AND 0xFFFF0000))"

definition idt_set_gate_trap :: "u16 \<Rightarrow> u32 \<Rightarrow> u16 \<Rightarrow> u64" where
  "idt_set_gate_trap ss offset flags =
     (ucast offset AND 0x0000FFFF) OR push_bit 16 (ucast ss) OR push_bit 40 7
       OR push_bit 32 (ucast flags) OR push_bit 32 (ucast (offset AND 0xFFFF0000))"

text \<open>What the CPU reads in a gate.\<close>

definition gate_offset :: "u64 \<Rightarrow> u32" where
  "gate_offset g = ucast (get_field idt_gate_t ''offset_low'' g)
     OR push_bit 16 (ucast (get_field idt_gate_t ''offset_high'' g))"

definition gate_selector :: "u64 \<Rightarrow> u16" where
  "gate_selector g = ucast (get_field idt_gate_t ''ss'' g)"

definition gate_flags :: "u64 \<Rightarrow> u16" where
  "gate_flags g = ucast (get_field idt_gate_t ''flags'' g)"

lemmas gate_reads = gate_offset_def gate_selector_def gate_flags_def idt_gate_t_def

lemma gate_masks: "(0xFFFF :: u64) = mask 16" "(0xFFFF0000 :: u32) = push_bit 16 (mask 16)"
  by (simp_all add: mask_eq_exp_minus_1 push_bit_eq_mult)

text \<open>All three gates have the same shape, with a type of three bits.\<close>

definition build_gate :: "u64 \<Rightarrow> u16 \<Rightarrow> u32 \<Rightarrow> u16 \<Rightarrow> u64" where
  "build_gate t ss offset flags =
     (ucast offset AND mask 16) OR push_bit 16 (ucast ss) OR push_bit 40 t
       OR push_bit 32 (ucast flags) OR push_bit 32 (ucast (offset AND push_bit 16 (mask 16)))"

lemma gates_built:
  "idt_set_gate_interrupt ss offset flags = build_gate 6 ss offset flags"
  "idt_set_gate_trap ss offset flags = build_gate 7 ss offset flags"
  "idt_set_gate_task ss flags = build_gate 5 ss 0 flags"
  unfolding build_gate_def gate_masks [symmetric]
  by (simp_all add: idt_set_gate_interrupt_def idt_set_gate_trap_def idt_set_gate_task_def ac_simps)

lemma gate_read_bits:
  "gate_offset g = ucast g AND mask 16 OR push_bit 16 (ucast (drop_bit 48 g) AND mask 16)"
  "gate_selector g = ucast (drop_bit 16 g)" "gate_flags g = ucast (drop_bit 32 g)"
  by (rule bit_word_eqI; auto simp: gate_reads get_field_eval bit_simps)+

lemma built_gate_read:
  assumes "\<And>n. bit t n \<Longrightarrow> n < 3"
  shows "gate_offset (build_gate t ss offset flags) = offset"
    and "gate_selector (build_gate t ss offset flags) = ss"
    and "gate_flags (build_gate t ss offset flags) = flags OR push_bit 8 (ucast t)"
  unfolding gate_read_bits build_gate_def
  by (rule bit_word_eqI; auto simp: bit_simps dest: assms bit_imp_le_length)+

lemma three_bits: "x < 8 \<Longrightarrow> bit (x :: u64) n \<Longrightarrow> n < 3"
proof (rule ccontr)
  assume "x < 8" "bit x n" "\<not> n < 3"
  then have "x = take_bit 3 x"
    by (simp add: take_bit_eq_mod word_unat_eq_iff unat_mod word_less_nat_alt)
  with \<open>bit x n\<close> have "bit (take_bit 3 x) n" by simp
  with \<open>\<not> n < 3\<close> show False by (simp add: bit_take_bit_iff)
qed

lemma gate_reads_back:
  assumes "t < 8"
  shows "gate_offset (build_gate t ss offset flags) = offset"
    and "gate_selector (build_gate t ss offset flags) = ss"
    and "gate_flags (build_gate t ss offset flags) = flags OR push_bit 8 (ucast t)"
  using built_gate_read [of t, OF three_bits [OF assms]] by simp_all

text \<open>A gate the code builds is read back by the CPU as given: the entry point, the selector
  and the flags, with the type of the gate (6 interrupt, 7 trap, 5 task) in the flags.\<close>

theorem gate_roundtrip:
  "gate_offset (idt_set_gate_interrupt ss offset flags) = offset
   \<and> gate_selector (idt_set_gate_interrupt ss offset flags) = ss
   \<and> gate_flags (idt_set_gate_interrupt ss offset flags) = flags OR 0x600
   \<and> gate_offset (idt_set_gate_trap ss offset flags) = offset
   \<and> gate_selector (idt_set_gate_trap ss offset flags) = ss
   \<and> gate_flags (idt_set_gate_trap ss offset flags) = flags OR 0x700
   \<and> gate_selector (idt_set_gate_task ss flags) = ss
   \<and> gate_flags (idt_set_gate_task ss flags) = flags OR 0x500"
  by (simp add: gates_built gate_reads_back)

section \<open>The tables\<close>

definition idt_set_table :: "u16 \<Rightarrow> u32 \<Rightarrow> 'a machine_scheme \<Rightarrow> 'a machine_scheme" where
  "idt_set_table limit base s = emit (Lidt limit base) s"

definition idt_set_interrupt_handler :: "u8 \<Rightarrow> handler \<Rightarrow> 'a idt_scheme \<Rightarrow> 'a idt_scheme" where
  "idt_set_interrupt_handler interrupt handler s =
     s\<lparr>idt_gate_callback := (idt_gate_callback s)(unat interrupt := handler)\<rparr>"

text \<open>One round of the loop of \<open>idt_init\<close>: the gate and the handler of vector \<open>idx\<close>. The flags of
  every gate are present, ring 0, 32 bits.\<close>

definition idt_init_flags :: u16 where
  "idt_init_flags = IDT_FLAG_GATE_D OR IDT_FLAG_GATE_DPL0 OR IDT_FLAG_GATE_P"

definition idt_init_step :: "(nat \<Rightarrow> u32) \<Rightarrow> nat \<Rightarrow> 'a idt_scheme \<Rightarrow> 'a idt_scheme" where
  "idt_init_step idt_gate_handler idx s =
     (if idx = 15 \<or> (idx > 20 \<and> idx < 32) then s
      else if idx < 32 then
        s\<lparr>idt_gate_callback := (idt_gate_callback s)(idx := Idt_exception_handler),
          idt_gate := (idt_gate s)(idx :=
            idt_set_gate_trap 0x8 (idt_gate_handler idx) idt_init_flags)\<rparr>
      else
        s\<lparr>idt_gate_callback := (idt_gate_callback s)(idx := Idt_interrupt_handler),
          idt_gate := (idt_gate s)(idx :=
            idt_set_gate_interrupt 0x8 (idt_gate_handler idx) idt_init_flags)\<rparr>)"

function idt_init_loop :: "(nat \<Rightarrow> u32) \<Rightarrow> nat \<Rightarrow> 'a idt_scheme \<Rightarrow> 'a idt_scheme" where
  "idt_init_loop idt_gate_handler idx s =
     (if idx < 255 then idt_init_loop idt_gate_handler (idx + 1) (idt_init_step idt_gate_handler idx s)
      else s)"
  by pat_completeness auto
termination
  by (relation "measure (\<lambda>(h, idx, s). 255 - idx)") auto

declare idt_init_loop.simps [simp del]

definition idt_init :: "u32 \<Rightarrow> (nat \<Rightarrow> u32) \<Rightarrow> 'a idt_scheme \<Rightarrow> 'a idt_scheme" where
  "idt_init gate_addr idt_gate_handler s =
     (let s = print ''Initializing IDT !\<newline>'' [] s;
          s = s\<lparr>idt_gate := \<lambda>i. if i < 255 then 0 else idt_gate s i\<rparr>;
          s = s\<lparr>idt_gate_callback := \<lambda>i. if i < 255 then Null else idt_gate_callback s i\<rparr>;
          s = idt_init_loop idt_gate_handler 0 s;
          s = s\<lparr>lidt_limit := of_nat (255 * sizeof idt_gate_t) - 1, lidt_base := gate_addr\<rparr>
      in idt_set_table (lidt_limit s) (lidt_base s) s)"

text \<open>The tables the loop leaves.\<close>

definition reserved :: "nat \<Rightarrow> bool" where
  "reserved v \<longleftrightarrow> v = 15 \<or> (20 < v \<and> v < 32)"

definition gate_for :: "(nat \<Rightarrow> u32) \<Rightarrow> nat \<Rightarrow> u64 \<Rightarrow> u64" where
  "gate_for h v g = (if reserved v then g
     else (if v < 32 then idt_set_gate_trap else idt_set_gate_interrupt) 0x8 (h v) idt_init_flags)"

definition callback_for :: "nat \<Rightarrow> handler \<Rightarrow> handler" where
  "callback_for v c = (if reserved v then c
     else if v < 32 then Idt_exception_handler else Idt_interrupt_handler)"

interpretation gates: fill_loop idt_gate "idt_init_step h" "idt_init_loop h" 255 "gate_for h" for h
  by unfold_locales
     (auto simp: idt_init_step_def gate_for_def reserved_def idt_init_loop.simps [of h] fun_eq_iff)

interpretation callbacks: fill_loop idt_gate_callback "idt_init_step h" "idt_init_loop h" 255
    callback_for for h
  by unfold_locales
     (auto simp: idt_init_step_def callback_for_def reserved_def idt_init_loop.simps [of h] fun_eq_iff)

lemma idt_init_step_frame [simp]:
  "trace (idt_init_step h i s) = trace s" "hw (idt_init_step h i s) = hw s"
  "lapic_base (idt_init_step h i s) = lapic_base s"
  by (simp_all add: idt_init_step_def)

lemmas idt_init_loop_facts = gates.loop_table callbacks.loop_table
  gates.loop_keeps [of trace, OF idt_init_step_frame(1)]
  gates.loop_keeps [of hw, OF idt_init_step_frame(2)]
  gates.loop_keeps [of lapic_base, OF idt_init_step_frame(3)]

lemma idt_fields_emit [simp, frame_simps]:
  "idt_gate (emit e s) = idt_gate s" "idt_gate_callback (emit e s) = idt_gate_callback s"
  "lidt_limit (emit e s) = lidt_limit s" "lidt_base (emit e s) = lidt_base s"
  by (simp_all add: emit_def)

lemma sizeof_idt_gate_t: "sizeof idt_gate_t = 8"
  by (simp add: sizeof_def idt_gate_t_def)

lemma gate_for_reads:
  assumes "\<not> reserved v"
  shows "gate_offset (gate_for h v g) = h v" "gate_selector (gate_for h v g) = 8"
    "gate_flags (gate_for h v g) = (if v < 32 then 0x8F00 else 0x8E00)"
proof -
  have flags: "idt_init_flags = 0x8800"
    by (simp add: idt_init_flags_def IDT_FLAG_GATE_D_def IDT_FLAG_GATE_DPL0_def IDT_FLAG_GATE_P_def)
  show "gate_offset (gate_for h v g) = h v" "gate_selector (gate_for h v g) = 8"
    "gate_flags (gate_for h v g) = (if v < 32 then 0x8F00 else 0x8E00)"
    using assms by (simp_all add: gate_for_def gates_built gate_reads_back flags)
qed

lemma idt_init_gates: "v < 255 \<Longrightarrow> idt_gate (idt_init addr h s) v = gate_for h v 0"
  by (simp add: idt_init_def Let_def idt_set_table_def gates.loop_table print_def)

text \<open>C16. After \<open>idt_init\<close> every vector below 255 that is not reserved has a present ring 0 gate into
  its own stub, a trap gate for the exceptions and an interrupt gate from 32 on, with the
  matching C handler; the reserved vectors have no gate and no handler; the CPU has been
  given this table, of 255 entries.\<close>

theorem idt_init_tables:
  fixes s :: "'a idt_scheme" and addr :: u32 and h :: "nat \<Rightarrow> u32"
  defines "t \<equiv> idt_init addr h s"
  shows "(\<forall>v. v < 255 \<longrightarrow> (if reserved v then idt_gate t v = 0 \<and> idt_gate_callback t v = Null
      else gate_offset (idt_gate t v) = h v \<and> gate_selector (idt_gate t v) = 8
        \<and> gate_flags (idt_gate t v) = (if v < 32 then 0x8F00 else 0x8E00)
        \<and> idt_gate_callback t v = (if v < 32 then Idt_exception_handler else Idt_interrupt_handler)))
    \<and> idt_gate t 255 = idt_gate s 255 \<and> idt_gate_callback t 255 = idt_gate_callback s 255
    \<and> trace t = trace s @ [Print ''Initializing IDT !\<newline>'' [], Lidt 2039 addr]
    \<and> lapic_base t = lapic_base s"
proof -
  have gate: "idt_gate t v = (if v < 255 then gate_for h v 0 else idt_gate s v)" for v
    by (simp add: t_def idt_init_def Let_def idt_set_table_def gates.loop_table print_def)
  have callback: "idt_gate_callback t v = (if v < 255 then callback_for v Null else idt_gate_callback s v)"
    for v by (simp add: t_def idt_init_def Let_def idt_set_table_def callbacks.loop_table print_def)
  have rest: "trace t = trace s @ [Print ''Initializing IDT !\<newline>'' [], Lidt 2039 addr]"
    "lapic_base t = lapic_base s"
    by (simp_all add: t_def idt_init_def Let_def idt_set_table_def idt_init_loop_facts print_def
        sizeof_idt_gate_t)
  show ?thesis
    by (simp add: gate callback rest gate_for_reads) (simp add: gate_for_def callback_for_def)
qed

lemma idt_init_tables_witness:
  "gate_offset (idt_gate (idt_init 0xC0110000 (\<lambda>v. 0xC0100000 + of_nat v)
     (idt.make quiet [] 0xFEE00000 0 0 (\<lambda>v. 0) (\<lambda>v. Null) 0 0)) 33) = 0xC0100021"
  using idt_init_tables [of "0xC0110000" "\<lambda>v. 0xC0100000 + of_nat v"
      "idt.make quiet [] 0xFEE00000 0 0 (\<lambda>v. 0) (\<lambda>v. Null) 0 0"]
  by (auto simp: reserved_def)

text \<open>The handler table has 255 entries: registering a handler for vector 255 leaves all of them
  as they were and overwrites the word behind the table; any other vector gets its handler,
  and no other does.\<close>

theorem idt_set_interrupt_handler_slot:
  fixes s :: "'a idt_scheme" and v :: u8 and f :: handler
  defines "t \<equiv> idt_set_interrupt_handler v f s"
  shows "idt_gate_callback t (unat v) = f
    \<and> (\<forall>i. i \<noteq> unat v \<longrightarrow> idt_gate_callback t i = idt_gate_callback s i)
    \<and> ((\<forall>i. i < 255 \<longrightarrow> idt_gate_callback t i = idt_gate_callback s i) \<longleftrightarrow>
        v = 255 \<or> f = idt_gate_callback s (unat v))"
proof -
  have "unat v < 256" using unsigned_less [of v] by simp
  then have "v = 255 \<longleftrightarrow> \<not> unat v < 255" by (simp add: word_unat_eq_iff) linarith
  then show ?thesis by (auto simp: t_def idt_set_interrupt_handler_def)
qed

lemma idt_set_interrupt_handler_slot_witness:
  "idt_gate_callback (idt_set_interrupt_handler 255 Kbd_irq_handler
     (idt.make quiet [] 0 0 0 (\<lambda>v. 0) (\<lambda>v. Null) 0 0)) 254 = Null"
  using idt_set_interrupt_handler_slot [of "255" Kbd_irq_handler
      "idt.make quiet [] 0 0 0 (\<lambda>v. 0) (\<lambda>v. Null) 0 0"]
  by (simp add: idt.make_def)

lemma idt_set_interrupt_handler_frame [simp, frame_simps]:
  "trace (idt_set_interrupt_handler v f s) = trace s" "hw (idt_set_interrupt_handler v f s) = hw s"
  "lapic_base (idt_set_interrupt_handler v f s) = lapic_base s"
  "idt_gate (idt_set_interrupt_handler v f s) = idt_gate s"
  by (simp_all add: idt_set_interrupt_handler_def)

section \<open>Masking\<close>

text \<open>The line of a vector is its entry in the redirection table of the I/O APIC.\<close>

definition idt_mask_interrupt :: "u8 \<Rightarrow> 'a machine_scheme \<Rightarrow> 'a machine_scheme" where
  "idt_mask_interrupt vector s =
     (if vector < 32 then s
      else
        let irq = unat (vector - 32);
            (value, s) = ioapic_read ioapic_base (IOAPIC_IOREDTBL_L irq) s;
            value = value OR push_bit 16 1
        in ioapic_write ioapic_base (IOAPIC_IOREDTBL_L irq) value s)"

definition idt_unmask_interrupt :: "u8 \<Rightarrow> 'a machine_scheme \<Rightarrow> 'a machine_scheme" where
  "idt_unmask_interrupt vector s =
     (if vector < 32 then s
      else
        let irq = unat (vector - 32);
            (value, s) = ioapic_read ioapic_base (IOAPIC_IOREDTBL_L irq) s;
            value = value AND NOT (push_bit 16 1)
        in ioapic_write ioapic_base (IOAPIC_IOREDTBL_L irq) value s)"

definition line_of :: "u8 \<Rightarrow> u8" where
  "line_of vector = index_L (unat (vector - 32))"

text \<open>Both are read-modify-writes of one register of the bank.\<close>

lemma vector_line:
  assumes "32 \<le> v" "v < 152"
  shows "unat (v - 32) < 120" "IOAPIC_IOREDTBL_L (unat (v - 32)) = ucast (line_of v)"
proof -
  show "unat (v - 32) < 120" using assms by unat_arith
  then show "IOAPIC_IOREDTBL_L (unat (v - 32)) = ucast (line_of v)"
    by (simp add: line_of_def ioredtbl_index)
qed

lemma mask_modify:
  assumes "32 \<le> v" "v < 152"
  shows "idt_mask_interrupt v s = ioapic.modify (set_bit 16) (line_of v) s"
    and "idt_unmask_interrupt v s = ioapic.modify (unset_bit 16) (line_of v) s"
  using assms vector_line [OF assms]
  by (simp_all add: set_bit_eq_or unset_bit_eq_and_not idt_mask_interrupt_def idt_unmask_interrupt_def ioapic.modify_def Let_def not_le
      split_beta linorder_not_less [symmetric])

text \<open>Masking a vector from 32 to 151 sets the mask bit in the redirection entry of its line
  and changes no other bit and no other entry, unmasking clears it in the same way; the mask
  bit is the field of that name in the entry's layout. Vectors below 32 are left alone.\<close>

theorem mask_line:
  assumes "ioapic_answers r s" and "32 \<le> v" "v < 152"
  shows "ioapic_regs r (idt_mask_interrupt v s)
      = (ioapic_regs r s)(line_of v := set_field ioapic_redtbl_L_t ''mask'' 1 (ioapic_regs r s (line_of v)))
    \<and> ioapic_regs r (idt_unmask_interrupt v s)
      = (ioapic_regs r s)(line_of v := set_field ioapic_redtbl_L_t ''mask'' 0 (ioapic_regs r s (line_of v)))
    \<and> (w < 32 \<longrightarrow> idt_mask_interrupt w s = s \<and> idt_unmask_interrupt w s = s)"
proof -
  have f: "set_bit 16 x = set_field ioapic_redtbl_L_t ''mask'' 1 x"
    "unset_bit 16 x = set_field ioapic_redtbl_L_t ''mask'' 0 x" for x :: u32
    by (simp_all add: set_flag ioapic_redtbl_L_t_def)
  show ?thesis
    using assms by (simp add: mask_modify ioapic.modify_bank f) (simp add: idt_mask_interrupt_def idt_unmask_interrupt_def)
qed

text \<open>Unmasking undoes masking of a line that was not masked, and masking followed by unmasking
  always leaves the line open.\<close>

theorem mask_unmask:
  assumes "ioapic_answers r s" and "32 \<le> v" "v < 152"
  shows "(\<not> bit (ioapic_regs r s (line_of v)) 16 \<longrightarrow>
        ioapic_regs r (idt_unmask_interrupt v (idt_mask_interrupt v s)) = ioapic_regs r s)
    \<and> \<not> bit (ioapic_regs r (idt_unmask_interrupt v (idt_mask_interrupt v s)) (line_of v)) 16"
proof -
  have "unset_bit 16 (set_bit 16 x) = x" if "\<not> bit x 16" for x :: u32
    using that by (intro bit_word_eqI) (auto simp: bit_simps)
  then show ?thesis
    using assms by (auto simp: mask_modify ioapic.modify_modify bit_simps)
qed

lemma mask_line_witness:
  "ioapic_regs lines24 (idt_unmask_interrupt 33 ioapic_machine) (line_of 33) = 0
   \<and> idt_mask_interrupt 13 ioapic_machine = ioapic_machine"
  using mask_line [OF ioapic_machine_ok(1), of 33 13]
  by (simp add: ioapic_machine_ok(2) lines24_def line_of_def index_L_def ioapic_redtbl_L_t_def layout_eval)

lemma mask_unmask_witness:
  "\<not> bit (ioapic_regs lines24 (idt_unmask_interrupt 40 (idt_mask_interrupt 40 ioapic_machine)) (line_of 40)) 16"
  using mask_unmask [OF ioapic_machine_ok(1), of 40] by simp

end
