(* ===== verification/Interrupts.thy ===== *)
theory Interrupts
  imports Idt
begin

text \<open>
  What happens between an interrupt and its C handler: the assembly stubs of ksrc/idt.s,
  which bring the CPU's frame into the shape of the handlers' arguments, with registers and
  stack as a pair so that the stack pointer \<open>pusha\<close> saves is the code's, and the two default
  handlers of ksrc/idt.c.

  The contract of the handlers that return is the locale \<open>acknowledging\<close>: exactly one end
  of interrupt at the local APIC. It is interpreted for every handler the kernel registers,
  in the theory of the handler.
\<close>

unbundle bit_operations_syntax

section \<open>The stubs\<close>

text \<open>The registers with a stack, a list of words with its top first: \<open>esp\<close> moves with every push and
  pop. What the CPU pushes for vector \<open>n\<close>:\<close>

type_synonym stack = "idt_registers \<times> u32 list"

fun push_word :: "u32 \<Rightarrow> stack \<Rightarrow> stack" where
  "push_word w (r, ws) = (r\<lparr>esp := esp r - 4\<rparr>, w # ws)"

fun drop_words :: "nat \<Rightarrow> stack \<Rightarrow> stack" where
  "drop_words n (r, ws) = (r\<lparr>esp := esp r + of_nat (4 * n)\<rparr>, drop n ws)"

definition cpu_pushes_error :: "nat \<Rightarrow> bool" where
  "cpu_pushes_error n \<longleftrightarrow> n \<in> {8, 10, 11, 12, 13, 14, 17, 21, 29, 30}"

definition cpu_frame :: "nat \<Rightarrow> u32 \<Rightarrow> idt_cpu_frame \<Rightarrow> stack \<Rightarrow> stack" where
  "cpu_frame n error f c =
     fold push_word ([eflags f, cs f, eip f] @ (if cpu_pushes_error n then [error] else [])) c"

definition stub_expects_error :: "nat \<Rightarrow> bool" where
  "stub_expects_error n \<longleftrightarrow> n = 8 \<or> (n \<ge> 10 \<and> n \<le> 14) \<or> n = 17"

text \<open>\<open>pusha\<close> saves the stack pointer it starts with, \<open>popa\<close> leaves the stack pointer alone. The words
  are in the order of the pushes and of the pops.\<close>

definition pusha_words :: "idt_registers \<Rightarrow> u32 list" where
  "pusha_words r = [eax r, ecx r, edx r, ebx r, esp r, ebp r, esi r, edi r]"

definition pusha :: "stack \<Rightarrow> stack" where
  "pusha c = fold push_word (pusha_words (fst c)) c"

definition popa_registers :: "u32 list \<Rightarrow> idt_registers \<Rightarrow> idt_registers" where
  "popa_registers ws r = \<lparr>edi = ws ! 0, esi = ws ! 1, ebp = ws ! 2, esp = esp r,
     ebx = ws ! 4, edx = ws ! 5, ecx = ws ! 6, eax = ws ! 7\<rparr>"

definition popa :: "stack \<Rightarrow> stack" where
  "popa c = apfst (popa_registers (snd c)) (drop_words 8 c)"

text \<open>From the entry of stub \<open>n\<close> to its call, and from there to the \<open>iretl\<close>.\<close>

definition stub_enter :: "nat \<Rightarrow> stack \<Rightarrow> stack" where
  "stub_enter n c =
     (let c = (if stub_expects_error n then c else push_word 0 c);
          c = pusha c
      in push_word (of_nat n) c)"

definition stub_leave :: "stack \<Rightarrow> stack" where
  "stub_leave c =
     (let c = drop_words 1 c;
          c = popa c
      in drop_words 1 c)"

text \<open>The arguments a handler finds on the stack: vector, registers, error code, CPU frame.\<close>

definition handler_arguments :: "u32 list \<Rightarrow> u32 \<times> idt_registers \<times> u32 \<times> idt_cpu_frame" where
  "handler_arguments stack = (stack ! 0,
     \<lparr>edi = stack ! 1, esi = stack ! 2, ebp = stack ! 3, esp = stack ! 4,
      ebx = stack ! 5, edx = stack ! 6, ecx = stack ! 7, eax = stack ! 8\<rparr>,
     stack ! 9, \<lparr>eip = stack ! 10, cs = stack ! 11, eflags = stack ! 12\<rparr>)"

text \<open>C13. For every vector that gets a gate, the stub hands its handler the vector, the registers at
  the interrupt, the error code (0 where the CPU pushes none) and the CPU's frame. One register
  is not that of the interrupted code: \<open>pusha\<close> runs behind the frame and the error code, so the handler
  gets \<open>esp - 16\<close>. When the handler has returned, with any registers but its stack pointer back
  where it was, the stub restores the interrupted registers and leaves exactly the frame for
  \<open>iretl\<close>, with the stack pointer on it. The stub's list of vectors with an error code misses only
  vectors that are reserved.\<close>

theorem stub_arguments:
  fixes r q q' :: idt_registers and e :: u32 and f :: idt_cpu_frame and rest ws :: "u32 list" and n :: nat
  assumes "\<not> reserved n" and "stub_enter n (cpu_frame n e f (r, rest)) = (q, ws)" and "esp q' = esp q"
  shows "handler_arguments ws = (of_nat n, r\<lparr>esp := esp r - 16\<rparr>, if cpu_pushes_error n then e else 0, f)
    \<and> esp q = esp r - 52
    \<and> stub_leave (q', ws) = (r\<lparr>esp := esp r - 12\<rparr>, [eip f, cs f, eflags f] @ rest)
    \<and> {n. cpu_pushes_error n \<noteq> stub_expects_error n} = {21, 29, 30}"
proof -
  have lists: "cpu_pushes_error k \<longleftrightarrow> stub_expects_error k \<or> k \<in> {21, 29, 30}" for k
  proof -
    have "10 \<le> k \<and> k \<le> 14 \<longleftrightarrow> k \<in> {10, 11, 12, 13, 14}" by auto
    then show ?thesis by (auto simp: cpu_pushes_error_def stub_expects_error_def)
  qed
  have same: "cpu_pushes_error n = stub_expects_error n"
    using assms(1) by (auto simp: lists reserved_def)
  have differ: "{k. cpu_pushes_error k \<noteq> stub_expects_error k} = {21, 29, 30}"
    by (auto simp: lists stub_expects_error_def)
  define w where "w = (if cpu_pushes_error n then e else 0)"
  have "stub_enter n (cpu_frame n e f (r, rest)) = push_word (of_nat n) (pusha (r\<lparr>esp := esp r - 16\<rparr>, w # [eip f, cs f, eflags f] @ rest))"
    by (simp add: stub_enter_def cpu_frame_def same w_def)
  then have shape: "ws = of_nat n # rev (pusha_words (r\<lparr>esp := esp r - 16\<rparr>)) @ w # [eip f, cs f, eflags f] @ rest" "esp q = esp r - 52"
    using assms(2) by (auto simp: pusha_def pusha_words_def)
  have "esp q' = esp r - 52" using assms(3) shape(2) by simp
  then show ?thesis
    unfolding differ w_def [symmetric]
    by (simp add: shape handler_arguments_def stub_leave_def pusha_words_def popa_def popa_registers_def)
qed

lemma stub_arguments_witness:
  "handler_arguments (snd (stub_enter 14 (cpu_frame 14 2 (idt_cpu_frame.make 0xC0101000 8 0x202) (idt_registers.make 1 2 3 0xC0107000 5 6 7 8, []))))
   = (14, idt_registers.make 1 2 3 0xC0106FF0 5 6 7 8, 2, idt_cpu_frame.make 0xC0101000 8 0x202)"
proof -
  let ?c = "stub_enter 14 (cpu_frame 14 2 (idt_cpu_frame.make 0xC0101000 8 0x202) (idt_registers.make 1 2 3 0xC0107000 5 6 7 8, []))"
  have "\<not> reserved 14" by (simp add: reserved_def)
  from stub_arguments [OF this, of 2 "idt_cpu_frame.make 0xC0101000 8 0x202" "idt_registers.make 1 2 3 0xC0107000 5 6 7 8" "[]"
      "fst ?c" "snd ?c" "fst ?c"]
  show ?thesis by (simp add: cpu_pushes_error_def idt_registers.make_def)
qed

section \<open>The default handlers\<close>

text \<open>A handler returns to its stub, or stops the processor for good: after \<open>cli; hlt\<close> only a
  non-maskable interrupt wakes it, whose handler stops it again.\<close>

datatype 's outcome = Returned 's | Halted 's

definition vinfo :: "string list" where
  "vinfo = [''#DE|Divide Error|DIV and IDIV instructions.'',
   ''#DB|Debug Exception|Hardware breakpoints and single-step execution.'',
   ''#NMI|Interrupt|Nonmaskable external interrupt.'',
   ''#BP|Breakpoint|INT 3 instruction.'',
   ''#OF|Overflow|INTO instruction.'',
   ''#BR|BOUND Range Exceeded|BOUND instruction.'',
   ''#UD|Invalid Opcode (Undefined Opcode)|UD2 instruction or reserved opcode.(1)'',
   ''#NM|Device Not Available (No MathCoprocessor)|Floating-point or WAIT/FWAIT instruction.'',
   ''#DF|Double Fault|Any instruction that can generate anexception, an NMI, or an INTR.'',
   ''#MP|Coprocessor Segment Overrun (reserved)|Floating-point instruction.(2)'',
   ''#TS|Invalid TSS|Task switch or TSS access.'',
   ''#NP|Segment Not Present|Loading segment registers or accessing system segments.'',
   ''#SS|Stack-Segment Fault|Stack operations and SS register loads.'',
   ''#GP|General Protection|Any memory reference and other protection checks.'',
   ''#PF|Page Fault|Any memory reference.'',
   ''#??|Intel reserved, do not use.|Intel reserved, do not use.'',
   ''#MF|x87 FPU Floating-Point Error (Math Fault)|x87 FPU floating-point or WAIT/FWAIT instruction.'',
   ''#AC|Alignment Check|Any data reference in memory.(3)'',
   ''#MC|Machine Check|Error codes (if any) and source are model dependent.(4)'',
   ''#XM|SIMD Floating-Point Exception|SSE/SSE2/SSE3 floating-point instructions(5)'',
   ''#VE|Virtualization Exception|EPT violations(6)'',
   ''#??|Intel reserved, do not use.|Intel reserved, do not use.'',
   ''#??|Intel reserved, do not use.|Intel reserved, do not use.'',
   ''#??|Intel reserved, do not use.|Intel reserved, do not use.'',
   ''#??|Intel reserved, do not use.|Intel reserved, do not use.'',
   ''#??|Intel reserved, do not use.|Intel reserved, do not use.'',
   ''#??|Intel reserved, do not use.|Intel reserved, do not use.'',
   ''#??|Intel reserved, do not use.|Intel reserved, do not use.'',
   ''#??|Intel reserved, do not use.|Intel reserved, do not use.'',
   ''#??|Intel reserved, do not use.|Intel reserved, do not use.'',
   ''#??|Intel reserved, do not use.|Intel reserved, do not use.'',
   ''#??|Intel reserved, do not use.|Intel reserved, do not use.'']"

definition idt_exception_handler ::
  "u32 \<Rightarrow> idt_registers \<Rightarrow> u32 \<Rightarrow> idt_cpu_frame \<Rightarrow> 'a machine_scheme \<Rightarrow> 'a machine_scheme outcome"
  where
  "idt_exception_handler vector regs error cpu s =
     (if vector > 31 then
        let s = print ''\<newline>'' [] s;
            s = print ''Kernel Panic! Error Unknown Exception!\<newline>'' [] s;
            s = print ''Expception Vector: %u\<newline>'' [Num vector] s
        in Halted (emit Hlt (emit Cli s))
      else
        let s = print ''KERNEL PANIC: %s\<newline>'' [Str (chars (vinfo ! unat vector))] s;
            s = print ''VECTOR: 0x%x\<newline>'' [Num vector] s;
            s = print ''REGISTERS:\<newline> edi 0x%x, esi 0x%x, ebp 0x%x, esp 0x%x,\<newline> ebx 0x%x, edx 0x%x, ecx 0x%x, eax 0x%x\<newline>''
              [Num (edi regs), Num (esi regs), Num (ebp regs), Num (esp regs),
               Num (ebx regs), Num (edx regs), Num (ecx regs), Num (eax regs)] s;
            s = print ''ERROR: 0x%x\<newline>'' [Num error] s;
            s = print ''CPU FRAME: eip 0x%x, cs 0x%x, eflags 0x%x\<newline>''
              [Num (eip cpu), Num (cs cpu), Num (eflags cpu)] s;
            s = print ''\<newline>'' [] s
        in Halted (emit Hlt (emit Cli s)))"

definition idt_interrupt_handler ::
  "u32 \<Rightarrow> idt_registers \<Rightarrow> u32 \<Rightarrow> idt_cpu_frame \<Rightarrow> 'a lapic_scheme \<Rightarrow> 'a lapic_scheme outcome"
  where
  "idt_interrupt_handler vector regs error cpu s =
     (let s = print ''Int %u, esp 0x%x || '' [Num vector, Num (esp regs)] s;
          s = pic_eio (ucast vector) s
      in Returned (lapic_eio vector s))"

section \<open>Acknowledgement\<close>

text \<open>The ends of interrupt in a trace, at the local APIC with the registers at \<open>b\<close>.\<close>

definition eois :: "u32 \<Rightarrow> event list \<Rightarrow> nat" where
  "eois b es = length (filter (\<lambda>e. \<exists>v. e = MmioWrite (b OR LAPIC_EIO) v) es)"

lemma eois_append [simp]: "eois b (es @ es') = eois b es + eois b es'"
  by (simp add: eois_def)

lemma eois_simps [simp]:
  "eois b [] = 0"
  "eois b (MmioWrite a v # es) = (if a = b OR LAPIC_EIO then 1 else 0) + eois b es"
  "eois b (OutB p x # es) = eois b es" "eois b (OutW p y # es) = eois b es"
  "eois b (InB p x # es) = eois b es" "eois b (InW p y # es) = eois b es"
  "eois b (Print g as # es) = eois b es"
  "eois b (Cli # es) = eois b es" "eois b (Hlt # es) = eois b es" "eois b (Sti # es) = eois b es"
  by (simp_all add: eois_def)

text \<open>A handler whose every return has written exactly one end of interrupt.\<close>

locale acknowledging =
  fixes handler ::
    "u32 \<Rightarrow> idt_registers \<Rightarrow> u32 \<Rightarrow> idt_cpu_frame \<Rightarrow> 'a lapic_scheme \<Rightarrow> 'a lapic_scheme outcome"
  assumes one_eoi: "handler v r e f s = Returned t \<Longrightarrow>
      eois (lapic_base s) (trace t) = Suc (eois (lapic_base s) (trace s))"
    and same_base: "handler v r e f s = Returned t \<Longrightarrow> lapic_base t = lapic_base s"
begin

text \<open>A run of interrupts that all return.\<close>

inductive handled :: "'a lapic_scheme \<Rightarrow> nat \<Rightarrow> 'a lapic_scheme \<Rightarrow> bool" where
  none: "handled s 0 s"
| one: "handled s n u \<Longrightarrow> handler v r e f u = Returned t \<Longrightarrow> handled s (Suc n) t"

lemma handled_eois:
  "handled s n t \<Longrightarrow> eois (lapic_base s) (trace t) = n + eois (lapic_base s) (trace s)
     \<and> lapic_base t = lapic_base s"
  by (induction rule: handled.induct) (auto dest: one_eoi same_base)

end

lemma default_handler_trace:
  "idt_interrupt_handler v r e f s = Returned t \<longleftrightarrow>
   t = emit (MmioWrite (lapic_base s OR LAPIC_EIO) v)
     (pic_eio (ucast v) (emit (Print ''Int %u, esp 0x%x || '' [Num v, Num (esp r)]) s))"
  by (auto simp: idt_interrupt_handler_def lapic_eio_def lapic_write_def mmio_write_def print_def
      pic_eio_def io_port_outb_def)

interpretation default: acknowledging idt_interrupt_handler
proof unfold_locales
  fix v r e f and s t :: "'a lapic_scheme"
  assume "idt_interrupt_handler v r e f s = Returned t"
  then show "eois (lapic_base s) (trace t) = Suc (eois (lapic_base s) (trace s))"
    "lapic_base t = lapic_base s"
    unfolding default_handler_trace by (auto simp: pic_eio_def io_port_outb_def)
qed

text \<open>The default handler returns after one end of interrupt at the local APIC and one at the
  legacy master (and one at the slave for a vector of 40 or more, read as a byte); \<open>n\<close>
  interrupts in a row leave \<open>n\<close> more ends of interrupt.\<close>

theorem default_handler_acknowledges:
  "(\<exists>t. idt_interrupt_handler v r e f s = Returned t
      \<and> trace t = trace s @ [Print ''Int %u, esp 0x%x || '' [Num v, Num (esp r)]]
          @ (if (ucast v :: u8) \<ge> 40 then [OutB 0xA0 0x20] else []) @ [OutB 0x20 0x20,
             MmioWrite (lapic_base s OR LAPIC_EIO) v])
   \<and> (default.handled s n u \<longrightarrow> eois (lapic_base s) (trace u) = n + eois (lapic_base s) (trace s))"
  using default.handled_eois [of s n u] by (auto simp: default_handler_trace)

lemma default_handler_acknowledges_witness:
  fixes s :: lapic and r :: idt_registers and f :: idt_cpu_frame
  defines "s \<equiv> apic_machine (\<lambda>es a. 0)" and "r \<equiv> idt_registers.make 0 0 0 0 0 0 0 0"
    and "f \<equiv> idt_cpu_frame.make 0 8 0x202"
  shows "\<exists>u. default.handled s 1 u \<and> eois 0xFEE00000 (trace u) = 1"
proof -
  obtain u where u: "idt_interrupt_handler 40 r 0 f s = Returned u"
    using default_handler_acknowledges [of 40 r 0 f s] by blast
  have "default.handled s (Suc 0) u" by (rule default.one [OF default.none u])
  moreover from this have "eois (lapic_base s) (trace u) = Suc 0 + eois (lapic_base s) (trace s)"
    using default_handler_acknowledges [of 40 r 0 f s "Suc 0" u] by blast
  ultimately show ?thesis by (auto simp: s_def apic_machine_def)
qed

text \<open>The exception handler never returns: it reports the exception and stops the processor
  with interrupts disabled; for a vector of the CPU it names it by the table.\<close>

theorem exception_handler_stops:
  "\<exists>t es. idt_exception_handler v r e f s = Halted t
     \<and> trace t = trace s @ es @ [Cli, Hlt]
     \<and> (if v > 31 then Print ''Expception Vector: %u\<newline>'' [Num v] \<in> set es
        else Print ''KERNEL PANIC: %s\<newline>'' [Str (chars (vinfo ! unat v))] = hd es
          \<and> Print ''ERROR: 0x%x\<newline>'' [Num e] \<in> set es \<and> unat v < length vinfo)"
proof (cases "v > 31")
  case True
  then show ?thesis by (simp add: idt_exception_handler_def Let_def)
next
  case False
  then have "unat v < length vinfo" by (simp add: vinfo_def) (use False in unat_arith)
  with False show ?thesis by (simp add: idt_exception_handler_def Let_def)
qed

end
