(* ===== verification/I8042.thy ===== *)
theory I8042
  imports Interrupts
begin

text \<open>
  The keyboard and mouse controller, ksrc/drivers/i8042.h and i8042.c: its status and
  configuration bytes, its commands, the two accesses to the data port with their 500 polls of
  the status, the interrupt handler and the initialisation with its self tests.

  The polling loops share the contract \<open>bounded_poll\<close>. What the driver does to the machine is
  port traffic and output only (\<open>port_step\<close>), so that the registers of the interrupt
  controllers and the tables of the kernel stay as they are.
\<close>

unbundle bit_operations_syntax

section \<open>Formats and commands\<close>

definition i8042_status_at_t :: layout where
  "i8042_status_at_t = [(''output_buffer_full'', 1), (''input_buffer_full'', 1), (''system_flag'', 1),
     (''command_or_data'', 1), (''inhibit_switch'', 1), (''transmit_time_out'', 1),
     (''receive_time_out'', 1), (''parity_error'', 1)]"

definition i8042_status_ps2_t :: layout where
  "i8042_status_ps2_t = [(''output_buffer_full'', 1), (''input_buffer_full'', 1), (''system_flag'', 1),
     (''command_or_data'', 1), (''inhibit_switch'', 1), (''mouse_output_buffer_full'', 1),
     (''general_timeout'', 1), (''parity_error'', 1)]"

definition i8042_command_byte_t :: layout where
  "i8042_command_byte_t = [(''keyboard_interrupt'', 1), (''mouse_interrupt'', 1), (''system_flag'', 1),
     (''_r0'', 1), (''keyboard_port_clock'', 1), (''mouse_port_clock'', 1),
     (''keyboard_translation'', 1), (''_r1'', 1)]"

datatype i8042_command_t =
    I8042_COMMAND_READ_COMMAND_BYTE | I8042_COMMAND_WRITE_COMMAND_BYTE
   | I8042_COMMAND_DISABLE_MOUSE_INTERFACE | I8042_COMMAND_ENABLE_MOUSE_INTERFACE
   | I8042_COMMAND_MOUSE_INTERFACE_TEST | I8042_COMMAND_CONTROLLER_SELF_TEST
   | I8042_COMMAND_KEYBOARD_INTERFACE_TEST | I8042_COMMAND_DIAGNOSTIC_DUMP
   | I8042_COMMAND_DISABLE_KEYBOARD_INTERFACE | I8042_COMMAND_ENABLE_KEYBOARD_INTERFACE
   | I8042_COMMAND_GET_VERSION | I8042_COMMAND_READ_INPUT_PORT
   | I8042_COMMAND_COPY_INPUT_PORT_LSN | I8042_COMMAND_COPY_INPUT_PORT_MSN
   | I8042_COMMAND_READ_OUTPUT_PORT | I8042_COMMAND_WRITE_OUTPUT_PORT
   | I8042_COMMAND_WRITE_KEYBOARD_BUFFER | I8042_COMMAND_WRITE_MOUSE_BUFFER
   | I8042_COMMAND_WRITE_MOUSE_DEVICE | I8042_COMMAND_READ_TEST_PORT
   | I8042_COMMAND_PULSE_OUTPUT_PORT_BASE | I8042_COMMAND_PULSE_SYSTEM_RESET

primrec command_code :: "i8042_command_t \<Rightarrow> u8" where
  "command_code I8042_COMMAND_READ_COMMAND_BYTE = 0x20"
| "command_code I8042_COMMAND_WRITE_COMMAND_BYTE = 0x60"
| "command_code I8042_COMMAND_DISABLE_MOUSE_INTERFACE = 0xA7"
| "command_code I8042_COMMAND_ENABLE_MOUSE_INTERFACE = 0xA8"
| "command_code I8042_COMMAND_MOUSE_INTERFACE_TEST = 0xA9"
| "command_code I8042_COMMAND_CONTROLLER_SELF_TEST = 0xAA"
| "command_code I8042_COMMAND_KEYBOARD_INTERFACE_TEST = 0xAB"
| "command_code I8042_COMMAND_DIAGNOSTIC_DUMP = 0xAC"
| "command_code I8042_COMMAND_DISABLE_KEYBOARD_INTERFACE = 0xAD"
| "command_code I8042_COMMAND_ENABLE_KEYBOARD_INTERFACE = 0xAE"
| "command_code I8042_COMMAND_GET_VERSION = 0xAF"
| "command_code I8042_COMMAND_READ_INPUT_PORT = 0xC0"
| "command_code I8042_COMMAND_COPY_INPUT_PORT_LSN = 0xC1"
| "command_code I8042_COMMAND_COPY_INPUT_PORT_MSN = 0xC2"
| "command_code I8042_COMMAND_READ_OUTPUT_PORT = 0xD0"
| "command_code I8042_COMMAND_WRITE_OUTPUT_PORT = 0xD1"
| "command_code I8042_COMMAND_WRITE_KEYBOARD_BUFFER = 0xD2"
| "command_code I8042_COMMAND_WRITE_MOUSE_BUFFER = 0xD3"
| "command_code I8042_COMMAND_WRITE_MOUSE_DEVICE = 0xD4"
| "command_code I8042_COMMAND_READ_TEST_PORT = 0xE0"
| "command_code I8042_COMMAND_PULSE_OUTPUT_PORT_BASE = 0xF0"
| "command_code I8042_COMMAND_PULSE_SYSTEM_RESET = 0xFE"

datatype i8042_keyboard_command_t =
    I8042_KEYBOARD_COMMAND_SET_LEDS | I8042_KEYBOARD_COMMAND_ECHO
   | I8042_KEYBOARD_COMMAND_SET_SCAN_CODE_SET | I8042_KEYBOARD_COMMAND_READ_ID
   | I8042_KEYBOARD_COMMAND_SET_TYPEMATIC | I8042_KEYBOARD_COMMAND_ENABLE_SCANNING
   | I8042_KEYBOARD_COMMAND_DISABLE_SCANNING | I8042_KEYBOARD_COMMAND_SET_DEFAULTS
   | I8042_KEYBOARD_COMMAND_ALL_TYPEMATIC | I8042_KEYBOARD_COMMAND_ALL_MAKE_BREAK
   | I8042_KEYBOARD_COMMAND_ALL_MAKE | I8042_KEYBOARD_COMMAND_ALL_TYPEMATIC_MB
   | I8042_KEYBOARD_COMMAND_RESEND | I8042_KEYBOARD_COMMAND_RESET

primrec keyboard_code :: "i8042_keyboard_command_t \<Rightarrow> u8" where
  "keyboard_code I8042_KEYBOARD_COMMAND_SET_LEDS = 0xED"
| "keyboard_code I8042_KEYBOARD_COMMAND_ECHO = 0xEE"
| "keyboard_code I8042_KEYBOARD_COMMAND_SET_SCAN_CODE_SET = 0xF0"
| "keyboard_code I8042_KEYBOARD_COMMAND_READ_ID = 0xF2"
| "keyboard_code I8042_KEYBOARD_COMMAND_SET_TYPEMATIC = 0xF3"
| "keyboard_code I8042_KEYBOARD_COMMAND_ENABLE_SCANNING = 0xF4"
| "keyboard_code I8042_KEYBOARD_COMMAND_DISABLE_SCANNING = 0xF5"
| "keyboard_code I8042_KEYBOARD_COMMAND_SET_DEFAULTS = 0xF6"
| "keyboard_code I8042_KEYBOARD_COMMAND_ALL_TYPEMATIC = 0xF7"
| "keyboard_code I8042_KEYBOARD_COMMAND_ALL_MAKE_BREAK = 0xF8"
| "keyboard_code I8042_KEYBOARD_COMMAND_ALL_MAKE = 0xF9"
| "keyboard_code I8042_KEYBOARD_COMMAND_ALL_TYPEMATIC_MB = 0xFA"
| "keyboard_code I8042_KEYBOARD_COMMAND_RESEND = 0xFE"
| "keyboard_code I8042_KEYBOARD_COMMAND_RESET = 0xFF"

datatype i8042_mouse_command_t =
    I8042_MOUSE_COMMAND_SET_SCALING_1_1 | I8042_MOUSE_COMMAND_SET_SCALING_2_1
   | I8042_MOUSE_COMMAND_SET_RESOLUTION | I8042_MOUSE_COMMAND_STATUS_REQUEST
   | I8042_MOUSE_COMMAND_SET_STREAM_MODE | I8042_MOUSE_COMMAND_READ_DATA
   | I8042_MOUSE_COMMAND_RESET_WRAP_MODE | I8042_MOUSE_COMMAND_SET_WRAP_MODE
   | I8042_MOUSE_COMMAND_SET_REMOTE_MODE | I8042_MOUSE_COMMAND_READ_ID
   | I8042_MOUSE_COMMAND_SET_SAMPLE_RATE | I8042_MOUSE_COMMAND_ENABLE_DATA_REPORTING
   | I8042_MOUSE_COMMAND_DISABLE_DATA_REPORTING | I8042_MOUSE_COMMAND_SET_DEFAULTS
   | I8042_MOUSE_COMMAND_RESEND | I8042_MOUSE_COMMAND_RESET

primrec mouse_code :: "i8042_mouse_command_t \<Rightarrow> u8" where
  "mouse_code I8042_MOUSE_COMMAND_SET_SCALING_1_1 = 0xE6"
| "mouse_code I8042_MOUSE_COMMAND_SET_SCALING_2_1 = 0xE7"
| "mouse_code I8042_MOUSE_COMMAND_SET_RESOLUTION = 0xE8"
| "mouse_code I8042_MOUSE_COMMAND_STATUS_REQUEST = 0xE9"
| "mouse_code I8042_MOUSE_COMMAND_SET_STREAM_MODE = 0xEA"
| "mouse_code I8042_MOUSE_COMMAND_READ_DATA = 0xEB"
| "mouse_code I8042_MOUSE_COMMAND_RESET_WRAP_MODE = 0xEC"
| "mouse_code I8042_MOUSE_COMMAND_SET_WRAP_MODE = 0xEE"
| "mouse_code I8042_MOUSE_COMMAND_SET_REMOTE_MODE = 0xF0"
| "mouse_code I8042_MOUSE_COMMAND_READ_ID = 0xF2"
| "mouse_code I8042_MOUSE_COMMAND_SET_SAMPLE_RATE = 0xF3"
| "mouse_code I8042_MOUSE_COMMAND_ENABLE_DATA_REPORTING = 0xF4"
| "mouse_code I8042_MOUSE_COMMAND_DISABLE_DATA_REPORTING = 0xF5"
| "mouse_code I8042_MOUSE_COMMAND_SET_DEFAULTS = 0xF6"
| "mouse_code I8042_MOUSE_COMMAND_RESEND = 0xFE"
| "mouse_code I8042_MOUSE_COMMAND_RESET = 0xFF"

text \<open>Commands are ordered as their codes, as the enumeration's constants are.\<close>

lemma command_code_inj: "command_code a = command_code b \<longleftrightarrow> a = b"
  by (cases a; cases b; simp)

instantiation i8042_command_t :: linorder
begin

definition less_eq_i8042_command_t :: "i8042_command_t \<Rightarrow> i8042_command_t \<Rightarrow> bool" where
  "less_eq_i8042_command_t a b \<longleftrightarrow> command_code a \<le> command_code b"

definition less_i8042_command_t :: "i8042_command_t \<Rightarrow> i8042_command_t \<Rightarrow> bool" where
  "less_i8042_command_t a b \<longleftrightarrow> command_code a < command_code b"

instance
  by standard (auto simp: less_eq_i8042_command_t_def less_i8042_command_t_def simp flip: command_code_inj)

end

section \<open>The ports\<close>

definition i8042_status :: "'a machine_scheme \<Rightarrow> u8 \<times> 'a machine_scheme" where
  "i8042_status s = io_port_inb 0x64 s"

definition i8042_command :: "i8042_command_t \<Rightarrow> 'a machine_scheme \<Rightarrow> 'a machine_scheme" where
  "i8042_command command s = io_port_outb 0x64 (command_code command) s"

definition output_full :: "u8 \<Rightarrow> bool" where
  "output_full st \<longleftrightarrow> get_field i8042_status_ps2_t ''output_buffer_full'' st \<noteq> 0
     \<or> get_field i8042_status_ps2_t ''mouse_output_buffer_full'' st \<noteq> 0"

definition input_free :: "u8 \<Rightarrow> bool" where
  "input_free st \<longleftrightarrow> get_field i8042_status_ps2_t ''input_buffer_full'' st = 0"

text \<open>
  \<open>while( retry-- )\<close>: the value of \<open>retry\<close> after the loop with the state. The decrement that
  ends the loop wraps around.
\<close>

primrec i8042_read_loop :: "nat \<Rightarrow> 'a machine_scheme \<Rightarrow> u32 \<times> 'a machine_scheme" where
  "i8042_read_loop 0 s = (- 1, s)"
| "i8042_read_loop (Suc retry) s =
     (let (st, s) = i8042_status s
      in if output_full st then (of_nat retry, s) else i8042_read_loop retry s)"

primrec i8042_write_loop :: "nat \<Rightarrow> 'a machine_scheme \<Rightarrow> u32 \<times> 'a machine_scheme" where
  "i8042_write_loop 0 s = (- 1, s)"
| "i8042_write_loop (Suc retry) s =
     (let (st, s) = i8042_status s
      in if input_free st then (of_nat retry, s) else i8042_write_loop retry s)"

definition i8042_read :: "'a machine_scheme \<Rightarrow> u8 \<times> 'a machine_scheme" where
  "i8042_read s =
     (let (retry, s) = i8042_read_loop 500 s
      in if retry = 0 then (0x00, s) else io_port_inb 0x60 s)"

definition i8042_write :: "u8 \<Rightarrow> 'a machine_scheme \<Rightarrow> 'a machine_scheme" where
  "i8042_write data s =
     (let (retry, s) = i8042_write_loop 500 s
      in if retry = 0 then s else io_port_outb 0x60 data s)"

definition i8042_command_set :: "i8042_command_t \<Rightarrow> u8 \<Rightarrow> 'a machine_scheme \<Rightarrow> 'a machine_scheme" where
  "i8042_command_set command val s = i8042_write val (i8042_command command s)"

definition i8042_command_get :: "i8042_command_t \<Rightarrow> 'a machine_scheme \<Rightarrow> u8 \<times> 'a machine_scheme" where
  "i8042_command_get command s = i8042_read (i8042_command command s)"

section \<open>The handler and the initialisation\<close>

definition i8042_irq_handler ::
  "u32 \<Rightarrow> idt_registers \<Rightarrow> u32 \<Rightarrow> idt_cpu_frame \<Rightarrow> 'a lapic_scheme \<Rightarrow> 'a lapic_scheme outcome" where
  "i8042_irq_handler vector regs error cpu s =
     (let (c, s) = i8042_read s;
          s = lapic_eio vector s
      in Returned (print ''i8042: %u|'' [Num (ucast c)] s))"

text \<open>
  The initialisation in its parts: up to the self test (whether it passed, whether there are two
  channels, and the configuration byte), the two interface tests, and the enabling.
\<close>

definition i8042_self_test :: "'a machine_scheme \<Rightarrow> bool \<times> bool \<times> u8 \<times> 'a machine_scheme" where
  "i8042_self_test s =
     (let s = print ''Initializing Keyborad & Mouse i8042 !\<newline>'' [] s;
          s = i8042_command I8042_COMMAND_DISABLE_KEYBOARD_INTERFACE s;
          s = i8042_command I8042_COMMAND_DISABLE_MOUSE_INTERFACE s;
          (_, s) = i8042_read s;
          (cb, s) = i8042_command_get I8042_COMMAND_READ_COMMAND_BYTE s;
          cb = set_field i8042_command_byte_t ''keyboard_interrupt'' 0 cb;
          cb = set_field i8042_command_byte_t ''mouse_interrupt'' 0 cb;
          (dual_channel, s) =
            (if get_field i8042_command_byte_t ''mouse_port_clock'' cb \<noteq> 0
             then (True, print ''    detected dual channel controller\<newline>'' [] s) else (False, s));
          s = print ''    controller self test: '' [] s;
          (r, s) = i8042_command_get I8042_COMMAND_CONTROLLER_SELF_TEST s
      in if r = 0x55 then (True, dual_channel, cb, print ''pass\<newline>'' [] s)
         else (False, dual_channel, cb, print ''fail\<newline>'' [] s))"

definition i8042_keyboard_test :: "u8 \<Rightarrow> 'a idt_scheme \<Rightarrow> u8 \<times> 'a idt_scheme" where
  "i8042_keyboard_test cb s =
     (let s = print ''    keyboard interface test: '' [] s;
          (r, s) = i8042_command_get I8042_COMMAND_KEYBOARD_INTERFACE_TEST s
      in if r = 0x00 then
           let s = print ''pass\<newline>'' [] s;
               cb = set_field i8042_command_byte_t ''keyboard_interrupt'' 1 cb
           in (cb, idt_set_interrupt_handler 33 I8042_irq_handler s)
         else (cb, print ''fail\<newline>'' [] s))"

definition i8042_mouse_test :: "bool \<Rightarrow> u8 \<Rightarrow> 'a idt_scheme \<Rightarrow> u8 \<times> 'a idt_scheme" where
  "i8042_mouse_test dual_channel cb s =
     (let s = print ''    mouse interface test: '' [] s;
          (ok, s) = (if dual_channel then
              let (r, s) = i8042_command_get I8042_COMMAND_MOUSE_INTERFACE_TEST s in (r = 0x00, s)
            else (False, s))
      in if ok then
           let s = print ''pass\<newline>'' [] s;
               cb = set_field i8042_command_byte_t ''mouse_interrupt'' 1 cb
           in (cb, idt_set_interrupt_handler 44 I8042_irq_handler s)
         else (cb, print ''fail\<newline>'' [] s))"

definition i8042_enable :: "u8 \<Rightarrow> 'a machine_scheme \<Rightarrow> 'a machine_scheme" where
  "i8042_enable cb s =
     (let cb = set_field i8042_command_byte_t ''keyboard_translation'' 1 cb;
          cb = set_field i8042_command_byte_t ''system_flag'' 1 cb;
          s = i8042_command_set I8042_COMMAND_WRITE_COMMAND_BYTE cb s;
          s = (if get_field i8042_command_byte_t ''keyboard_interrupt'' cb \<noteq> 0 then
              let s = print ''    enabling keyboard interface\<newline>'' [] s
              in i8042_command I8042_COMMAND_ENABLE_KEYBOARD_INTERFACE s else s)
      in if get_field i8042_command_byte_t ''mouse_interrupt'' cb \<noteq> 0 then
           let s = print ''    enabling mouse interface\<newline>'' [] s
           in i8042_command I8042_COMMAND_ENABLE_MOUSE_INTERFACE s
         else s)"

definition i8042_init :: "'a idt_scheme \<Rightarrow> 'a idt_scheme" where
  "i8042_init s =
     (let (passed, dual_channel, cb, s) = i8042_self_test s
      in if \<not> passed then s
         else
           let (cb, s) = i8042_keyboard_test cb s;
               (cb, s) = i8042_mouse_test dual_channel cb s
           in i8042_enable cb s)"

section \<open>Polling with a bound\<close>

text \<open>The state after \<open>k\<close> reads of the status, and what the next one returns.\<close>

primrec status_polls :: "nat \<Rightarrow> 'a machine_scheme \<Rightarrow> 'a machine_scheme" where
  "status_polls 0 s = s"
| "status_polls (Suc k) s = snd (i8042_status (status_polls k s))"

definition status_at :: "nat \<Rightarrow> 'a machine_scheme \<Rightarrow> u8" where
  "status_at k s = fst (i8042_status (status_polls k s))"

lemma polls_next: "status_polls k (snd (i8042_status s)) = status_polls (Suc k) s"
  by (induction k) simp_all

lemma status_next: "status_at k (snd (i8042_status s)) = status_at (Suc k) s"
  by (simp only: status_at_def polls_next)

text \<open>A loop that reads the status until it is ready, at most \<open>n\<close> times.\<close>

locale bounded_poll =
  fixes ready :: "u8 \<Rightarrow> bool" and loop :: "nat \<Rightarrow> 'a machine_scheme \<Rightarrow> u32 \<times> 'a machine_scheme"
  assumes loop_0: "loop 0 s = (- 1, s)"
    and loop_Suc: "loop (Suc n) s = (let (st, s) = i8042_status s in if ready st then (of_nat n, s) else loop n s)"
begin

lemma loop_ready:
  "k < n \<Longrightarrow> ready (status_at k s) \<Longrightarrow> \<forall>i < k. \<not> ready (status_at i s) \<Longrightarrow>
   loop n s = (of_nat (n - Suc k), status_polls (Suc k) s)"
proof (induction k arbitrary: n s)
  case 0
  then obtain m where "n = Suc m" by (cases n) auto
  with 0 show ?case by (simp add: loop_Suc split_beta Let_def status_at_def)
next
  case (Suc k)
  then obtain m where n: "n = Suc m" by (cases n) auto
  have "\<not> ready (status_at 0 s)" using Suc.prems(3) by blast
  then have "loop n s = loop m (snd (i8042_status s))"
    by (simp add: n loop_Suc split_beta Let_def status_at_def)
  moreover have "\<forall>i < k. \<not> ready (status_at i (snd (i8042_status s)))"
    using Suc.prems(3) by (simp add: status_next)
  ultimately show ?case
    using Suc.IH [of m "snd (i8042_status s)"] Suc.prems(1,2) by (simp add: n status_next polls_next del: status_polls.simps)
qed

lemma loop_exhausted: "\<forall>i < n. \<not> ready (status_at i s) \<Longrightarrow> loop n s = (- 1, status_polls n s)"
proof (induction n arbitrary: s)
  case (Suc n)
  then have "\<not> ready (status_at 0 s)" "\<forall>i < n. \<not> ready (status_at i (snd (i8042_status s)))"
    by (auto simp: status_next)
  then show ?case using Suc.IH by (simp add: loop_Suc split_beta Let_def status_at_def polls_next del: status_polls.simps(2))
qed (simp add: loop_0)

lemma loop_polls: "\<exists>k. snd (loop n s) = status_polls k s"
proof (induction n arbitrary: s)
  case 0
  then show ?case by (intro exI [of _ 0]) (simp add: loop_0)
next
  case (Suc n)
  obtain k where "snd (loop n (snd (i8042_status s))) = status_polls (Suc k) s"
    using Suc.IH unfolding polls_next [symmetric] by blast
  moreover have "snd (i8042_status s) = status_polls (Suc 0) s" by simp
  moreover have "snd (loop (Suc n) s) = snd (i8042_status s)
      \<or> snd (loop (Suc n) s) = snd (loop n (snd (i8042_status s)))"
    by (simp add: loop_Suc split_beta Let_def)
  ultimately show ?case by (auto simp del: status_polls.simps)
qed

text \<open>The counter after the loop is 0 exactly when the last poll is the first that is ready.\<close>

lemma loop_cases:
  assumes "k \<le> n" "\<forall>i < k. \<not> ready (status_at i s)" "k < n \<longrightarrow> ready (status_at k s)" "0 < n" "n < 2 ^ 32"
  shows "snd (loop n s) = status_polls (min (k + 1) n) s" "fst (loop n s) = 0 \<longleftrightarrow> Suc k = n"
proof -
  have "snd (loop n s) = status_polls (min (k + 1) n) s \<and> (fst (loop n s) = 0 \<longleftrightarrow> Suc k = n)"
  proof (cases "k < n")
    case True
    then have eq: "loop n s = (of_nat (n - Suc k), status_polls (Suc k) s)"
      using loop_ready assms(2,3) by blast
    have "unat (of_nat (n - Suc k) :: u32) = n - Suc k"
      using assms(5) by (simp add: unat_of_nat take_bit_nat_eq_self del: of_nat_diff)
    then have "of_nat (n - Suc k) = (0 :: u32) \<longleftrightarrow> n - Suc k = 0" by (metis unat_eq_0)
    then show ?thesis using True unfolding eq by (auto simp: min_def simp del: of_nat_diff status_polls.simps)
  next
    case False
    then have "k = n" using assms(1) by simp
    then show ?thesis using loop_exhausted [of n s] assms(2) by simp
  qed
  then show "snd (loop n s) = status_polls (min (k + 1) n) s" "fst (loop n s) = 0 \<longleftrightarrow> Suc k = n" by simp_all
qed

end

interpretation reading: bounded_poll output_full i8042_read_loop
  by unfold_locales simp_all

interpretation writing: bounded_poll input_free i8042_write_loop
  by unfold_locales simp_all

text \<open>C26. Let poll number \<open>k\<close> be the first of 500 that finds data in the output buffer, or \<open>k = 500\<close>
  when none does. \<open>i8042_read\<close> then reads the data port after its polls, also when all of them
  failed: the counter has wrapped around and is not 0. Only when the very last poll succeeds does
  it return 0, leaving the data byte where it is. \<open>i8042_write\<close> with a free input buffer is the
  same: a byte is lost exactly when the last poll succeeds, and sent when all polls fail.\<close>

theorem i8042_polls:
  assumes "k \<le> 500" and "\<forall>i < k. \<not> output_full (status_at i s)" and "k < 500 \<longrightarrow> output_full (status_at k s)"
    and "l \<le> 500" and "\<forall>i < l. \<not> input_free (status_at i s)" and "l < 500 \<longrightarrow> input_free (status_at l s)"
  shows "i8042_read s = (if k = 499 then (0, status_polls 500 s)
      else io_port_inb 0x60 (status_polls (min (k + 1) 500) s))
    \<and> i8042_write b s = (if l = 499 then status_polls 500 s
      else io_port_outb 0x60 b (status_polls (min (l + 1) 500) s))"
  using reading.loop_cases [OF assms(1,2,3)] writing.loop_cases [OF assms(4,5,6)]
  unfolding i8042_read_def i8042_write_def split_beta Let_def by (simp del: i8042_read_loop.simps i8042_write_loop.simps status_polls.simps)

section \<open>Port traffic\<close>

definition port_event :: "event \<Rightarrow> bool" where
  "port_event e = (case e of OutB p x \<Rightarrow> True | OutW p x \<Rightarrow> True | OutD p x \<Rightarrow> True
     | InB p x \<Rightarrow> True | InW p x \<Rightarrow> True | InD p x \<Rightarrow> True | Print f as \<Rightarrow> True | _ \<Rightarrow> False)"

text \<open>A step that adds port traffic and output to the trace and changes nothing else.\<close>

definition port_step :: "'a machine_scheme \<Rightarrow> 'a machine_scheme \<Rightarrow> bool" where
  "port_step s t \<longleftrightarrow> (\<exists>es. trace t = trace s @ es \<and> list_all port_event es) \<and> hw t = hw s
     \<and> machine.more t = machine.more s"

lemma port_step_refl [simp]: "port_step s s"
  by (auto simp: port_step_def intro: exI [of _ "[]"])

lemma port_step_trans: "port_step s t \<Longrightarrow> port_step t u \<Longrightarrow> port_step s u"
  by (force simp: port_step_def)

lemma port_step_emit: "port_event e \<Longrightarrow> port_step s t \<Longrightarrow> port_step s (emit e t)"
  by (force simp: port_step_def)

lemma port_step_ops:
  "port_step s t \<Longrightarrow> port_step s (print f as t)"
  "port_step s t \<Longrightarrow> port_step s (io_port_outb p b t)"
  "port_step s t \<Longrightarrow> port_step s (snd (io_port_inb p t))"
  "port_step s t \<Longrightarrow> port_step s (io_port_outw p h t)"
  "port_step s t \<Longrightarrow> port_step s (snd (io_port_inw p t))"
  "port_step s t \<Longrightarrow> port_step s (snd (io_port_indw p t))"
  by (simp_all add: machine_defs Let_def port_step_emit port_event_def)

lemma port_step_polls: "port_step s t \<Longrightarrow> port_step s (status_polls k t)"
  by (induction k) (simp_all add: i8042_status_def port_step_ops)

lemma port_step_loops:
  "port_step s t \<Longrightarrow> port_step s (snd (i8042_read_loop n t))"
  "port_step s t \<Longrightarrow> port_step s (snd (i8042_write_loop n t))"
  using reading.loop_polls [of n t] writing.loop_polls [of n t] by (auto simp: port_step_polls)

lemma port_step_i8042:
  "port_step s t \<Longrightarrow> port_step s (i8042_command c t)"
  "port_step s t \<Longrightarrow> port_step s (snd (i8042_read t))"
  "port_step s t \<Longrightarrow> port_step s (i8042_write b t)"
  "port_step s t \<Longrightarrow> port_step s (i8042_command_set c b t)"
  "port_step s t \<Longrightarrow> port_step s (snd (i8042_command_get c t))"
  by (auto simp: i8042_command_def i8042_read_def i8042_write_def i8042_command_set_def i8042_command_get_def
      port_step_ops port_step_loops split_beta Let_def)

lemmas port_steps = port_step_ops port_step_i8042

text \<open>What survives port traffic.\<close>

lemma port_step_hw: "port_step s t \<Longrightarrow> hw t = hw s"
  by (simp add: port_step_def)

lemma port_step_eois: "port_step s t \<Longrightarrow> eois b (trace t) = eois b (trace s)"
proof -
  have "eois b es = 0" if "list_all port_event es" for es
    using that by (auto simp: eois_def list_all_iff port_event_def filter_empty_conv split: event.splits)
  then show "port_step s t \<Longrightarrow> eois b (trace t) = eois b (trace s)" by (auto simp: port_step_def)
qed

lemma port_step_ioapic: "port_step s t \<Longrightarrow> ioapic_regs r t = ioapic_regs r s"
proof -
  have "fold ioapic_event es c = c" if "list_all port_event es" for es c
    using that by (induction es arbitrary: c) (auto simp: port_event_def ioapic_event_def split: event.splits)
  note other = this
  assume "port_step s t"
  then obtain es where "trace t = trace s @ es" "list_all port_event es" by (auto simp: port_step_def)
  then show "ioapic_regs r t = ioapic_regs r s"
    by (simp only: ioapic_regs_def ioapic_after_def fold_append comp_apply other)
qed

lemma port_step_answers: "port_step s t \<Longrightarrow> ioapic_answers r t = ioapic_answers r s"
  by (simp add: port_step_def ioapic_answers_def)

lemma port_step_lapic:
  fixes s t :: "'a lapic_scheme"
  assumes "port_step s t" shows "lapic_base t = lapic_base s"
  using assms lapic_more [of t s] by (simp add: port_step_def)

lemma port_step_idt:
  fixes s t :: "'a idt_scheme"
  assumes "port_step s t"
  shows "idt_gate_callback t = idt_gate_callback s" "idt_gate t = idt_gate s"
  using assms by (cases s; cases t; simp add: port_step_def)+

section \<open>The handler and the initialisation\<close>

lemma acknowledged:
  fixes s t u :: "'a lapic_scheme"
  assumes "port_step s t" "port_step (lapic_eio v t) u"
  shows "eois (lapic_base s) (trace u) = Suc (eois (lapic_base s) (trace s))" "lapic_base u = lapic_base s"
  using port_step_eois [OF assms(1)] port_step_eois [OF assms(2)] port_step_lapic [OF assms(1)]
    port_step_lapic [OF assms(2)] by (simp_all add: lapic_eio_emit)

interpretation i8042: acknowledging i8042_irq_handler
proof unfold_locales
  fix v r e f and s t :: "'a lapic_scheme"
  assume "i8042_irq_handler v r e f s = Returned t"
  then have "t = print ''i8042: %u|'' [Num (ucast (fst (i8042_read s)))] (lapic_eio v (snd (i8042_read s)))"
    by (auto simp: i8042_irq_handler_def split_beta Let_def)
  moreover have "port_step s (snd (i8042_read s))" by (simp add: port_steps)
  ultimately show "eois (lapic_base s) (trace t) = Suc (eois (lapic_base s) (trace s))"
    "lapic_base t = lapic_base s" using acknowledged [of s "snd (i8042_read s)" v t] by (simp_all add: port_steps)
qed

lemma command_byte_flags:
  "set_field i8042_command_byte_t ''keyboard_interrupt'' 1 cb = set_bit 0 cb"
  "set_field i8042_command_byte_t ''keyboard_interrupt'' 0 cb = unset_bit 0 cb"
  "set_field i8042_command_byte_t ''mouse_interrupt'' 1 cb = set_bit 1 cb"
  "set_field i8042_command_byte_t ''mouse_interrupt'' 0 cb = unset_bit 1 cb"
  by (simp_all add: set_flag i8042_command_byte_t_def)

lemma self_test_result:
  assumes "i8042_self_test s = (passed, dual, cb, t)"
  shows "port_step s t" "\<not> bit cb 0" "\<not> bit cb 1"
  using assms
  by (auto simp: i8042_self_test_def split_beta Let_def command_byte_flags bit_simps port_steps split: if_splits)

lemma keyboard_test_result:
  fixes s :: "'a idt_scheme"
  assumes "i8042_keyboard_test cb s = (cb', t)" "\<not> bit cb 0"
  shows "idt_gate_callback t = (idt_gate_callback s)(33 := if bit cb' 0 then I8042_irq_handler else idt_gate_callback s 33)"
    and "bit cb' 1 = bit cb 1"
proof -
  define u where "u = snd (i8042_command_get I8042_COMMAND_KEYBOARD_INTERFACE_TEST
    (print ''    keyboard interface test: '' [] s))"
  have u: "port_step s (print f [] u)" for f by (simp add: u_def port_steps)
  show "idt_gate_callback t = (idt_gate_callback s)(33 := if bit cb' 0 then I8042_irq_handler else idt_gate_callback s 33)"
    "bit cb' 1 = bit cb 1"
    using assms port_step_idt(1) [OF u]
    by (auto simp: i8042_keyboard_test_def split_beta Let_def u_def [symmetric] command_byte_flags bit_simps
        idt_set_interrupt_handler_def split: if_splits)
qed

lemma mouse_test_result:
  fixes s :: "'a idt_scheme"
  assumes "i8042_mouse_test dual cb s = (cb', t)" "\<not> bit cb 1"
  shows "idt_gate_callback t = (idt_gate_callback s)(44 := if bit cb' 1 then I8042_irq_handler else idt_gate_callback s 44)"
    and "bit cb' 0 = bit cb 0"
proof -
  let ?s = "print ''    mouse interface test: '' [] s"
  define u where "u = (if dual then snd (i8042_command_get I8042_COMMAND_MOUSE_INTERFACE_TEST ?s) else ?s)"
  define ok where "ok = (if dual then fst (i8042_command_get I8042_COMMAND_MOUSE_INTERFACE_TEST ?s) = 0 else False)"
  have u: "port_step s (print f [] u)" for f by (simp add: u_def port_steps)
  have "(if dual then let (r, s) = i8042_command_get I8042_COMMAND_MOUSE_INTERFACE_TEST ?s in (r = 0x00, s)
    else (False, ?s)) = (ok, u)" by (simp add: ok_def u_def split_beta)
  then have "(cb', t) = (if ok then (set_bit 1 cb, idt_set_interrupt_handler 44 I8042_irq_handler (print ''pass\<newline>'' [] u))
      else (cb, print ''fail\<newline>'' [] u))"
    using assms(1) unfolding i8042_mouse_test_def by (simp add: Let_def command_byte_flags split: if_splits)
  then show "idt_gate_callback t = (idt_gate_callback s)(44 := if bit cb' 1 then I8042_irq_handler else idt_gate_callback s 44)"
    "bit cb' 0 = bit cb 0"
    using assms(2) port_step_idt(1) [OF u] by (auto simp: bit_simps idt_set_interrupt_handler_def split: if_splits)
qed

lemma enable_port: "port_step s (i8042_enable cb s)"
  by (simp add: i8042_enable_def Let_def port_steps)

lemma init_handlers:
  fixes s :: "'a idt_scheme"
  shows "case i8042_self_test s of (passed, dual, cb, u) \<Rightarrow>
     if \<not> passed then port_step s (i8042_init s)
     else case i8042_keyboard_test cb u of (cb1, u1) \<Rightarrow> case i8042_mouse_test dual cb1 u1 of (cb2, u2) \<Rightarrow>
       i8042_init s = i8042_enable cb2 u2
       \<and> idt_gate_callback (i8042_init s) = (idt_gate_callback s)
           (33 := if bit cb2 0 then I8042_irq_handler else idt_gate_callback s 33,
            44 := if bit cb2 1 then I8042_irq_handler else idt_gate_callback s 44)"
proof -
  obtain passed dual cb u where self: "i8042_self_test s = (passed, dual, cb, u)" by (rule prod_cases4)
  obtain cb1 u1 where kbd: "i8042_keyboard_test cb u = (cb1, u1)" by fastforce
  obtain cb2 u2 where mouse: "i8042_mouse_test dual cb1 u1 = (cb2, u2)" by fastforce
  note a = self_test_result [OF self] and b = keyboard_test_result [OF kbd]
  have c: "\<not> bit cb1 1" using a(3) b(2) [OF a(2)] by simp
  note d = mouse_test_result [OF mouse c]
  have "i8042_init s = (if passed then i8042_enable cb2 u2 else u)"
    by (simp add: i8042_init_def self kbd mouse)
  moreover have "idt_gate_callback (i8042_enable cb2 u2) = idt_gate_callback u2"
    by (rule port_step_idt(1) [OF enable_port])
  ultimately show ?thesis
    using a(1) b(1) [OF a(2)] d port_step_idt(1) [OF a(1)] by (auto simp: self kbd mouse fun_eq_iff)
qed

text \<open>When the self test fails, \<open>i8042_init\<close> returns after port traffic alone: no handler is
  installed. When it passes, exactly the handlers of the interfaces whose tests pass are
  installed, and the interrupt of a device is enabled in the configuration byte exactly when its
  handler is installed; no other entry of the handler table changes.\<close>

theorem i8042_init_handlers:
  fixes s :: "'a idt_scheme"
  shows "case i8042_self_test s of (passed, dual, cb, u) \<Rightarrow>
     if \<not> passed then port_step s (i8042_init s)
     else case i8042_keyboard_test cb u of (cb1, u1) \<Rightarrow> case i8042_mouse_test dual cb1 u1 of (cb2, u2) \<Rightarrow>
       i8042_init s = i8042_enable cb2 u2
       \<and> idt_gate_callback (i8042_init s) = (idt_gate_callback s)
           (33 := if bit cb2 0 then I8042_irq_handler else idt_gate_callback s 33,
            44 := if bit cb2 1 then I8042_irq_handler else idt_gate_callback s 44)"
  by (rule init_handlers)

lemma status_constant:
  assumes "\<And>es. port8 (hw s) es 0x64 = b" shows "status_at k s = b"
proof -
  have "hw (status_polls k s) = hw s" using port_step_polls [OF port_step_refl, of s k] by (simp add: port_step_def)
  then show ?thesis using assms by (simp add: status_at_def i8042_status_def)
qed

lemma i8042_polls_witness:
  fixes s :: machine
  defines "s \<equiv> \<lparr>hw = quiet\<lparr>port8 := \<lambda>es p. if p = 0x60 then 0x1C else 0\<rparr>, trace = []\<rparr>"
  shows "fst (i8042_read s) = 0x1C \<and> trace (i8042_write 0xF4 s) = [InB 0x64 0, OutB 0x60 0xF4]"
proof -
  have st: "status_at k s = 0" for k by (rule status_constant) (simp add: s_def)
  have full: "\<not> output_full 0" "input_free 0"
    by (simp_all add: output_full_def input_free_def i8042_status_ps2_t_def layout_eval)
  have p: "hw (status_polls k s) = hw s" for k
    using port_step_polls [OF port_step_refl, of s k] by (simp add: port_step_def)
  have one: "status_polls (Suc 0) s = emit (InB 0x64 0) s"
    by (simp add: i8042_status_def io_port_inb_def s_def)
  from i8042_polls [of 500 s 0 "0xF4"] have "i8042_read s = io_port_inb 0x60 (status_polls 500 s)"
    "i8042_write 0xF4 s = io_port_outb 0x60 0xF4 (status_polls (Suc 0) s)"
    by (simp_all add: st full del: status_polls.simps)
  then show ?thesis by (simp add: p one del: status_polls.simps) (simp add: s_def)
qed

end
