(* ===== verification/Kbd.thy ===== *)
theory Kbd
  imports I8042
begin

text \<open>
  The keyboard and the mouse, ksrc/drivers/kbd.h and kbd.c: the two interrupt handlers and the
  two initialisations, which talk to the devices with their line masked and wait for their
  answers, 512 reads at most.
\<close>

unbundle bit_operations_syntax

definition kbd_command_indicator_t :: layout where
  "kbd_command_indicator_t = [(''scroll_lock'', 1), (''numeric_lock'', 1), (''caps_lock'', 1),
     (''_r0'', 1), (''_r1'', 1), (''_r2'', 1), (''_r3'', 1), (''_r4'', 1)]"

section \<open>The handlers\<close>

definition kbd_irq_handler ::
  "u32 \<Rightarrow> idt_registers \<Rightarrow> u32 \<Rightarrow> idt_cpu_frame \<Rightarrow> 'a lapic_scheme \<Rightarrow> 'a lapic_scheme outcome" where
  "kbd_irq_handler vector regs error cpu s =
     (let (inp, s) = io_port_inb 0x60 s;
          s = lapic_eio vector s
      in if inp = 0xFA then Returned s
         else Returned (print ''KBD %u, IRQ %d |'' [Num (ucast inp), Num vector] s))"

definition mouse_irq_handler ::
  "u32 \<Rightarrow> idt_registers \<Rightarrow> u32 \<Rightarrow> idt_cpu_frame \<Rightarrow> 'a lapic_scheme \<Rightarrow> 'a lapic_scheme outcome" where
  "mouse_irq_handler vector regs error cpu s =
     (let (inp, s) = io_port_inb 0x60 s;
          s = lapic_eio vector s
      in if inp = 0xFA then Returned s
         else Returned (print ''MOUSE %u, IRQ %d |'' [Num (ucast inp), Num vector] s))"

section \<open>The initialisations\<close>

text \<open>\<open>while( timeout-- && i8042_read() != v )\<close> with the value of \<open>timeout\<close> after it.\<close>

primrec kbd_wait :: "u8 \<Rightarrow> nat \<Rightarrow> 'a machine_scheme \<Rightarrow> u32 \<times> 'a machine_scheme" where
  "kbd_wait v 0 s = (- 1, s)"
| "kbd_wait v (Suc timeout) s =
     (let (c, s) = i8042_read s
      in if c \<noteq> v then kbd_wait v timeout s else (of_nat timeout, s))"

definition kbd_init :: "'a idt_scheme \<Rightarrow> 'a idt_scheme" where
  "kbd_init s =
     (let s = idt_mask_interrupt 33 s;
          s = idt_set_interrupt_handler 33 Kbd_irq_handler s;
          s = i8042_write (keyboard_code I8042_KEYBOARD_COMMAND_ENABLE_SCANNING) s;
          (timeout, s) = kbd_wait 0xFA 512 s;
          s = i8042_write (keyboard_code I8042_KEYBOARD_COMMAND_ECHO) s;
          (timeout, s) = kbd_wait 0xEE 512 s;
          s = i8042_write (keyboard_code I8042_KEYBOARD_COMMAND_SET_LEDS) s;
          (timeout, s) = kbd_wait 0xFA 512 s;
          s = i8042_write 0x00 s;
          (timeout, s) = kbd_wait 0xFA 512 s;
          s = (if timeout > 0 then print ''    keyboard ACK !\<newline>'' [] s else s)
      in idt_unmask_interrupt 33 s)"

definition mouse_init :: "'a idt_scheme \<Rightarrow> 'a idt_scheme" where
  "mouse_init s =
     (let s = idt_mask_interrupt 44 s;
          s = idt_set_interrupt_handler 44 Mouse_irq_handler s;
          s = i8042_command_set I8042_COMMAND_WRITE_MOUSE_DEVICE
                (mouse_code I8042_MOUSE_COMMAND_ENABLE_DATA_REPORTING) s;
          (timeout, s) = kbd_wait 0xFA 512 s;
          s = (if timeout > 0 then print ''    mouse ACK !\<newline>'' [] s else s)
      in idt_unmask_interrupt 44 s)"

section \<open>What they do\<close>

lemma port_step_wait: "port_step s t \<Longrightarrow> port_step s (snd (kbd_wait v n t))"
  by (induction n arbitrary: t) (simp_all add: split_beta Let_def port_steps)

lemma handler_returns:
  fixes s :: "'a lapic_scheme"
  shows "kbd_irq_handler v r e f s = Returned t \<Longrightarrow>
      port_step (lapic_eio v (snd (io_port_inb 0x60 s))) t"
    and "mouse_irq_handler v r e f s = Returned t \<Longrightarrow>
      port_step (lapic_eio v (snd (io_port_inb 0x60 s))) t"
  by (auto simp: kbd_irq_handler_def mouse_irq_handler_def split_beta Let_def port_steps split: if_splits)

interpretation kbd: acknowledging kbd_irq_handler
proof unfold_locales
  fix v r e f and s t :: "'a lapic_scheme"
  assume "kbd_irq_handler v r e f s = Returned t"
  from acknowledged [OF _ handler_returns(1) [OF this]]
  show "eois (lapic_base s) (trace t) = Suc (eois (lapic_base s) (trace s))" "lapic_base t = lapic_base s"
    by (simp_all add: port_steps)
qed

interpretation mouse: acknowledging mouse_irq_handler
proof unfold_locales
  fix v r e f and s t :: "'a lapic_scheme"
  assume "mouse_irq_handler v r e f s = Returned t"
  from acknowledged [OF _ handler_returns(2) [OF this]]
  show "eois (lapic_base s) (trace t) = Suc (eois (lapic_base s) (trace s))" "lapic_base t = lapic_base s"
    by (simp_all add: port_steps)
qed

text \<open>Both initialisations: mask, install, talk to the device, wait for its answer, unmask.\<close>

definition finish :: "string \<Rightarrow> u8 \<Rightarrow> u32 \<times> 'a machine_scheme \<Rightarrow> 'a machine_scheme" where
  "finish msg v w = idt_unmask_interrupt v (if fst w > 0 then print msg [] (snd w) else snd w)"

lemma inits_split:
  fixes s :: "'a idt_scheme"
  shows "\<exists>u. kbd_init s = finish ''    keyboard ACK !\<newline>'' 33 (kbd_wait 0xFA 512 u)
      \<and> port_step (idt_set_interrupt_handler 33 Kbd_irq_handler (idt_mask_interrupt 33 s)) u"
    and "\<exists>u. mouse_init s = finish ''    mouse ACK !\<newline>'' 44 (kbd_wait 0xFA 512 u)
      \<and> port_step (idt_set_interrupt_handler 44 Mouse_irq_handler (idt_mask_interrupt 44 s)) u"
  unfolding kbd_init_def mouse_init_def finish_def split_beta Let_def
  by (rule exI, rule conjI [OF refl], simp add: port_steps port_step_wait del: kbd_wait.simps)+

text \<open>The wait for an answer that does not come ends with the counter wrapped around.\<close>

lemma wait_in_vain:
  assumes "\<And>es. port8 (hw s) es 0x60 \<noteq> v" "v \<noteq> 0"
  shows "fst (kbd_wait v n s) = - 1"
  using assms(1)
proof (induction n arbitrary: s)
  case (Suc n)
  have loop: "hw (snd (i8042_read_loop 500 s)) = hw s" "hw (snd (i8042_read s)) = hw s"
    by (rule port_step_hw, rule port_step_loops(1) port_step_i8042(2), rule port_step_refl)+
  have "fst (i8042_read s) \<noteq> v"
    using Suc.prems assms(2) loop(1) by (simp add: i8042_read_def split_beta Let_def del: i8042_read_loop.simps)
  then show ?case using Suc loop(2) by (simp add: split_beta Let_def)
qed simp

lemma mask_more:
  "machine.more (idt_mask_interrupt v s) = machine.more s"
  "machine.more (idt_unmask_interrupt v s) = machine.more s"
  by (simp_all add: idt_mask_interrupt_def idt_unmask_interrupt_def ioapic_read_def ioapic_write_def split_beta Let_def)

lemma mask_hw: "hw (idt_mask_interrupt v s) = hw s"
  by (simp add: idt_mask_interrupt_def ioapic_read_def ioapic_write_def split_beta Let_def)

lemma unmask_trace: "set (trace s) \<subseteq> set (trace (idt_unmask_interrupt v s))"
  by (auto simp: idt_unmask_interrupt_def ioapic_read_def ioapic_write_def split_beta Let_def)

lemma callback_more:
  fixes s t :: "'a idt_scheme"
  shows "machine.more t = machine.more s \<Longrightarrow> idt_gate_callback t = idt_gate_callback s"
  by (cases s; cases t) simp

lemma unset_set_bit: "unset_bit n (set_bit n x) = (unset_bit n x :: u32)"
  by (rule bit_word_eqI) (auto simp: bit_simps)

lemma finish_effect:
  fixes s :: "'a idt_scheme"
  assumes "ioapic_answers r s" "32 \<le> v" "v < 152"
    and u: "port_step (idt_set_interrupt_handler v h (idt_mask_interrupt v s)) u" and w: "port_step u (snd w)"
  shows "ioapic_regs r (finish msg v w)
      = (ioapic_regs r s)(line_of v := unset_bit 16 (ioapic_regs r s (line_of v)))
    \<and> idt_gate_callback (finish msg v w) = (idt_gate_callback s)(unat v := h)"
proof -
  define t where "t = (if fst w > 0 then print msg [] (snd w) else snd w)"
  let ?s = "idt_set_interrupt_handler v h (idt_mask_interrupt v s)"
  have t: "port_step ?s t" using port_step_trans [OF u w] by (simp add: t_def port_steps)
  have "ioapic_regs r ?s = ioapic_regs r (idt_mask_interrupt v s)"
    "ioapic_answers r ?s = ioapic_answers r (idt_mask_interrupt v s)"
    by (simp_all add: ioapic_regs_def ioapic_answers_def)
  then have "ioapic_answers r t"
    "ioapic_regs r t = (ioapic_regs r s)(line_of v := set_bit 16 (ioapic_regs r s (line_of v)))"
    using assms(1) port_step_ioapic [OF t] port_step_answers [OF t]
    by (simp_all add: mask_modify [OF assms(2,3)] ioapic.modify_bank ioapic.modify_ok)
  then have "ioapic_regs r (idt_unmask_interrupt v t)
      = (ioapic_regs r s)(line_of v := unset_bit 16 (ioapic_regs r s (line_of v)))"
    by (simp add: mask_modify [OF assms(2,3)] ioapic.modify_bank unset_set_bit)
  moreover have "idt_gate_callback (idt_unmask_interrupt v t) = (idt_gate_callback s)(unat v := h)"
    using callback_more [OF mask_more(2), of v t] port_step_idt(1) [OF t] callback_more [OF mask_more(1), of v s]
    by (simp add: idt_set_interrupt_handler_def)
  ultimately show ?thesis by (simp add: finish_def t_def)
qed

lemma finish_callbacks:
  fixes s :: "'a idt_scheme"
  assumes "port_step (idt_set_interrupt_handler v h (idt_mask_interrupt v s)) u" "port_step u (snd w)"
  shows "idt_gate_callback (finish msg v w) = (idt_gate_callback s)(unat v := h)"
proof -
  define t where "t = (if fst w > 0 then print msg [] (snd w) else snd w)"
  have "port_step (idt_set_interrupt_handler v h (idt_mask_interrupt v s)) t"
    using port_step_trans [OF assms] by (simp add: t_def port_steps)
  then show ?thesis
    using callback_more [OF mask_more(2), of v t] callback_more [OF mask_more(1), of v s]
      port_step_idt(1) by (fastforce simp: finish_def t_def [symmetric] idt_set_interrupt_handler_def)
qed

lemma inits_callbacks:
  fixes s :: "'a idt_scheme"
  shows "idt_gate_callback (kbd_init s) = (idt_gate_callback s)(33 := Kbd_irq_handler)"
    "idt_gate_callback (mouse_init s) = (idt_gate_callback s)(44 := Mouse_irq_handler)"
  using inits_split [of s] finish_callbacks [OF _ port_step_wait [OF port_step_refl]]
  by (fastforce simp del: kbd_wait.simps)+

lemma inits_effect:
  fixes s :: "'a idt_scheme"
  assumes "ioapic_answers r s"
  shows "idt_gate_callback (kbd_init s) = (idt_gate_callback s)(33 := Kbd_irq_handler)
    \<and> ioapic_regs r (kbd_init s) = (ioapic_regs r s)(line_of 33 := unset_bit 16 (ioapic_regs r s (line_of 33)))
    \<and> idt_gate_callback (mouse_init s) = (idt_gate_callback s)(44 := Mouse_irq_handler)
    \<and> ioapic_regs r (mouse_init s) = (ioapic_regs r s)(line_of 44 := unset_bit 16 (ioapic_regs r s (line_of 44)))"
proof -
  obtain u where u: "kbd_init s = finish ''    keyboard ACK !\<newline>'' 33 (kbd_wait 0xFA 512 u)"
    "port_step (idt_set_interrupt_handler 33 Kbd_irq_handler (idt_mask_interrupt 33 s)) u"
    using inits_split(1) by blast
  obtain w where w: "mouse_init s = finish ''    mouse ACK !\<newline>'' 44 (kbd_wait 0xFA 512 w)"
    "port_step (idt_set_interrupt_handler 44 Mouse_irq_handler (idt_mask_interrupt 44 s)) w"
    using inits_split(2) by blast
  show ?thesis
    using finish_effect [OF assms _ _ u(2) port_step_wait [OF port_step_refl]]
      finish_effect [OF assms _ _ w(2) port_step_wait [OF port_step_refl]]
    by (simp add: u(1) w(1) del: kbd_wait.simps)
qed

text \<open>Whatever the devices answer, \<open>kbd_init\<close> and \<open>mouse_init\<close> return with their handler in the
  slot of their vector and the line of the vector open; every other slot and every other
  register of the I/O APIC is as it was.\<close>

theorem input_inits:
  fixes s :: "'a idt_scheme"
  assumes "ioapic_answers r s"
  shows "idt_gate_callback (kbd_init s) = (idt_gate_callback s)(33 := Kbd_irq_handler)
    \<and> ioapic_regs r (kbd_init s) = (ioapic_regs r s)(line_of 33 := unset_bit 16 (ioapic_regs r s (line_of 33)))
    \<and> idt_gate_callback (mouse_init s) = (idt_gate_callback s)(44 := Mouse_irq_handler)
    \<and> ioapic_regs r (mouse_init s) = (ioapic_regs r s)(line_of 44 := unset_bit 16 (ioapic_regs r s (line_of 44)))"
  using assms by (rule inits_effect)

text \<open>C27. Acknowledgement is reported even when there is none: with a data port that never reads
  0xFA, both initialisations print that the device acknowledged.\<close>

theorem false_acknowledgement:
  fixes s :: "'a idt_scheme"
  assumes "\<And>es. port8 (hw s) es 0x60 \<noteq> 0xFA"
  shows "Print ''    keyboard ACK !\<newline>'' [] \<in> set (trace (kbd_init s))
    \<and> Print ''    mouse ACK !\<newline>'' [] \<in> set (trace (mouse_init s))"
proof -
  have last: "Print msg [] \<in> set (trace (finish msg v (kbd_wait 0xFA 512 u)))" if "hw u = hw s" for msg v and u :: "'a idt_scheme"
  proof -
    have "fst (kbd_wait 0xFA 512 u) = - 1" by (rule wait_in_vain) (simp_all add: that assms)
    then have "finish msg v (kbd_wait 0xFA 512 u) = idt_unmask_interrupt v (print msg [] (snd (kbd_wait 0xFA 512 u)))"
      by (simp add: finish_def word_gt_0 del: kbd_wait.simps)
    then show ?thesis using unmask_trace [of "print msg [] (snd (kbd_wait 0xFA 512 u))" v] by auto
  qed
  obtain u where u: "kbd_init s = finish ''    keyboard ACK !\<newline>'' 33 (kbd_wait 0xFA 512 u)"
    "port_step (idt_set_interrupt_handler 33 Kbd_irq_handler (idt_mask_interrupt 33 s)) u"
    using inits_split(1) by blast
  obtain w where w: "mouse_init s = finish ''    mouse ACK !\<newline>'' 44 (kbd_wait 0xFA 512 w)"
    "port_step (idt_set_interrupt_handler 44 Mouse_irq_handler (idt_mask_interrupt 44 s)) w"
    using inits_split(2) by blast
  show ?thesis
    using last port_step_hw [OF u(2)] port_step_hw [OF w(2)] by (simp add: mask_hw u(1) w(1) del: kbd_wait.simps)
qed

section \<open>Examples\<close>

definition example_kernel :: idt where
  "example_kernel = \<lparr>hw = hw ioapic_machine, trace = [], lapic_base = 0xFEE00000, lapic_ticks_per_ms = 0,
     lapic_ticks_per_us = 0, idt_gate = \<lambda>i. 0, idt_gate_callback = \<lambda>i. Null, lidt_limit = 0, lidt_base = 0\<rparr>"

lemma example_kernel_answers: "ioapic_answers lines24 example_kernel"
  using ioapic_machine_ok(1) by (simp add: ioapic_answers_def example_kernel_def)

lemma input_inits_witness:
  "idt_gate_callback (kbd_init example_kernel) 33 = Kbd_irq_handler
   \<and> ioapic_regs lines24 (mouse_init example_kernel) (line_of 44) = 0"
proof -
  have "ioapic_regs lines24 example_kernel = lines24"
    by (simp add: ioapic_regs_def example_kernel_def ioapic_after_def)
  then show ?thesis
    using input_inits [OF example_kernel_answers]
    by (simp add: lines24_def line_of_def index_L_def unset_bit_eq_and_not)
qed

lemma false_acknowledgement_witness:
  "Print ''    keyboard ACK !\<newline>'' [] \<in> set (trace (kbd_init example_kernel))"
  using false_acknowledgement [of example_kernel] by (simp add: example_kernel_def ioapic_machine_def quiet_def)

end
