(* ===== verification/Paging.thy ===== *)
theory Paging
  imports Machine Memory KlibMem Layout
begin

text \<open>
  Paging (ksrc/mmu/paging.h, paging.c and the boot directory of ksrc/_entry.s). The memory
  of this theory is physical. The kernel reaches its own data through its half of the
  address space, where linear address \<open>KERNEL_CONFIG_VMA + p\<close> is physical \<open>p\<close>: \<open>kload\<close> and
  \<open>kstore\<close>. The addresses of the two static variables, the directory and the ten tables, are
  parameters, as is that of the linker's end marker.

  The contract is stated against the MMU: \<open>walk\<close> is the 32-bit page walk with 4 MB pages that
  the processor manual defines, from linear to physical addresses.
\<close>

unbundle bit_operations_syntax

section \<open>Formats\<close>

definition paging_cr3_t :: layout where
  "paging_cr3_t = [(''_i0'', 3), (''page_level_write_through'', 1),
     (''page_level_cache_disable'', 1), (''_i1'', 7), (''physical_address'', 20)]"

definition paging_map_4mb_t :: layout where
  "paging_map_4mb_t = [(''present'', 1), (''read_write'', 1), (''supervisor'', 1),
     (''page_level_write_through'', 1), (''page_level_cache_disable'', 1), (''accessed'', 1),
     (''dirty'', 1), (''page_size'', 1), (''global'', 1), (''_i0'', 3), (''pat'', 1), (''m'', 8),
     (''_r0'', 1), (''physical_address'', 10)]"

definition paging_reference_table_t :: layout where
  "paging_reference_table_t = [(''present'', 1), (''read_write'', 1), (''supervisor'', 1),
     (''page_level_write_through'', 1), (''page_level_cache_disable'', 1), (''accessed'', 1),
     (''_i0'', 1), (''page_size'', 1), (''_i1'', 4), (''physical_address'', 20)]"

definition paging_page_table_entry_t :: layout where
  "paging_page_table_entry_t = [(''present'', 1), (''read_write'', 1), (''supervisor'', 1),
     (''page_level_write_through'', 1), (''page_level_cache_disable'', 1), (''accessed'', 1),
     (''dirty'', 1), (''pat'', 1), (''global'', 1), (''_i0'', 3), (''physical_address'', 20)]"

abbreviation (input) PAGING_PDE_PRESENT :: u32 where "PAGING_PDE_PRESENT \<equiv> 0x001"
abbreviation (input) PAGING_PDE_READWRITE :: u32 where "PAGING_PDE_READWRITE \<equiv> 0x002"
abbreviation (input) PAGING_PDE_SUPERVISOR :: u32 where "PAGING_PDE_SUPERVISOR \<equiv> 0x000"
abbreviation (input) PAGING_PDE_SIZE :: u32 where "PAGING_PDE_SIZE \<equiv> 0x080"
abbreviation (input) PAGING_PTE_PRESENT :: u32 where "PAGING_PTE_PRESENT \<equiv> 0x001"
abbreviation (input) PAGING_PTE_READWRITE :: u32 where "PAGING_PTE_READWRITE \<equiv> 0x002"
abbreviation (input) PAGING_PTE_SUPERVISOR :: u32 where "PAGING_PTE_SUPERVISOR \<equiv> 0x000"
abbreviation (input) PAGING_PTE_WRITE_THROUGH :: u32 where "PAGING_PTE_WRITE_THROUGH \<equiv> 0x008"
abbreviation (input) PAGING_PTE_CACHE_DISABLE :: u32 where "PAGING_PTE_CACHE_DISABLE \<equiv> 0x010"

abbreviation (input) KERNEL_CONFIG_PAGING_PAGE_TABLES :: nat where
  "KERNEL_CONFIG_PAGING_PAGE_TABLES \<equiv> 10"

text \<open>
  A linear address of the kernel's half is looked up and written at the physical address below it,
  without the page walk: that is the code's access where the directory in force maps the
  address in the kernel's half, as it does for the directory and the tables themselves. The frame a
  directory entry names can be anywhere; where a theorem follows such a frame, that the kernel
  reaches it at this address is a hypothesis (\<open>paging_map_4kb_over_4mb\<close>).
\<close>

definition kload :: "mem \<Rightarrow> u32 \<Rightarrow> u32" where
  "kload m x = load32 m (x - KERNEL_CONFIG_VMA)"

definition kstore :: "mem \<Rightarrow> u32 \<Rightarrow> u32 \<Rightarrow> mem" where
  "kstore m x v = store32 m (x - KERNEL_CONFIG_VMA) v"

section \<open>Control registers\<close>

definition paging_set_page_directory :: "u32 \<Rightarrow> 'a machine_scheme \<Rightarrow> 'a machine_scheme" where
  "paging_set_page_directory pd s = emit (MovCr 3 pd) s"

definition paging_get_page_directory :: "'a machine_scheme \<Rightarrow> u32" where
  "paging_get_page_directory s = read_cr 3 s"

definition paging_flush_ptbl_entry :: "u32 \<Rightarrow> 'a machine_scheme \<Rightarrow> 'a machine_scheme" where
  "paging_flush_ptbl_entry linaddr s = emit (Invlpg linaddr) s"

section \<open>Finding a free table\<close>

function table_used :: "mem \<Rightarrow> u32 \<Rightarrow> nat \<Rightarrow> bool" where
  "table_used m table entry_idx =
     (if entry_idx < 1024 then
        if get_field paging_page_table_entry_t ''present'' (kload m (table + 4 * of_nat entry_idx)) \<noteq> 0
        then True
        else table_used m table (entry_idx + 1)
      else False)"
  by pat_completeness auto
termination
  by (relation "measure (\<lambda>(m, table, i). 1024 - i)") auto

function free_table :: "mem \<Rightarrow> u32 \<Rightarrow> nat \<Rightarrow> u32" where
  "free_table m pgtbls idx =
     (if idx < KERNEL_CONFIG_PAGING_PAGE_TABLES then
        if \<not> table_used m (pgtbls + 4096 * of_nat idx) 0
        then pgtbls - KERNEL_CONFIG_VMA + 4096 * of_nat idx
        else free_table m pgtbls (idx + 1)
      else 0)"
  by pat_completeness auto
termination
  by (relation "measure (\<lambda>(m, table, i). 10 - i)") auto

declare table_used.simps [simp del] free_table.simps [simp del]

definition paging_get_page_table :: "u32 \<Rightarrow> mem \<Rightarrow> 'a machine_scheme \<Rightarrow> u32 \<times> 'a machine_scheme" where
  "paging_get_page_table pgtbls m s =
     (let s = print ''    number of kernel page tables: %d\<newline>''
            [Num (of_nat KERNEL_CONFIG_PAGING_PAGE_TABLES)] s
      in (free_table m pgtbls 0, s))"

section \<open>Mapping\<close>

definition paging_map_4mb ::
  "u32 \<Rightarrow> u32 \<Rightarrow> u32 \<Rightarrow> u32 \<Rightarrow> mem \<Rightarrow> 'a machine_scheme \<Rightarrow> mem \<times> 'a machine_scheme" where
  "paging_map_4mb pgdir phyaddr linaddr flags m s =
     (let m = kstore m (pgdir + 4 * drop_bit 22 linaddr)
                ((phyaddr AND 0xFFC00000) OR PAGING_PDE_SIZE OR flags)
      in (m, paging_flush_ptbl_entry linaddr s))"

definition paging_map_4kb ::
  "u32 \<Rightarrow> u32 \<Rightarrow> u32 \<Rightarrow> u32 \<Rightarrow> u32 \<Rightarrow> mem \<Rightarrow> 'a machine_scheme \<Rightarrow> mem \<times> 'a machine_scheme" where
  "paging_map_4kb pgdir pgtbls phyaddr linaddr flags m s =
     (let pd_index = drop_bit 22 linaddr;
          current_pde = kload m (pgdir + 4 * pd_index);
          (pgtbl, m, s) =
            (if current_pde AND PAGING_PDE_PRESENT = 0 then
               let (pgtbl, s) = paging_get_page_table pgtbls m s;
                   m = kstore m (pgdir + 4 * pd_index)
                         ((pgtbl AND 0xFFFFF000) OR PAGING_PDE_PRESENT OR PAGING_PDE_READWRITE
                          OR PAGING_PDE_SUPERVISOR)
               in (pgtbl, m, s)
             else (current_pde AND 0xFFFFF000, m, s));
          pgtbl = pgtbl + KERNEL_CONFIG_VMA;
          pt_index = drop_bit 12 linaddr AND 0x3FF;
          m = kstore m (pgtbl + 4 * pt_index) ((phyaddr AND 0xFFFFF000) OR flags)
      in (m, paging_flush_ptbl_entry linaddr s))"

text \<open>
  \<open>paging_get_phyaddr\<close> follows the physical addresses of the directory and of the table as
  pointers: a read through the current translation \<open>tr\<close>, which may fault.
\<close>

definition vload :: "(u32 \<Rightarrow> u32 option) \<Rightarrow> mem \<Rightarrow> u32 \<Rightarrow> u32 option" where
  "vload tr m x = map_option (load32 m) (tr x)"

definition paging_get_phyaddr ::
  "(u32 \<Rightarrow> u32 option) \<Rightarrow> u32 \<Rightarrow> mem \<Rightarrow> 'a machine_scheme \<Rightarrow> u32 option" where
  "paging_get_phyaddr tr linaddr m s =
     Option.bind (vload tr m (paging_get_page_directory s + 4 * drop_bit 22 linaddr)) (\<lambda>entry.
       if entry AND PAGING_PDE_PRESENT = 0 then Some 0
       else if entry AND PAGING_PDE_SIZE \<noteq> 0
       then Some ((entry AND 0xFFC00000) OR (linaddr AND 0x003FFFFF))
       else Option.bind (vload tr m ((entry AND 0xFFFFF000) + 4 * (drop_bit 12 linaddr AND 0x3FF)))
         (\<lambda>pte. if pte AND PAGING_PTE_PRESENT = 0 then Some 0
           else Some ((pte AND 0xFFFFF000) OR (linaddr AND 0x00000FFF))))"

section \<open>Initialisation\<close>

text \<open>
  The loop compares with the word at the address \<open>kernel_end\<close> of the marker, since the code
  takes the value of the symbol's variable.
\<close>

partial_function (option) paging_map_loop ::
  "u32 \<Rightarrow> u32 \<Rightarrow> u32 \<Rightarrow> mem \<Rightarrow> 'a machine_scheme \<Rightarrow> (mem \<times> 'a machine_scheme) option" where
  "paging_map_loop pgdir kernel_end map_addr m s =
     (if map_addr \<le> load32 m kernel_end then
        let s = print ''    mapping 4MiB from phyaddr 0x%x to virtaddr 0x%x\<newline>''
              [Num map_addr, Num (map_addr + KERNEL_CONFIG_VMA)] s;
            (m, s) = paging_map_4mb pgdir map_addr (map_addr + KERNEL_CONFIG_VMA)
              (PAGING_PDE_PRESENT OR PAGING_PDE_READWRITE OR PAGING_PDE_SUPERVISOR) m s
        in paging_map_loop pgdir kernel_end (map_addr + 0x400000) m s
      else Some (m, s))"

definition apic_flags :: u32 where
  "apic_flags = PAGING_PTE_PRESENT OR PAGING_PTE_READWRITE OR PAGING_PTE_SUPERVISOR
     OR PAGING_PTE_CACHE_DISABLE OR PAGING_PTE_WRITE_THROUGH"

definition paging_enable :: "'a machine_scheme \<Rightarrow> 'a machine_scheme" where
  "paging_enable s =
     (let s = emit (MovCr 4 (read_cr 4 s OR 0x00000010)) s
      in emit (MovCr 0 (read_cr 0 s OR 0x80000000)) s)"

definition paging_init ::
  "u32 \<Rightarrow> u32 \<Rightarrow> u32 \<Rightarrow> mem \<Rightarrow> 'a machine_scheme \<Rightarrow> (mem \<times> 'a machine_scheme) option" where
  "paging_init pgdir pgtbls kernel_end m s =
     (let s = print ''Initializing PAGING !\<newline>'' [] s;
          m = fst (memset m (pgdir - KERNEL_CONFIG_VMA) 0 4096);
          m = fst (memset m (pgtbls - KERNEL_CONFIG_VMA) 0 (4096 * of_nat KERNEL_CONFIG_PAGING_PAGE_TABLES))
      in map_option (\<lambda>(m, s).
           let (m, s) = paging_map_4kb pgdir pgtbls 0xFEC00000 0xFEC00000 apic_flags m s;
               (m, s) = paging_map_4kb pgdir pgtbls 0xFEE00000 0xFEE00000 apic_flags m s;
               s = paging_set_page_directory (pgdir - KERNEL_CONFIG_VMA) s
           in (m, paging_enable s))
         (paging_map_loop pgdir kernel_end 0 m s))"

section \<open>The MMU\<close>

definition walk :: "u32 \<Rightarrow> mem \<Rightarrow> u32 \<Rightarrow> u32 option" where
  "walk cr3 m x =
     (let pde = load32 m ((cr3 AND 0xFFFFF000) + 4 * drop_bit 22 x)
      in if \<not> bit pde 0 then None
         else if bit pde 7 then Some ((pde AND 0xFFC00000) OR (x AND 0x3FFFFF))
         else
           let pte = load32 m ((pde AND 0xFFFFF000) + 4 * (drop_bit 12 x AND 0x3FF))
           in if \<not> bit pte 0 then None else Some ((pte AND 0xFFFFF000) OR (x AND 0xFFF)))"

text \<open>The directory of the boot code: entry \<open>i\<close> maps the 4 MB at \<open>i * 4 MB\<close>, from 3 GB on again
  from 0.\<close>

definition entry_pde :: "nat \<Rightarrow> u32" where
  "entry_pde i = (if i < 768 then of_nat i * 0x400000 else of_nat (i - 768) * 0x400000) OR 0x87"

section \<open>Addresses\<close>

lemma paging_masks:
  "(0xFFF :: u32) = mask 12" "(0xFFFFF000 :: u32) = NOT (mask 12)" "(0x3FF :: u32) = mask 10"
  "(0xFFC00000 :: u32) = NOT (mask 22)" "(0x3FFFFF :: u32) = mask 22"
  by (simp_all add: mask_eq_exp_minus_1)

definition aligned :: "u32 \<Rightarrow> bool" where
  "aligned a \<longleftrightarrow> a AND 0xFFF = 0"

lemma aligned_bits: "aligned a \<Longrightarrow> bit a n \<Longrightarrow> 12 \<le> n"
proof (rule ccontr)
  assume "aligned a" "bit a n" "\<not> 12 \<le> n"
  then have "bit (a AND mask 12) n" by (simp add: bit_simps)
  with \<open>aligned a\<close> show False by (simp add: aligned_def paging_masks)
qed

lemma frame_bits: "f AND 0xFFFFF000 = (0 :: u32) \<Longrightarrow> bit f n \<Longrightarrow> n < 12"
proof (rule ccontr)
  assume "f AND 0xFFFFF000 = 0" "bit f n" "\<not> n < 12"
  then have "bit (f AND NOT (mask 12)) n" using bit_imp_le_length [of f n] by (simp add: bit_simps)
  with \<open>f AND 0xFFFFF000 = 0\<close> show False by (simp add: paging_masks)
qed

lemma aligned_frame: "aligned a \<Longrightarrow> a AND 0xFFFFF000 = a"
  unfolding paging_masks by (rule bit_word_eqI) (auto simp: bit_simps dest: aligned_bits)

lemma frame_of_entry:
  "f AND 0xFFFFF000 = 0 \<Longrightarrow> ((p AND 0xFFFFF000) OR f) AND 0xFFFFF000 = p AND (0xFFFFF000 :: u32)"
proof -
  assume f: "f AND 0xFFFFF000 = 0"
  show ?thesis unfolding paging_masks
    by (rule bit_word_eqI) (use frame_bits [OF f] in \<open>auto simp: bit_simps dest: bit_imp_le_length\<close>)
qed

lemma aligned_add: "aligned a \<Longrightarrow> aligned (a + 4096 * k)"
proof -
  assume a: "aligned a"
  then have "unat a mod 4096 = 0"
    by (simp add: aligned_def and_low_mod word_unat_eq_iff unat_mod)
  then have "unat (a + 4096 * k) mod 4096 = 0"
    by (simp add: unat_word_ariths mod_mod_cancel) (simp flip: mod_add_eq add: mod_mod_cancel)
  then show ?thesis by (simp add: aligned_def and_low_mod word_unat_eq_iff unat_mod)
qed

text \<open>The two indices of a linear address.\<close>

definition di :: "u32 \<Rightarrow> nat" where "di x = unat (drop_bit 22 x)"
definition ti :: "u32 \<Rightarrow> nat" where "ti x = unat (drop_bit 12 x AND 0x3FF)"

lemma di_less: "di x < 1024"
proof -
  have "unat x < 2 ^ 32" using unsigned_less [of x, where 'a = nat] by simp
  then show ?thesis by (simp add: di_def unat_drop_bit_eq drop_bit_eq_div unat_div)
qed

lemma ti_less: "ti x < 1024"
  by (simp add: ti_def and_low_mod unat_mod)

lemma index_words:
  "4 * drop_bit 22 x = of_nat (4 * di x)" "4 * (drop_bit 12 x AND 0x3FF) = of_nat (4 * ti x)"
  by (simp_all add: di_def ti_def)

lemma same_4mb: "di x = di y \<longleftrightarrow> drop_bit 22 x = drop_bit 22 y"
  by (simp add: di_def word_unat_eq_iff)

lemma same_page: "drop_bit 12 x = drop_bit 12 y \<longleftrightarrow> di x = di y \<and> ti x = ti y"
proof -
  have "drop_bit 12 x = drop_bit 12 y"
    if "drop_bit 22 x = drop_bit 22 y" "drop_bit 12 x AND 0x3FF = drop_bit 12 y AND 0x3FF"
  proof (rule bit_word_eqI)
    fix n assume "n < LENGTH(32)"
    have a: "bit (drop_bit 22 x) (n - 10) = bit (drop_bit 22 y) (n - 10)" by (simp add: that(1))
    have b: "bit (drop_bit 12 x AND mask 10) n = bit (drop_bit 12 y AND mask 10) n"
      using that(2) by (simp add: paging_masks)
    show "bit (drop_bit 12 x) n = bit (drop_bit 12 y) n"
      using a b \<open>n < LENGTH(32)\<close> by (cases "n < 10") (simp_all add: bit_simps)
  qed
  moreover have "drop_bit 22 x = drop_bit 22 y" if "drop_bit 12 x = drop_bit 12 y"
  proof -
    have "drop_bit 10 (drop_bit 12 x) = drop_bit 10 (drop_bit 12 y)" by (simp add: that)
    then show ?thesis by simp
  qed
  ultimately show ?thesis by (auto simp: di_def ti_def simp flip: word_unat_eq_iff)
qed

section \<open>The directory and the tables in memory\<close>

definition pde :: "u32 \<Rightarrow> mem \<Rightarrow> nat \<Rightarrow> u32" where
  "pde D m i = load32 m (D + of_nat (4 * i))"

definition pte :: "u32 \<Rightarrow> mem \<Rightarrow> nat \<Rightarrow> nat \<Rightarrow> u32" where
  "pte T m t j = load32 m (T + of_nat (4096 * t + 4 * j))"

definition placed :: "u32 \<Rightarrow> u32 \<Rightarrow> bool" where
  "placed D T \<longleftrightarrow> aligned D \<and> aligned T \<and> T \<noteq> 0 \<and> apart D 4096 T 40960
     \<and> unat T + 40960 \<le> 2 ^ 32"

lemma words_apart:
  assumes "i < j" "j < 2 ^ 30"
  shows "apart (a + of_nat (4 * i)) 4 (a + of_nat (4 * j)) 4"
    and "apart (a + of_nat (4 * j)) 4 (a + of_nat (4 * i)) 4"
proof -
  show "apart (a + of_nat (4 * i)) 4 (a + of_nat (4 * j)) 4"
    by (rule apart_offsets) (use assms in simp_all)
  then show "apart (a + of_nat (4 * j)) 4 (a + of_nat (4 * i)) 4" by (simp only: apart_commute)
qed

lemma load_store_word:
  assumes "i < 2 ^ 30" "j < 2 ^ 30"
  shows "load32 (store32 m (a + of_nat (4 * i)) v) (a + of_nat (4 * j))
    = (if i = j then v else load32 m (a + of_nat (4 * j)))"
proof (cases i j rule: linorder_cases)
  case less
  then show ?thesis using words_apart(1) [OF less assms(2)] by (simp add: quad.ld_st_apart)
next
  case greater
  then show ?thesis using words_apart(2) [OF greater assms(1)] by (simp add: quad.ld_st_apart)
qed (simp add: quad.ld_st)

lemma tables_apart:
  assumes "placed D T" "i < 1024" "k < 10240"
  shows "apart (D + of_nat (4 * i)) 4 (T + of_nat (4 * k)) 4"
    and "apart (T + of_nat (4 * k)) 4 (D + of_nat (4 * i)) 4"
proof -
  have "apart D 4096 T 40960" using assms(1) by (simp add: placed_def)
  then have "apart (D + of_nat (4 * i)) 4 T 40960" by (rule apart_shift) (use assms(2) in simp_all)
  then have "apart (T + of_nat (4 * k)) 4 (D + of_nat (4 * i)) 4"
    unfolding apart_commute [of "D + of_nat (4 * i)"]
    by (rule apart_shift) (use assms(3) in simp_all)
  then show "apart (T + of_nat (4 * k)) 4 (D + of_nat (4 * i)) 4"
    "apart (D + of_nat (4 * i)) 4 (T + of_nat (4 * k)) 4" by (simp_all only: apart_commute)
qed

lemma pte_index: "4096 * t + 4 * j = 4 * (1024 * t + j)" for t j :: nat
  by simp

lemma entries_after_pde:
  fixes D T v :: u32 and m :: mem and i :: nat
  assumes "placed D T" "i < 1024"
  defines "m' \<equiv> store32 m (D + of_nat (4 * i)) v"
  shows "k < 1024 \<Longrightarrow> pde D m' k = (if k = i then v else pde D m k)"
    and "t < 10 \<Longrightarrow> j < 1024 \<Longrightarrow> pte T m' t j = pte T m t j"
proof -
  assume "k < 1024"
  then show "pde D m' k = (if k = i then v else pde D m k)"
    using assms(2) by (simp only: pde_def m'_def) (subst load_store_word; simp)
next
  assume "t < 10" "j < 1024"
  then have "1024 * t + j < 10240" by simp
  from tables_apart(1) [OF assms(1,2) this]
  show "pte T m' t j = pte T m t j" unfolding pte_def m'_def pte_index by (rule quad.ld_st_apart)
qed

lemma entries_after_pte:
  fixes D T v :: u32 and m :: mem and t j :: nat
  assumes "placed D T" "t < 10" "j < 1024"
  defines "m' \<equiv> store32 m (T + of_nat (4096 * t + 4 * j)) v"
  shows "k < 1024 \<Longrightarrow> pde D m' k = pde D m k"
    and "t' < 10 \<Longrightarrow> j' < 1024 \<Longrightarrow> pte T m' t' j' = (if t' = t \<and> j' = j then v else pte T m t' j')"
proof -
  have lim: "1024 * t + j < 10240" using assms by simp
  show "pde D m' k = pde D m k" if "k < 1024"
    unfolding pde_def m'_def pte_index by (rule quad.ld_st_apart [OF tables_apart(2) [OF assms(1) that lim]])
  assume b: "t' < 10" "j' < 1024"
  have "t' = t \<and> j' = j" if "1024 * t + j = 1024 * t' + j'"
    using arg_cong [OF that, of "\<lambda>n. n div 1024"] arg_cong [OF that, of "\<lambda>n. n mod 1024"] assms(3) b(2) by simp
  then have "1024 * t + j = 1024 * t' + j' \<longleftrightarrow> t' = t \<and> j' = j" by auto
  then show "pte T m' t' j' = (if t' = t \<and> j' = j then v else pte T m t' j')"
    unfolding pte_def m'_def pte_index using lim b load_store_word [of "1024 * t + j" "1024 * t' + j'"]
    by (simp del: of_nat_add of_nat_mult)
qed

text \<open>Directory entry \<open>i\<close> refers to table \<open>t\<close>; table \<open>t\<close> holds some page.\<close>

definition owns :: "u32 \<Rightarrow> u32 \<Rightarrow> mem \<Rightarrow> nat \<Rightarrow> nat \<Rightarrow> bool" where
  "owns D T m i t \<longleftrightarrow> bit (pde D m i) 0 \<and> \<not> bit (pde D m i) 7
     \<and> pde D m i AND 0xFFFFF000 = T + of_nat (4096 * t)"

definition in_use :: "u32 \<Rightarrow> mem \<Rightarrow> nat \<Rightarrow> bool" where
  "in_use T m t \<longleftrightarrow> (\<exists>j < 1024. bit (pte T m t j) 0)"

text \<open>
  The state the mapping routines keep: every present entry that is not a 4 MB page refers to
  one of the tables, which holds a page, and no two entries share a table.
\<close>

definition tables_ok :: "u32 \<Rightarrow> u32 \<Rightarrow> mem \<Rightarrow> bool" where
  "tables_ok D T m \<longleftrightarrow>
     (\<forall>i < 1024. bit (pde D m i) 0 \<longrightarrow> bit (pde D m i) 7 \<or> (\<exists>t < 10. owns D T m i t \<and> in_use T m t))
     \<and> (\<forall>i < 1024. \<forall>k < 1024. \<forall>t < 10. owns D T m i t \<longrightarrow> owns D T m k t \<longrightarrow> i = k)"

lemma walk_entries:
  assumes "placed D T"
  shows "walk D m x = (let e = pde D m (di x) in
    if \<not> bit e 0 then None
    else if bit e 7 then Some ((e AND 0xFFC00000) OR (x AND 0x3FFFFF))
    else let e = load32 m ((e AND 0xFFFFF000) + of_nat (4 * ti x)) in
      if \<not> bit e 0 then None else Some ((e AND 0xFFFFF000) OR (x AND 0xFFF)))"
proof -
  have "D AND 0xFFFFF000 = D" using assms by (simp add: placed_def aligned_frame)
  then show ?thesis unfolding walk_def pde_def index_words by simp
qed

lemma walk_4kb:
  assumes "placed D T" "owns D T m (di x) t"
  shows "walk D m x = (let e = pte T m t (ti x) in
    if \<not> bit e 0 then None else Some ((e AND 0xFFFFF000) OR (x AND 0xFFF)))"
proof -
  have "T + of_nat (4096 * t) + of_nat (4 * ti x) = T + of_nat (4096 * t + 4 * ti x)" by simp
  then show ?thesis
    using assms(2) unfolding walk_entries [OF assms(1)] owns_def pte_def by (simp only: Let_def) simp
qed

lemma same_table:
  assumes "placed D T" "owns D T m i t" "owns D T m i t'" "t < 10" "t' < 10"
  shows "t = t'"
proof -
  have "(of_nat (4096 * t) :: u32) = of_nat (4096 * t')" using assms(2,3) by (simp add: owns_def)
  moreover have "unat (of_nat (4096 * t) :: u32) = 4096 * t" "unat (of_nat (4096 * t') :: u32) = 4096 * t'"
    using assms(4,5) by (simp_all add: unat_of_nat del: of_nat_mult)
  ultimately have "4096 * t = 4096 * t'" by metis
  then show ?thesis by simp
qed

section \<open>Free tables\<close>

lemma present_flag: "get_field paging_page_table_entry_t ''present'' (w :: u32) \<noteq> 0 \<longleftrightarrow> bit w 0"
  by (simp add: paging_page_table_entry_t_def layout_eval and_mask_bit)

lemma kload_linear: "kload m (a + KERNEL_CONFIG_VMA + b) = load32 m (a + b)"
  and kstore_linear: "kstore m (a + KERNEL_CONFIG_VMA + b) v = store32 m (a + b) v"
  by (simp_all add: kload_def kstore_def)

lemma table_used_from:
  assumes "i \<le> 1024"
  shows "table_used m (T + KERNEL_CONFIG_VMA + 4096 * of_nat t) i
    \<longleftrightarrow> (\<exists>j. i \<le> j \<and> j < 1024 \<and> bit (pte T m t j) 0)"
  using assms
proof (induction rule: inc_induct)
  case base
  then show ?case by (simp add: table_used.simps)
next
  case (step i)
  have "kload m (T + KERNEL_CONFIG_VMA + 4096 * of_nat t + 4 * of_nat i) = pte T m t i"
    by (simp add: kload_def pte_def)
  then have "table_used m (T + KERNEL_CONFIG_VMA + 4096 * of_nat t) i
      \<longleftrightarrow> bit (pte T m t i) 0 \<or> (\<exists>j. Suc i \<le> j \<and> j < 1024 \<and> bit (pte T m t j) 0)"
    using step by (subst table_used.simps) (simp add: present_flag)
  also have "\<dots> \<longleftrightarrow> (\<exists>j. i \<le> j \<and> j < 1024 \<and> bit (pte T m t j) 0)"
  proof -
    have "i \<le> j \<longleftrightarrow> j = i \<or> Suc i \<le> j" for j by auto
    then show ?thesis using step.hyps by auto
  qed
  finally show ?case .
qed

lemma table_used_iff:
  "table_used m (T + KERNEL_CONFIG_VMA + 4096 * of_nat t) 0 \<longleftrightarrow> in_use T m t"
  by (simp add: table_used_from in_use_def)

lemma free_table_from:
  assumes "i \<le> 10"
  shows "(\<exists>t. i \<le> t \<and> t < 10 \<and> \<not> in_use T m t \<and> (\<forall>u. i \<le> u \<longrightarrow> u < t \<longrightarrow> in_use T m u)
      \<and> free_table m (T + KERNEL_CONFIG_VMA) i = T + of_nat (4096 * t))
    \<or> (\<forall>t. i \<le> t \<longrightarrow> t < 10 \<longrightarrow> in_use T m t) \<and> free_table m (T + KERNEL_CONFIG_VMA) i = 0"
  using assms
proof (induction rule: inc_induct)
  case base
  then show ?case by (simp add: free_table.simps)
next
  case (step i)
  have eq: "free_table m (T + KERNEL_CONFIG_VMA) i = (if in_use T m i
      then free_table m (T + KERNEL_CONFIG_VMA) (Suc i) else T + of_nat (4096 * i))"
    using step.hyps by (subst free_table.simps) (simp add: table_used_iff)
  show ?case
  proof (cases "in_use T m i")
    case True
    have "i \<le> u \<longleftrightarrow> u = i \<or> Suc i \<le> u" for u by auto
    with step.IH True show ?thesis unfolding eq by (auto simp: all_conj_distrib)
  qed (use step.hyps eq in \<open>auto intro!: exI [of _ i]\<close>)
qed

section \<open>What the mapping routines do to the translation\<close>

lemma frame_word:
  assumes "f AND 0xFFFFF000 = (0 :: u32)" "bit f 0"
  shows "((p AND 0xFFFFF000) OR f) AND 0xFFFFF000 = p AND 0xFFFFF000" "bit ((p AND 0xFFFFF000) OR f) 0"
    "((p AND 0xFFC00000) OR 0x80 OR f) AND 0xFFC00000 = p AND 0xFFC00000"
    "bit ((p AND 0xFFC00000) OR 0x80 OR f) 0" "bit ((p AND 0xFFC00000) OR 0x80 OR f) 7"
proof -
  have b: "bit (0x80 :: u32) n \<longleftrightarrow> n = 7" for n
  proof -
    have "(0x80 :: u32) = 2 ^ 7" by simp
    then show ?thesis by (simp only: bit_exp_iff) auto
  qed
  show "((p AND 0xFFFFF000) OR f) AND 0xFFFFF000 = p AND 0xFFFFF000" by (rule frame_of_entry [OF assms(1)])
  show "((p AND 0xFFC00000) OR 0x80 OR f) AND 0xFFC00000 = p AND 0xFFC00000"
    unfolding paging_masks
  proof (rule bit_word_eqI)
    fix n assume "n < LENGTH(32)"
    with b [of n] frame_bits [OF assms(1), of n]
    show "bit ((p AND NOT (mask 22) OR 0x80 OR f) AND NOT (mask 22)) n = bit (p AND NOT (mask 22)) n"
      unfolding bit_and_iff bit_or_iff bit_not_iff bit_mask_iff by auto
  qed
  show "bit ((p AND 0xFFFFF000) OR f) 0" "bit ((p AND 0xFFC00000) OR 0x80 OR f) 0"
    "bit ((p AND 0xFFC00000) OR 0x80 OR f) 7" using assms(2) by (simp_all add: bit_simps b)
qed

lemma tables_okD:
  assumes "tables_ok D T m" "i < 1024" "bit (pde D m i) 0" "\<not> bit (pde D m i) 7"
  obtains t where "t < 10" "owns D T m i t" "in_use T m t"
  using assms unfolding tables_ok_def by blast

lemma tables_ok_one:
  assumes "tables_ok D T m" "i < 1024" "k < 1024" "t < 10" "owns D T m i t" "owns D T m k t"
  shows "i = k"
  using assms unfolding tables_ok_def by blast

lemma walk_keeps:
  assumes "placed D T" "tables_ok D T m" "pde D m' (di x) = pde D m (di x)"
    and "\<And>t. t < 10 \<Longrightarrow> owns D T m (di x) t \<Longrightarrow> pte T m' t (ti x) = pte T m t (ti x)"
  shows "walk D m' x = walk D m x"
proof (cases "bit (pde D m (di x)) 0 \<and> \<not> bit (pde D m (di x)) 7")
  case True
  with assms(2) di_less obtain t where t: "t < 10" "owns D T m (di x) t" by (auto elim: tables_okD)
  then have "owns D T m' (di x) t" using assms(3) by (simp add: owns_def)
  then show ?thesis using assms(1,4) t by (simp add: walk_4kb)
next
  case False
  then show ?thesis unfolding walk_entries [OF assms(1)] assms(3) by (auto simp: Let_def)
qed

text \<open>\<open>paging_map_4mb\<close> maps exactly the 4 MB region of \<open>linaddr\<close> onto the one of
  \<open>phyaddr\<close>: the MMU's translation of every other linear address stays as it was, and the
  state of the tables stays valid.\<close>

theorem paging_map_4mb_maps:
  assumes "placed D T" "tables_ok D T m" "flags AND 0xFFFFF000 = 0" "bit flags 0"
  shows "let m' = fst (paging_map_4mb (D + KERNEL_CONFIG_VMA) phyaddr linaddr flags m s)
    in tables_ok D T m' \<and> (\<forall>x. walk D m' x = (if drop_bit 22 x = drop_bit 22 linaddr
      then Some ((phyaddr AND 0xFFC00000) OR (x AND 0x3FFFFF)) else walk D m x))"
proof -
  define m' where "m' = fst (paging_map_4mb (D + KERNEL_CONFIG_VMA) phyaddr linaddr flags m s)"
  let ?v = "(phyaddr AND 0xFFC00000) OR PAGING_PDE_SIZE OR flags"
  have m': "m' = store32 m (D + of_nat (4 * di linaddr)) ?v"
    by (simp only: m'_def paging_map_4mb_def Let_def fst_conv kstore_linear index_words)
  note after = entries_after_pde [OF assms(1) di_less [of linaddr], where m = m and v = ?v, folded m']
  note v = frame_word [OF assms(3,4)]
  have walk: "walk D m' x = (if drop_bit 22 x = drop_bit 22 linaddr
      then Some ((phyaddr AND 0xFFC00000) OR (x AND 0x3FFFFF)) else walk D m x)" for x
  proof (cases "di x = di linaddr")
    case True
    then have "pde D m' (di x) = ?v" using after(1) [of "di x"] di_less by simp
    then show ?thesis using True v(3,4,5)
      unfolding walk_entries [OF assms(1)] same_4mb [symmetric] by (simp only: Let_def) simp
  next
    case False
    then have "walk D m' x = walk D m x"
      by (intro walk_keeps [OF assms(1,2)]) (simp_all add: after di_less ti_less)
    with False show ?thesis by (simp flip: same_4mb)
  qed
  have owns': "owns D T m' i t \<Longrightarrow> i \<noteq> di linaddr \<and> owns D T m i t" if "i < 1024" for i t
    using after(1) [OF that] v(5) by (auto simp: owns_def split: if_splits)
  have use': "in_use T m' t \<longleftrightarrow> in_use T m t" if "t < 10" for t
    using after(2) [OF that] by (auto simp: in_use_def)
  have own: "owns D T m' i t" if "i < 1024" "i \<noteq> di linaddr" "owns D T m i t" for i t
    using after(1) [OF that(1)] that by (simp add: owns_def)
  have "tables_ok D T m'"
    unfolding tables_ok_def
  proof (intro conjI allI impI)
    fix i assume i: "i < 1024" "bit (pde D m' i) 0"
    show "bit (pde D m' i) 7 \<or> (\<exists>t < 10. owns D T m' i t \<and> in_use T m' t)"
    proof (cases "bit (pde D m' i) 7")
      case False
      then have "i \<noteq> di linaddr" "pde D m' i = pde D m i"
        using after(1) [OF i(1)] v(5) by (auto split: if_splits)
      then show ?thesis using False i tables_okD [OF assms(2) i(1)] own [OF i(1)] use' by metis
    qed simp
  next
    fix i k t assume "i < 1024" "k < 1024" "t < 10" "owns D T m' i t" "owns D T m' k t"
    then show "i = k" using owns' tables_ok_one [OF assms(2)] by blast
  qed
  moreover note walk
  ultimately show ?thesis by (simp add: m'_def)
qed

text \<open>The two ways to a table: directory entry \<open>i\<close> has it already, or is absent and the table is
  free.\<close>

definition table_for :: "u32 \<Rightarrow> u32 \<Rightarrow> mem \<Rightarrow> nat \<Rightarrow> nat \<Rightarrow> bool" where
  "table_for D T m i t \<longleftrightarrow> owns D T m i t \<or> \<not> bit (pde D m i) 0 \<and> \<not> in_use T m t"

lemma table_for_alone:
  assumes "placed D T" "tables_ok D T m" "table_for D T m i t" "t < 10" "i < 1024" "k < 1024"
    and "owns D T m k t"
  shows "k = i"
proof (cases "owns D T m i t")
  case True
  then show ?thesis using assms tables_ok_one by blast
next
  case False
  have "bit (pde D m k) 0" "\<not> bit (pde D m k) 7" using assms(7) by (simp_all add: owns_def)
  then obtain u where "u < 10" "owns D T m k u" "in_use T m u"
    using tables_okD [OF assms(2,6)] by blast
  moreover from this have "u = t" using same_table [OF assms(1) _ assms(7)] assms(4) by blast
  ultimately show ?thesis using False assms(3) by (simp add: table_for_def)
qed

lemma page_written_ok:
  assumes "placed D T" "tables_ok D T m" "table_for D T m (di y) t" "t < 10" "owns D T m' (di y) t"
    and pdes: "\<And>k. k < 1024 \<Longrightarrow> k \<noteq> di y \<Longrightarrow> pde D m' k = pde D m k"
    and ptes: "\<And>u j. u < 10 \<Longrightarrow> j < 1024 \<Longrightarrow>
      pte T m' u j = (if u = t \<and> j = ti y then (p AND 0xFFFFF000) OR flags else pte T m u j)"
    and flags: "flags AND 0xFFFFF000 = 0" "bit flags 0"
  shows "tables_ok D T m'"
  unfolding tables_ok_def
proof (intro conjI allI impI)
  have other: "owns D T m' k u \<longleftrightarrow> owns D T m k u" if "k < 1024" "k \<noteq> di y" for k u
    using pdes [OF that] by (simp add: owns_def)
  have alone: "u \<noteq> t" if "k < 1024" "k \<noteq> di y" "owns D T m k u" for k u
    using table_for_alone [OF assms(1-4) di_less] that by blast
  have used: "in_use T m' u" if "in_use T m u \<or> u = t" "u < 10" for u
    using that ptes frame_word(2) [OF flags, of p] ti_less [of y] unfolding in_use_def by metis
  {
    fix i assume i: "i < 1024" "bit (pde D m' i) 0"
    show "bit (pde D m' i) 7 \<or> (\<exists>t < 10. owns D T m' i t \<and> in_use T m' t)"
    proof (cases "i = di y \<or> bit (pde D m' i) 7")
      case True
      then show ?thesis using assms(4,5) used by blast
    next
      case False
      then have "bit (pde D m i) 0" "\<not> bit (pde D m i) 7" using i pdes by auto
      with i obtain u where "u < 10" "owns D T m i u" "in_use T m u"
        using tables_okD [OF assms(2)] by blast
      then show ?thesis using False i other used by blast
    qed
  next
    fix i k u assume a: "i < 1024" "k < 1024" "u < 10" "owns D T m' i u" "owns D T m' k u"
    have "l = di y \<longleftrightarrow> u = t" if "l < 1024" "owns D T m' l u" for l
      using same_table [OF assms(1) _ assms(5)] other alone that a(3) assms(4) by blast
    with a show "i = k" using other tables_ok_one [OF assms(2) a(1-3)] by blast
  }
qed

lemma page_written_same:
  assumes "placed D T" "tables_ok D T m" "table_for D T m (di y) t" "t < 10" "owns D T m' (di y) t"
    and pdes: "\<And>k. k < 1024 \<Longrightarrow> k \<noteq> di y \<Longrightarrow> pde D m' k = pde D m k"
    and ptes: "\<And>u j. u < 10 \<Longrightarrow> j < 1024 \<Longrightarrow>
      pte T m' u j = (if u = t \<and> j = ti y then (p AND 0xFFFFF000) OR flags else pte T m u j)"
    and flags: "flags AND 0xFFFFF000 = 0" "bit flags 0"
    and "di x = di y"
  shows "walk D m' x = (if drop_bit 12 x = drop_bit 12 y
      then Some ((p AND 0xFFFFF000) OR (x AND 0xFFF)) else walk D m x)"
proof -
  have new: "walk D m' x = (let e = pte T m' t (ti x) in
      if \<not> bit e 0 then None else Some ((e AND 0xFFFFF000) OR (x AND 0xFFF)))"
    by (rule walk_4kb [OF assms(1)]) (simp add: assms(5,10))
  show ?thesis
  proof (cases "ti x = ti y")
    case same: True
    then show ?thesis unfolding new using assms(10) ptes [OF assms(4) ti_less] frame_word(1,2) [OF flags, of p]
      by (simp only: same_page Let_def) simp
  next
    case False
    have "walk D m' x = walk D m x"
    proof (cases "owns D T m (di y) t")
      case old: True
      then show ?thesis unfolding new using False assms(10) ptes [OF assms(4) ti_less]
        by (simp add: walk_4kb [OF assms(1)])
    next
      case free: False
      then have "\<not> bit (pde D m (di x)) 0" "\<not> bit (pte T m t (ti x)) 0"
        using assms(3,10) ti_less by (auto simp: table_for_def in_use_def)
      then show ?thesis unfolding new walk_entries [OF assms(1), of m]
        using False ptes [OF assms(4) ti_less] by simp
    qed
    then show ?thesis using False by (simp add: same_page)
  qed
qed

lemma page_written:
  assumes "placed D T" "tables_ok D T m" "table_for D T m (di y) t" "t < 10" "owns D T m' (di y) t"
    and pdes: "\<And>k. k < 1024 \<Longrightarrow> k \<noteq> di y \<Longrightarrow> pde D m' k = pde D m k"
    and ptes: "\<And>u j. u < 10 \<Longrightarrow> j < 1024 \<Longrightarrow>
      pte T m' u j = (if u = t \<and> j = ti y then (p AND 0xFFFFF000) OR flags else pte T m u j)"
    and flags: "flags AND 0xFFFFF000 = 0" "bit flags 0"
  shows "tables_ok D T m'"
    and "walk D m' x = (if drop_bit 12 x = drop_bit 12 y
      then Some ((p AND 0xFFFFF000) OR (x AND 0xFFF)) else walk D m x)"
proof -
  show "tables_ok D T m'" by (rule page_written_ok [OF assms])
  show "walk D m' x = (if drop_bit 12 x = drop_bit 12 y
      then Some ((p AND 0xFFFFF000) OR (x AND 0xFFF)) else walk D m x)"
  proof (cases "di x = di y")
    case True
    with page_written_same [OF assms] show ?thesis by blast
  next
    case False
    have "u \<noteq> t" if "owns D T m (di x) u" for u
      using table_for_alone [OF assms(1-4) di_less] di_less [of x] False that by blast
    then have "walk D m' x = walk D m x"
      using ptes [OF _ ti_less] False by (intro walk_keeps [OF assms(1,2)]) (auto simp: pdes di_less)
    then show ?thesis using False by (simp add: same_page)
  qed
qed

text \<open>The routine itself, on its two paths and the one where no table is left.\<close>

lemma map_4kb_entry:
  assumes "bit (pde D m (di y)) 0"
  shows "fst (paging_map_4kb (D + KERNEL_CONFIG_VMA) (T + KERNEL_CONFIG_VMA) p y flags m s)
    = store32 m ((pde D m (di y) AND 0xFFFFF000) + of_nat (4 * ti y)) ((p AND 0xFFFFF000) OR flags)"
proof -
  have e: "(load32 m (D + 4 * drop_bit 22 y) AND 1 = 0) = False" "load32 m (D + 4 * drop_bit 22 y) = pde D m (di y)"
    using assms unfolding index_words by (simp_all add: pde_def and_mask_bit)
  show ?thesis unfolding paging_map_4kb_def
    by (simp only: Let_def kload_linear kstore_linear e(1) if_False split_conv fst_conv) (simp only: e(2) index_words(2))
qed

lemma map_4kb_present:
  assumes "owns D T m (di y) t"
  shows "fst (paging_map_4kb (D + KERNEL_CONFIG_VMA) (T + KERNEL_CONFIG_VMA) p y flags m s)
    = store32 m (T + of_nat (4096 * t + 4 * ti y)) ((p AND 0xFFFFF000) OR flags)"
proof -
  have "T + of_nat (4096 * t + 4 * ti y) = T + of_nat (4096 * t) + of_nat (4 * ti y)" by simp
  then show ?thesis using assms unfolding owns_def by (simp only: map_4kb_entry)
qed

lemma map_4kb_absent:
  assumes "\<not> bit (pde D m (di y)) 0"
  shows "fst (paging_map_4kb (D + KERNEL_CONFIG_VMA) (T + KERNEL_CONFIG_VMA) p y flags m s)
    = (let table = free_table m (T + KERNEL_CONFIG_VMA) 0
       in store32 (store32 m (D + of_nat (4 * di y)) ((table AND 0xFFFFF000) OR 3))
            (table + of_nat (4 * ti y)) ((p AND 0xFFFFF000) OR flags))"
proof -
  have e: "(load32 m (D + 4 * drop_bit 22 y) AND 1 = 0) = True"
    using assms unfolding index_words by (simp add: pde_def and_mask_bit)
  have f: "w OR PAGING_PDE_PRESENT OR PAGING_PDE_READWRITE OR PAGING_PDE_SUPERVISOR = w OR 3" for w
    by (simp add: or.assoc)
  show ?thesis unfolding paging_map_4kb_def paging_get_page_table_def index_words(1) [symmetric]
    by (simp only: Let_def kload_linear kstore_linear e if_True split_conv fst_conv index_words(2) f)
qed

lemma map_4kb_entries:
  fixes phyaddr flags linaddr :: u32 and m :: mem and s :: "'a machine_scheme"
  assumes "placed D T" "tables_ok D T m"
    and "if bit (pde D m (di linaddr)) 0 then \<not> bit (pde D m (di linaddr)) 7
      else \<exists>t < 10. \<not> in_use T m t"
  defines "m' \<equiv> fst (paging_map_4kb (D + KERNEL_CONFIG_VMA) (T + KERNEL_CONFIG_VMA) phyaddr linaddr flags m s)"
  shows "\<exists>t < 10. table_for D T m (di linaddr) t \<and> owns D T m' (di linaddr) t
    \<and> (\<forall>k < 1024. k \<noteq> di linaddr \<longrightarrow> pde D m' k = pde D m k)
    \<and> (\<forall>u < 10. \<forall>j < 1024. pte T m' u j = (if u = t \<and> j = ti linaddr then (phyaddr AND 0xFFFFF000) OR flags else pte T m u j))"
proof (cases "bit (pde D m (di linaddr)) 0")
  case True
  then obtain t where t: "t < 10" "owns D T m (di linaddr) t"
    using assms(2,3) di_less by (auto elim: tables_okD)
  note m' = map_4kb_present [OF t(2), of phyaddr flags s, folded m'_def]
  note after = entries_after_pte [OF assms(1) t(1) ti_less [of linaddr], where m = m and v = "(phyaddr AND 0xFFFFF000) OR flags", folded m']
  have "owns D T m' (di linaddr) t" using t(2) after(1) [OF di_less] by (simp add: owns_def)
  with t after show ?thesis by (intro exI [of _ t]) (auto simp: table_for_def)
next
  case False
  obtain t where t: "t < 10" "\<not> in_use T m t"
    "free_table m (T + KERNEL_CONFIG_VMA) 0 = T + of_nat (4096 * t)"
    using free_table_from [of 0 T m] assms(3) False by auto
  let ?w = "(T + of_nat (4096 * t)) AND 0xFFFFF000 OR 3"
  define m1 where "m1 = store32 m (D + of_nat (4 * di linaddr)) ?w"
  have sum: "T + of_nat (4096 * t) + of_nat (4 * ti linaddr) = T + of_nat (4096 * t + 4 * ti linaddr)" by simp
  have m': "m' = store32 m1 (T + of_nat (4096 * t + 4 * ti linaddr)) ((phyaddr AND 0xFFFFF000) OR flags)"
    using map_4kb_absent [OF False, of T phyaddr flags s]
    unfolding m'_def [symmetric] t(3) Let_def sum m1_def [symmetric] .
  note one = entries_after_pde [OF assms(1) di_less [of linaddr], where m = m and v = ?w, folded m1_def]
  note two = entries_after_pte [OF assms(1) t(1) ti_less [of linaddr], where m = m1 and v = "(phyaddr AND 0xFFFFF000) OR flags", folded m']
  have al: "aligned (T + of_nat (4096 * t))"
    using aligned_add [of T "of_nat t"] assms(1) by (simp add: placed_def)
  have "?w AND 0xFFFFF000 = T + of_nat (4096 * t)" "bit ?w 0"
    using frame_word(1,2) [of 3 "T + of_nat (4096 * t)"] aligned_frame [OF al] by simp_all
  moreover have "\<not> bit ?w 7" using aligned_bits [OF al, of 7] by (simp add: bit_simps)
  ultimately have "owns D T m' (di linaddr) t"
    using one(1) [OF di_less [of linaddr]] two(1) [OF di_less [of linaddr]] by (simp add: owns_def)
  with t False one two show ?thesis by (intro exI [of _ t]) (auto simp: table_for_def)
qed

text \<open>The tables in use: a mapping takes at most one more.\<close>

definition used_tables :: "u32 \<Rightarrow> mem \<Rightarrow> nat set" where
  "used_tables T m = {t. t < 10 \<and> in_use T m t}"

lemma finite_used [simp]: "finite (used_tables T m)"
  by (simp add: used_tables_def)

lemma used_tables_free:
  assumes "card (used_tables T m) < 10" shows "\<exists>t < 10. \<not> in_use T m t"
proof (rule ccontr)
  assume "\<not> (\<exists>t < 10. \<not> in_use T m t)"
  then have "used_tables T m = {..<10}" by (auto simp: used_tables_def)
  then show False using assms by simp
qed

lemma map_4kb_used:
  assumes "placed D T" "tables_ok D T m"
    and "if bit (pde D m (di y)) 0 then \<not> bit (pde D m (di y)) 7 else \<exists>t < 10. \<not> in_use T m t"
  shows "card (used_tables T (fst (paging_map_4kb (D + KERNEL_CONFIG_VMA) (T + KERNEL_CONFIG_VMA) p y flags m s)))
    \<le> Suc (card (used_tables T m))"
proof -
  define m' where "m' = fst (paging_map_4kb (D + KERNEL_CONFIG_VMA) (T + KERNEL_CONFIG_VMA) p y flags m s)"
  obtain t where "\<And>u j. u < 10 \<Longrightarrow> j < 1024 \<Longrightarrow> u \<noteq> t \<Longrightarrow> pte T m' u j = pte T m u j"
    using map_4kb_entries [OF assms, of p flags s, folded m'_def] by metis
  then have "used_tables T m' \<subseteq> insert t (used_tables T m)"
    unfolding used_tables_def in_use_def by auto
  then have "card (used_tables T m') \<le> card (insert t (used_tables T m))" by (intro card_mono) simp_all
  also have "\<dots> \<le> Suc (card (used_tables T m))" by (rule card_insert_le_m1) simp_all
  finally show ?thesis by (simp add: m'_def)
qed

lemma map_4kb_walk:
  assumes "placed D T" "tables_ok D T m" "flags AND 0xFFFFF000 = 0" "bit flags 0"
    and "if bit (pde D m (di linaddr)) 0 then \<not> bit (pde D m (di linaddr)) 7
      else \<exists>t < 10. \<not> in_use T m t"
  shows "let m' = fst (paging_map_4kb (D + KERNEL_CONFIG_VMA) (T + KERNEL_CONFIG_VMA)
      phyaddr linaddr flags m s)
    in tables_ok D T m' \<and> (\<exists>t < 10. owns D T m' (di linaddr) t)
      \<and> (\<forall>i < 1024. i \<noteq> di linaddr \<longrightarrow> pde D m' i = pde D m i) \<and> (\<forall>x. walk D m' x = (if drop_bit 12 x = drop_bit 12 linaddr
      then Some ((phyaddr AND 0xFFFFF000) OR (x AND 0xFFF)) else walk D m x))"
proof -
  let ?y = linaddr and ?v = "(phyaddr AND 0xFFFFF000) OR flags"
  define m' where "m' = fst (paging_map_4kb (D + KERNEL_CONFIG_VMA) (T + KERNEL_CONFIG_VMA)
    phyaddr linaddr flags m s)"
  note map_4kb_entries [OF assms(1,2,5), of phyaddr flags s, folded m'_def]
  then obtain t where t: "t < 10" "table_for D T m (di ?y) t" "owns D T m' (di ?y) t"
    "\<And>k. k < 1024 \<Longrightarrow> k \<noteq> di ?y \<Longrightarrow> pde D m' k = pde D m k"
    "\<And>u j. u < 10 \<Longrightarrow> j < 1024 \<Longrightarrow> pte T m' u j = (if u = t \<and> j = ti ?y then ?v else pte T m u j)"
    by blast
  note page_written [OF assms(1,2) t(2,1,3,4,5) assms(3,4)]
  with t(1,3,4) show ?thesis by (auto simp: m'_def [symmetric] Let_def)
qed

text \<open>C15. \<open>paging_map_4kb\<close> maps exactly the page of \<open>linaddr\<close> onto the frame of \<open>phyaddr\<close>
  when its directory entry refers to a table or is absent with a table free: every other
  address translates as before, and the state of the tables stays valid.\<close>

theorem paging_map_4kb_maps:
  assumes "placed D T" "tables_ok D T m" "flags AND 0xFFFFF000 = 0" "bit flags 0"
    and "if bit (pde D m (di linaddr)) 0 then \<not> bit (pde D m (di linaddr)) 7
      else \<exists>t < 10. \<not> in_use T m t"
  shows "let m' = fst (paging_map_4kb (D + KERNEL_CONFIG_VMA) (T + KERNEL_CONFIG_VMA)
      phyaddr linaddr flags m s)
    in tables_ok D T m' \<and> (\<forall>x. walk D m' x = (if drop_bit 12 x = drop_bit 12 linaddr
      then Some ((phyaddr AND 0xFFFFF000) OR (x AND 0xFFF)) else walk D m x))"
  using map_4kb_walk [OF assms, of phyaddr s] by (simp only: Let_def) blast

text \<open>C38. \<open>paging_map_4kb\<close> does not look at the size bit of the directory entry: inside a 4 MB page
  it takes the page itself for a page table. The mapping is not made, and a word in the first
  4 KB of the page is overwritten with the new entry, wherever the kernel reaches that word at its
  address in the kernel's half (for a page with a frame below 1 GB that \<open>paging_map_4mb\<close> maps
  there, for example).\<close>

theorem paging_map_4kb_over_4mb:
  fixes D T y phyaddr flags :: u32 and m :: mem and s :: "'a machine_scheme"
  defines "m' \<equiv> fst (paging_map_4kb (D + KERNEL_CONFIG_VMA) (T + KERNEL_CONFIG_VMA) phyaddr y flags m s)"
    and "word \<equiv> (pde D m (di y) AND 0xFFFFF000) + of_nat (4 * ti y)"
  assumes "aligned D" "bit (pde D m (di y)) 0" "bit (pde D m (di y)) 7" "apart word 4 D 4096"
    and "walk D m (word + KERNEL_CONFIG_VMA) = Some word"
  shows "walk D m' y = walk D m y \<and> walk D m' y = Some ((pde D m (di y) AND 0xFFC00000) OR (y AND 0x3FFFFF))
    \<and> load32 m' word = (phyaddr AND 0xFFFFF000) OR flags \<and> (\<forall>x. \<not> in_range word 4 x \<longrightarrow> m' x = m x)"
proof -
  have m': "m' = store32 m word ((phyaddr AND 0xFFFFF000) OR flags)"
    unfolding m'_def word_def by (rule map_4kb_entry [OF assms(4)])
  have "apart (D + of_nat (4 * di y)) 4 word 4"
    by (rule apart_shift [where n = 4096]) (use assms(6) di_less [of y] in \<open>simp_all add: apart_commute\<close>)
  then have "pde D m' (di y) = pde D m (di y)" unfolding pde_def m' by (simp add: quad.ld_st_apart apart_commute)
  moreover have "D AND 0xFFFFF000 = D" by (rule aligned_frame [OF assms(3)])
  ultimately show ?thesis using assms(4,5)
    unfolding walk_def by (simp add: m' quad.ld_st quad.st_other index_words pde_def)
qed

text \<open>C37. With every table in use, \<open>paging_map_4kb\<close> does not notice that
  \<open>paging_get_page_table\<close> returned NULL: it makes physical page 0, where the BIOS keeps its
  data, the page table of the region, and writes the new entry there.\<close>

theorem paging_map_4kb_no_table:
  assumes "\<not> bit (pde D m (di linaddr)) 0" "\<forall>t < 10. in_use T m t"
  shows "fst (paging_map_4kb (D + KERNEL_CONFIG_VMA) (T + KERNEL_CONFIG_VMA) phyaddr linaddr flags m s)
    = store32 (store32 m (D + of_nat (4 * di linaddr)) 3) (of_nat (4 * ti linaddr))
        ((phyaddr AND 0xFFFFF000) OR flags)"
proof -
  have "free_table m (T + KERNEL_CONFIG_VMA) 0 = 0" using free_table_from [of 0 T m] assms(2) by auto
  then show ?thesis using map_4kb_absent [OF assms(1), of T phyaddr flags s] by (simp add: Let_def)
qed

section \<open>Asking for an address\<close>

text \<open>C36. Where physical addresses can be read as linear ones, \<open>paging_get_phyaddr\<close> is the
  MMU's walk from CR3, with 0 for an address that is not mapped. But it follows physical
  addresses as pointers: with a directory that does not map itself, it faults on every
  argument.\<close>

theorem paging_get_phyaddr_walk:
  assumes "aligned (paging_get_page_directory s)"
  shows "paging_get_phyaddr Some x m s
      = Some (case walk (paging_get_page_directory s) m x of Some a \<Rightarrow> a | None \<Rightarrow> 0)
    \<and> (tr (paging_get_page_directory s + 4 * drop_bit 22 x) = None \<longrightarrow> paging_get_phyaddr tr x m s = None)"
  using aligned_frame [OF assms]
  by (auto simp: paging_get_phyaddr_def walk_def vload_def and_mask_bit Let_def)

section \<open>The kernel's own directory\<close>

lemma load32_zero: "(\<And>x. in_range a 4 x \<Longrightarrow> m x = 0) \<Longrightarrow> load32 m a = 0"
proof -
  assume "\<And>x. in_range a 4 x \<Longrightarrow> m x = 0"
  then have "load32 m a = load32 (\<lambda>_. 0) a" by (rule quad.ld_cong)
  then show ?thesis by (simp add: load32_def)
qed

lemma cleared:
  assumes "placed D T" "apart ke 4 D 4096" "apart ke 4 T 40960"
    and "m' = fst (memset (fst (memset m D 0 4096)) T 0 (4096 * of_nat 10))"
  shows "i < 1024 \<Longrightarrow> pde D m' i = 0" "t < 10 \<Longrightarrow> j < 1024 \<Longrightarrow> pte T m' t j = 0"
    "load32 m' ke = load32 m ke"
proof -
  have m': "m' x = (if in_range D 4096 x \<or> in_range T 40960 x then 0 else m x)" for x
    by (simp add: assms(4) memset_filled filled_def)
  show "pde D m' i = 0" if "i < 1024"
    unfolding pde_def using that by (intro load32_zero) (auto simp: m' simp del: of_nat_add of_nat_mult dest!: in_range_part [where k = 4096])
  show "pte T m' t j = 0" if "t < 10" "j < 1024"
    unfolding pte_def pte_index using that
    by (intro load32_zero) (auto simp: m' simp del: of_nat_add of_nat_mult dest!: in_range_part [where k = 40960])
  show "load32 m' ke = load32 m ke"
    using assms(2,3) by (intro quad.ld_cong) (auto simp: m' apart_iff)
qed

text \<open>The mapping loop, from its round \<open>k\<close> on.\<close>

lemma round_addr:
  assumes "k < 256"
  shows "unat (of_nat (k * 0x400000) :: u32) = k * 0x400000"
    "di (of_nat (k * 0x400000) + KERNEL_CONFIG_VMA) = 768 + k"
    "of_nat (k * 0x400000) AND 0xFFC00000 = (of_nat (k * 0x400000) :: u32)"
proof -
  show u: "unat (of_nat (k * 0x400000) :: u32) = k * 0x400000"
    using assms by (simp add: unat_of_nat del: of_nat_mult)
  then have "unat (of_nat (k * 0x400000) + KERNEL_CONFIG_VMA) = k * 0x400000 + 0xC0000000"
    using assms by (simp add: unat_word_ariths del: of_nat_mult)
  then show "di (of_nat (k * 0x400000) + KERNEL_CONFIG_VMA) = 768 + k"
    by (simp add: di_def unat_drop_bit_eq drop_bit_eq_div unat_div del: of_nat_mult)
  have "(of_nat (k * 0x400000) :: u32) = push_bit 22 (of_nat k)" by (simp add: push_bit_eq_mult)
  then show "of_nat (k * 0x400000) AND 0xFFC00000 = (of_nat (k * 0x400000) :: u32)"
    unfolding paging_masks by (simp only:) (rule bit_word_eqI, auto simp: bit_simps)
qed

lemma map_loop_kernel:
  assumes "placed D T" "apart ke 4 D 4096" "load32 m ke = bound" "unat bound < 0x3EC00000"
    and N: "N = unat bound div 0x400000 + 1" and "k \<le> N"
  shows "\<exists>m' s'. paging_map_loop (D + KERNEL_CONFIG_VMA) ke (of_nat (k * 0x400000)) m s = Some (m', s')
    \<and> (\<forall>i < 1024. pde D m' i
          = (if 768 + k \<le> i \<and> i < 768 + N then of_nat ((i - 768) * 0x400000) OR 0x83 else pde D m i))
    \<and> (\<forall>t < 10. \<forall>j < 1024. pte T m' t j = pte T m t j)"
  using assms(3,6)
proof (induction "N - k" arbitrary: k m s)
  case 0
  have "\<not> of_nat (k * 0x400000) \<le> bound"
    using 0 assms(4) N round_addr(1) [of k] by (simp add: word_le_nat_alt del: of_nat_mult)
  then have "paging_map_loop (D + KERNEL_CONFIG_VMA) ke (of_nat (k * 0x400000)) m s = Some (m, s)"
    using 0 by (subst paging_map_loop.simps) (simp del: of_nat_mult)
  then show ?case using 0 by auto
next
  case (Suc d)
  then have k: "k < N" "N \<le> 251" using assms(4) N by simp_all
  define a :: u32 where "a = of_nat (k * 0x400000)"
  have a: "unat a = k * 0x400000" "di (a + KERNEL_CONFIG_VMA) = 768 + k" "a AND 0xFFC00000 = a"
    "a + 0x400000 = of_nat (Suc k * 0x400000)"
    using round_addr [of k] k by (simp_all add: a_def)
  have "a \<le> bound" using k N by (simp add: word_le_nat_alt a(1))
  define s1 where "s1 = print ''    mapping 4MiB from phyaddr 0x%x to virtaddr 0x%x\<newline>''
    [Num a, Num (a + KERNEL_CONFIG_VMA)] s"
  define m1 where "m1 = store32 m (D + of_nat (4 * (768 + k))) (a OR 0x83)"
  have "(a OR 0x80) OR 3 = a OR 0x83" by (simp add: or.assoc)
  then have eq: "paging_map_4mb (D + KERNEL_CONFIG_VMA) a (a + KERNEL_CONFIG_VMA)
      (PAGING_PDE_PRESENT OR PAGING_PDE_READWRITE OR PAGING_PDE_SUPERVISOR) m s1
    = (m1, paging_flush_ptbl_entry (a + KERNEL_CONFIG_VMA) s1)"
    unfolding paging_map_4mb_def index_words kstore_linear a(2,3) by (simp add: m1_def Let_def)
  have step: "paging_map_loop (D + KERNEL_CONFIG_VMA) ke a m s
    = paging_map_loop (D + KERNEL_CONFIG_VMA) ke (of_nat (Suc k * 0x400000)) m1
        (paging_flush_ptbl_entry (a + KERNEL_CONFIG_VMA) s1)"
    by (subst paging_map_loop.simps)
       (simp only: Suc.prems(1) \<open>a \<le> bound\<close> if_True Let_def s1_def [symmetric] eq split_conv a(4))
  have "768 + k < 1024" using k by simp
  note after = entries_after_pde [OF assms(1) this, where m = m and v = "a OR 0x83", folded m1_def]
  have "apart (D + of_nat (4 * (768 + k))) 4 ke 4"
    by (rule apart_shift [where n = 4096]) (use assms(2) k in \<open>simp_all add: apart_commute\<close>)
  then have "load32 m1 ke = bound" unfolding m1_def using Suc.prems(1) by (simp add: quad.ld_st_apart)
  moreover have "d = N - Suc k" "Suc k \<le> N" using Suc.hyps(2) k by simp_all
  ultimately obtain m' s' where m': "paging_map_loop (D + KERNEL_CONFIG_VMA) ke (of_nat (Suc k * 0x400000)) m1
        (paging_flush_ptbl_entry (a + KERNEL_CONFIG_VMA) s1) = Some (m', s')"
      "\<forall>i < 1024. pde D m' i
          = (if 768 + Suc k \<le> i \<and> i < 768 + N then of_nat ((i - 768) * 0x400000) OR 0x83 else pde D m1 i)"
      "\<forall>t < 10. \<forall>j < 1024. pte T m' t j = pte T m1 t j"
    using Suc.hyps(1) by blast
  have "pde D m' i = (if 768 + k \<le> i \<and> i < 768 + N then of_nat ((i - 768) * 0x400000) OR 0x83 else pde D m i)"
    if "i < 1024" for i
    using m'(2) after(1) [OF that] that k by (cases "i = 768 + k") (auto simp: a_def)
  then show ?case using step m'(1,3) after(2) unfolding a_def by auto
qed

text \<open>A directory whose entries are absent or 4 MB pages of the kernel's half.\<close>

lemma walk_kernel:
  assumes "placed D T" "N \<le> 256"
    and pdes: "\<And>i. i < 1024 \<Longrightarrow> pde D m i
          = (if 768 \<le> i \<and> i < 768 + N then of_nat ((i - 768) * 0x400000) OR 0x83 else 0)"
  shows "walk D m x = (if 0xC0000000 \<le> x \<and> unat x < 0xC0000000 + N * 0x400000
    then Some (x - KERNEL_CONFIG_VMA) else None)"
proof -
  have "di x = unat x div 0x400000" by (simp add: di_def unat_drop_bit_eq drop_bit_eq_div unat_div)
  then have region: "768 \<le> di x \<and> di x < 768 + N \<longleftrightarrow> 0xC0000000 \<le> x \<and> unat x < 0xC0000000 + N * 0x400000"
    by (auto simp: word_le_nat_alt div_less_iff_less_mult less_eq_div_iff_mult_less_eq)
  show ?thesis
  proof (cases "768 \<le> di x \<and> di x < 768 + N")
    case True
    define a :: u32 where "a = of_nat ((di x - 768) * 0x400000)"
    have k: "di x - 768 < 256" using di_less [of x] by simp
    have a: "a AND 0xFFC00000 = a" unfolding a_def by (rule round_addr(3) [OF k])
    have e: "pde D m (di x) = (a AND 0xFFC00000) OR 0x80 OR 3"
      using pdes [OF di_less [of x]] True a by (simp add: a_def or.assoc del: of_nat_mult)
    have f: "pde D m (di x) AND 0xFFC00000 = a" "bit (pde D m (di x)) 0" "bit (pde D m (di x)) 7"
      unfolding e using frame_word(3,4,5) [of 3 a] a by simp_all
    have "a AND (x AND mask 22) = 0"
    proof -
      have "a AND (x AND mask 22) = (a AND NOT (mask 22)) AND (x AND mask 22)" using a by (simp add: paging_masks)
      also have "\<dots> = 0" by (rule bit_word_eqI) (simp add: bit_simps)
      finally show ?thesis .
    qed
    then have "a OR (x AND mask 22) = a + (x AND mask 22)" by (rule disjunctive_add_eq_or [symmetric])
    also have "\<dots> = x - KERNEL_CONFIG_VMA"
    proof -
      have "unat a = (di x - 768) * 0x400000" unfolding a_def by (rule round_addr(1) [OF k])
      moreover have "unat (x AND mask 22) = unat x mod 0x400000"
        by (simp flip: take_bit_eq_mask add: unsigned_take_bit_eq take_bit_eq_mod unat_mod)
      moreover have "unat x = di x * 0x400000 + unat x mod 0x400000" using \<open>di x = _\<close> by simp
      moreover obtain l where "di x = 768 + l" using True le_Suc_ex by blast
      ultimately have "unat x = unat a + unat (x AND mask 22) + 0xC0000000" by simp
      then have "(of_nat (unat x) :: u32) = of_nat (unat a + unat (x AND mask 22) + 0xC0000000)" by (rule arg_cong)
      then have "x = a + (x AND mask 22) + KERNEL_CONFIG_VMA" by simp
      then show ?thesis by (metis add_diff_cancel_right')
    qed
    finally show ?thesis using f True unfolding walk_entries [OF assms(1)] region [symmetric]
      by (simp add: paging_masks)
  next
    case False
    then have "pde D m (di x) = 0" using pdes [OF di_less [of x]] by (simp only: if_False)
    then show ?thesis using False unfolding walk_entries [OF assms(1)] region [symmetric] by simp
  qed
qed

lemma init_directory:
  assumes "placed D T" "apart ke 4 D 4096" "apart ke 4 T 40960" "unat (load32 m ke) < 0x3EC00000"
    and m2: "m2 = fst (memset (fst (memset m D 0 4096)) T 0 (4096 * of_nat 10))"
  shows "\<exists>m3 s3. paging_map_loop (D + KERNEL_CONFIG_VMA) ke 0 m2 s = Some (m3, s3)
    \<and> tables_ok D T m3 \<and> (\<forall>t < 10. \<not> in_use T m3 t) \<and> \<not> bit (pde D m3 1019) 0
    \<and> (\<forall>i < 1024. pde D m3 i = (if 768 \<le> i \<and> i < 769 + unat (load32 m ke) div 0x400000
          then of_nat ((i - 768) * 0x400000) OR 0x83 else 0))
    \<and> (\<forall>x. walk D m3 x = (if KERNEL_CONFIG_VMA \<le> x
          \<and> unat x < 0xC0000000 + (unat (load32 m ke) div 0x400000 + 1) * 0x400000
        then Some (x - KERNEL_CONFIG_VMA) else None))"
proof -
  define N where "N = unat (load32 m ke) div 0x400000 + 1"
  note clr = cleared [OF assms(1-3) m2]
  have "unat (load32 m ke) < 0x3EC00000" by (rule assms(4))
  then have N: "N \<le> 251" by (simp add: N_def)
  obtain m3 s3 where loop: "paging_map_loop (D + KERNEL_CONFIG_VMA) ke 0 m2 s = Some (m3, s3)"
      and pdes: "\<And>i. i < 1024 \<Longrightarrow> pde D m3 i
          = (if 768 \<le> i \<and> i < 768 + N then of_nat ((i - 768) * 0x400000) OR 0x83 else 0)"
      and ptes: "\<And>t j. t < 10 \<Longrightarrow> j < 1024 \<Longrightarrow> pte T m3 t j = 0"
    using map_loop_kernel [OF assms(1,2) clr(3) assms(4) N_def, of 0 s] clr(1,2) by auto
  have big: "bit (pde D m3 i) 7" if "i < 1024" "bit (pde D m3 i) 0" for i
  proof -
    have i: "i - 768 < 256" using that by simp
    from that(2) pdes [OF that(1)] have "768 \<le> i \<and> i < 768 + N" by (auto split: if_splits)
    then have "pde D m3 i = (of_nat ((i - 768) * 0x400000) AND 0xFFC00000) OR 0x80 OR 3"
      unfolding round_addr(3) [OF i] by (simp add: pdes [OF that(1)] or.assoc del: of_nat_mult)
    then show ?thesis using frame_word(5) [of 3] by simp
  qed
  then have "tables_ok D T m3" by (auto simp: tables_ok_def owns_def)
  moreover have "\<not> in_use T m3 t" if "t < 10" for t using ptes [OF that] by (auto simp: in_use_def)
  moreover have "pde D m3 1019 = 0" using pdes [of 1019] N by simp
  moreover have "N \<le> 256" using N by simp
  moreover have n: "769 + unat (load32 m ke) div 0x400000 = 768 + N" by (simp add: N_def)
  note walk_kernel [OF assms(1) \<open>N \<le> 256\<close> pdes]
  moreover have "\<not> bit (pde D m3 1019) 0" using \<open>pde D m3 1019 = 0\<close> by simp
  ultimately show ?thesis using loop pdes unfolding n N_def [symmetric] by blast
qed

lemma page_of: "push_bit 12 (drop_bit 12 x) OR (x AND 0xFFF) = (x :: u32)"
  unfolding paging_masks by (rule bit_word_eqI) (auto simp: bit_simps)

text \<open>The pages of the two APICs, which share a page table.\<close>

definition apic_table :: "u32 \<Rightarrow> u32 \<Rightarrow> mem \<Rightarrow> bool" where
  "apic_table D T m \<longleftrightarrow> (\<exists>t < 10. owns D T m 1019 t) \<and> card (used_tables T m) \<le> 2"

lemma apic_pages:
  assumes "placed D T" "tables_ok D T m" "\<forall>t < 10. \<not> in_use T m t" "\<not> bit (pde D m 1019) 0"
    and four: "paging_map_4kb (D + KERNEL_CONFIG_VMA) (T + KERNEL_CONFIG_VMA) 0xFEC00000 0xFEC00000 apic_flags m s = (m4, s4)"
    and five: "paging_map_4kb (D + KERNEL_CONFIG_VMA) (T + KERNEL_CONFIG_VMA) 0xFEE00000 0xFEE00000 apic_flags m4 s4 = (m5, s5)"
  shows "tables_ok D T m5" "walk D m5 x = (if drop_bit 12 x = 0xFEC00 \<or> drop_bit 12 x = 0xFEE00 then Some x else walk D m x)"
    "i < 1024 \<Longrightarrow> i \<noteq> 1019 \<Longrightarrow> pde D m5 i = pde D m i" "apic_table D T m5"
proof -
  have flags: "apic_flags AND 0xFFFFF000 = 0" "bit apic_flags 0" by (simp_all add: apic_flags_def)
  have idx: "di 0xFEC00000 = 1019" "di 0xFEE00000 = 1019" by (simp_all add: di_def)
  have "if bit (pde D m (di 0xFEC00000)) 0 then \<not> bit (pde D m (di 0xFEC00000)) 7
      else \<exists>t < 10. \<not> in_use T m t" using assms(3,4) by (auto simp: idx intro: exI [of _ 0])
  note u4 = map_4kb_used [OF assms(1,2) this, where p = "0xFEC00000" and flags = apic_flags and s = s, unfolded four fst_conv]
    and w4 = map_4kb_walk [OF assms(1,2) flags this, where phyaddr = "0xFEC00000" and s = s, unfolded four fst_conv Let_def]
  then have "if bit (pde D m4 (di 0xFEE00000)) 0 then \<not> bit (pde D m4 (di 0xFEE00000)) 7
      else \<exists>t < 10. \<not> in_use T m4 t" by (auto simp: idx owns_def)
  note u5 = map_4kb_used [OF assms(1) conjunct1 [OF w4] this, where p = "0xFEE00000" and flags = apic_flags and s = s4, unfolded five fst_conv]
    and w5 = map_4kb_walk [OF assms(1) conjunct1 [OF w4] flags this, where phyaddr = "0xFEE00000" and s = s4,
    unfolded five fst_conv Let_def]
  have page: "(0xFEC00000 AND 0xFFFFF000) OR (x AND 0xFFF) = x" if "drop_bit 12 x = 0xFEC00"
    using page_of [of x] that by simp
  have page': "(0xFEE00000 AND 0xFFFFF000) OR (x AND 0xFFF) = x" if "drop_bit 12 x = 0xFEE00"
    using page_of [of x] that by simp
  show "tables_ok D T m5" using w5 by blast
  show "walk D m5 x = (if drop_bit 12 x = 0xFEC00 \<or> drop_bit 12 x = 0xFEE00 then Some x else walk D m x)"
    using w4 w5 page page' by simp
  show "pde D m5 i = pde D m i" if "i < 1024" "i \<noteq> 1019" using w4 w5 that by (simp add: idx)
  have "used_tables T m = {}" using assms(3) by (auto simp: used_tables_def)
  then show "apic_table D T m5" using u4 u5 w5 by (auto simp: apic_table_def idx)
qed

lemma init_translation:
  assumes "placed D T" "apart ke 4 D 4096" "apart ke 4 T 40960" "unat (load32 m ke) < 0x3EC00000"
  shows "\<exists>m' s' es cr4 cr0.
    paging_init (D + KERNEL_CONFIG_VMA) (T + KERNEL_CONFIG_VMA) ke m s = Some (m', s')
    \<and> (\<forall>x. walk D m' x =
          (if drop_bit 12 x = 0xFEC00 \<or> drop_bit 12 x = 0xFEE00 then Some x
           else if KERNEL_CONFIG_VMA \<le> x
             \<and> unat x < 0xC0000000 + (unat (load32 m ke) div 0x400000 + 1) * 0x400000
           then Some (x - KERNEL_CONFIG_VMA) else None))
    \<and> tables_ok D T m'
    \<and> (\<forall>i < 1024. i \<noteq> 1019 \<longrightarrow> pde D m' i = (if 768 \<le> i \<and> i < 769 + unat (load32 m ke) div 0x400000
          then of_nat ((i - 768) * 0x400000) OR 0x83 else 0))
    \<and> trace s' = es @ [MovCr 3 D, MovCr 4 cr4, MovCr 0 cr0] \<and> bit cr4 4 \<and> bit cr0 31 \<and> apic_table D T m'"
proof -
  let ?D = "D + KERNEL_CONFIG_VMA" and ?T = "T + KERNEL_CONFIG_VMA"
  define s1 where "s1 = print ''Initializing PAGING !\<newline>'' [] s"
  define m2 where "m2 = fst (memset (fst (memset m D 0 4096)) T 0 (4096 * of_nat 10))"
  obtain m3 s3 where three: "paging_map_loop ?D ke 0 m2 s1 = Some (m3, s3)"
    "tables_ok D T m3" "\<forall>t < 10. \<not> in_use T m3 t" "\<not> bit (pde D m3 1019) 0"
    "\<And>x. walk D m3 x = (if KERNEL_CONFIG_VMA \<le> x
          \<and> unat x < 0xC0000000 + (unat (load32 m ke) div 0x400000 + 1) * 0x400000
        then Some (x - KERNEL_CONFIG_VMA) else None)"
    "\<And>i. i < 1024 \<Longrightarrow> pde D m3 i = (if 768 \<le> i \<and> i < 769 + unat (load32 m ke) div 0x400000
          then of_nat ((i - 768) * 0x400000) OR 0x83 else 0)"
    using init_directory [OF assms m2_def, of s1] by blast
  obtain m4 s4 where four: "paging_map_4kb ?D ?T 0xFEC00000 0xFEC00000 apic_flags m3 s3 = (m4, s4)"
    by (cases "paging_map_4kb ?D ?T 0xFEC00000 0xFEC00000 apic_flags m3 s3")
  obtain m5 s5 where five: "paging_map_4kb ?D ?T 0xFEE00000 0xFEE00000 apic_flags m4 s4 = (m5, s5)"
    by (cases "paging_map_4kb ?D ?T 0xFEE00000 0xFEE00000 apic_flags m4 s4")
  note pages = apic_pages [OF assms(1) three(2-4) four five]
  define s6 where "s6 = paging_enable (paging_set_page_directory D s5)"
  moreover have "paging_init ?D ?T ke m s = Some (m5, s6)"
    using three(1) by (simp add: paging_init_def s1_def [symmetric] m2_def [symmetric] four five s6_def
        del: of_nat_numeral)
  moreover have "trace s6 = trace s5 @ [MovCr 3 D, MovCr 4 (read_cr 4 (paging_set_page_directory D s5) OR 0x10),
      MovCr 0 (read_cr 0 (emit (MovCr 4 (read_cr 4 (paging_set_page_directory D s5) OR 0x10))
        (paging_set_page_directory D s5)) OR 0x80000000)]"
    by (simp add: s6_def paging_enable_def paging_set_page_directory_def Let_def)
  ultimately show ?thesis using pages three(5,6) by (auto simp: bit_simps)
qed

text \<open>C9. After \<open>paging_init\<close> the MMU maps the kernel's half onto the first physical memory, as
  far as the 4 MB region that holds the bound the code reads, and the two APIC pages onto
  themselves; every other linear address faults. CR3 gets the physical address of the
  directory, then 4 MB pages are enabled, and paging last.\<close>

theorem paging_init_translation:
  assumes "placed D T" "apart ke 4 D 4096" "apart ke 4 T 40960" "unat (load32 m ke) < 0x3EC00000"
  shows "\<exists>m' s' es cr4 cr0.
    paging_init (D + KERNEL_CONFIG_VMA) (T + KERNEL_CONFIG_VMA) ke m s = Some (m', s')
    \<and> (\<forall>x. walk D m' x =
          (if drop_bit 12 x = 0xFEC00 \<or> drop_bit 12 x = 0xFEE00 then Some x
           else if KERNEL_CONFIG_VMA \<le> x
             \<and> unat x < 0xC0000000 + (unat (load32 m ke) div 0x400000 + 1) * 0x400000
           then Some (x - KERNEL_CONFIG_VMA) else None))
    \<and> tables_ok D T m'
    \<and> trace s' = es @ [MovCr 3 D, MovCr 4 cr4, MovCr 0 cr0] \<and> bit cr4 4 \<and> bit cr0 31"
  using init_translation [OF assms, of s] by blast

lemma bound_apart:
  assumes "apart ke 4 D 4096"
  shows "load32 (kstore m (D + KERNEL_CONFIG_VMA + 4 * drop_bit 22 y) v) ke = load32 m ke"
proof -
  have "apart (D + of_nat (4 * di y)) 4 ke 4"
    by (rule apart_shift [where n = 4096]) (use assms di_less [of y] in \<open>simp_all add: apart_commute\<close>)
  then show ?thesis by (simp only: kstore_linear index_words quad.ld_st_apart)
qed

lemma multiple_4mb: "(a :: u32) AND 0x3FFFFF = 0 \<longleftrightarrow> unat a mod 0x400000 = 0"
proof -
  have "a AND 0x3FFFFF = a mod 0x400000"
    unfolding paging_masks take_bit_eq_mask [symmetric] by (simp add: take_bit_eq_mod)
  then show ?thesis by (simp add: word_unat_eq_iff unat_mod)
qed

lemma map_loop_bound:
  assumes "paging_map_loop L ke a m s = Some r" "L = D + KERNEL_CONFIG_VMA" "apart ke 4 D 4096"
    and "a AND 0x3FFFFF = 0"
  shows "load32 m ke < 0xFFC00000"
proof -
  have "L = D + KERNEL_CONFIG_VMA \<longrightarrow> apart ke 4 D 4096 \<longrightarrow> a AND 0x3FFFFF = 0 \<longrightarrow> load32 m ke < 0xFFC00000"
  proof (rule paging_map_loop.raw_induct [where P = "\<lambda>L ke a m s r. L = D + KERNEL_CONFIG_VMA \<longrightarrow>
      apart ke 4 D 4096 \<longrightarrow> a AND 0x3FFFFF = 0 \<longrightarrow> load32 m ke < 0xFFC00000", OF _ assms(1)], intro impI)
    fix loop L ke a m s r
    assume IH: "\<And>L ke a m s r. loop L ke a m s = Some r \<Longrightarrow> L = D + KERNEL_CONFIG_VMA \<longrightarrow>
        apart ke 4 D 4096 \<longrightarrow> a AND 0x3FFFFF = 0 \<longrightarrow> load32 m ke < 0xFFC00000"
      and run: "(if a \<le> load32 m ke then
        let s = print ''    mapping 4MiB from phyaddr 0x%x to virtaddr 0x%x\<newline>'' [Num a, Num (a + KERNEL_CONFIG_VMA)] s;
            (x, y) = paging_map_4mb L a (a + KERNEL_CONFIG_VMA)
              (PAGING_PDE_PRESENT OR PAGING_PDE_READWRITE OR PAGING_PDE_SUPERVISOR) m s
        in loop L ke (a + 0x400000) x y else Some (m, s)) = Some r"
      and L: "L = D + KERNEL_CONFIG_VMA" "apart ke 4 D 4096" "a AND 0x3FFFFF = 0"
    show "load32 m ke < 0xFFC00000"
    proof (cases "a \<le> load32 m ke")
      case True
      from L(3) have "a + 0x400000 AND 0x3FFFFF = 0"
        unfolding multiple_4mb by (simp add: unat_word_ariths mod_mod_cancel)
      then show ?thesis
        using True run L bound_apart [OF L(2)] by (auto simp: paging_map_4mb_def Let_def dest!: IH)
    next
      case False
      obtain k where "unat a = k * 0x400000"
        using L(3) unfolding multiple_4mb by (metis mod_eq_0_iff_dvd dvd_def mult.commute)
      moreover have "unat a < 2 ^ 32" using unsigned_less [of a, where 'a = nat] by simp
      ultimately have "unat a \<le> 0xFFC00000" by simp
      with False show ?thesis by (simp add: word_le_nat_alt word_less_nat_alt)
    qed
  qed
  with assms(2-4) show ?thesis by blast
qed

lemma map_loop_returns:
  assumes "apart ke 4 D 4096" "load32 m ke < 0xFFC00000"
  shows "\<exists>r. paging_map_loop (D + KERNEL_CONFIG_VMA) ke a m s = Some r"
  using assms(2)
proof (induction "2 ^ 32 - unat a" arbitrary: a m s rule: less_induct)
  case less
  show ?case
  proof (cases "a \<le> load32 m ke")
    case True
    with less.prems have "unat a < 0xFFC00000" by (simp add: word_le_nat_alt word_less_nat_alt)
    then have "2 ^ 32 - unat (a + 0x400000) < 2 ^ 32 - unat a" by (simp add: unat_word_ariths)
    then show ?thesis using True less bound_apart [OF assms(1)]
      by (subst paging_map_loop.simps) (simp add: paging_map_4mb_def Let_def)
  qed (simp add: paging_map_loop.simps [of _ ke a m])
qed

lemma map_option_returns: "(\<exists>r. map_option f x = Some r) \<longleftrightarrow> (\<exists>r. x = Some r)"
  by (cases x) simp_all

text \<open>C35. \<open>paging_init\<close> returns exactly when the bound it reads lies below the last 4 MB of
  physical addresses: from there on its loop wraps around to address 0 and never ends.\<close>

theorem paging_init_terminates:
  assumes "apart ke 4 D 4096" "apart ke 4 T 40960"
  shows "(\<exists>r. paging_init (D + KERNEL_CONFIG_VMA) (T + KERNEL_CONFIG_VMA) ke m s = Some r)
    \<longleftrightarrow> load32 m ke < 0xFFC00000"
proof -
  define m2 where "m2 = fst (memset (fst (memset m D 0 4096)) T 0 (4096 * of_nat 10))"
  define s1 where "s1 = print ''Initializing PAGING !\<newline>'' [] s"
  have "load32 m2 ke = load32 m ke"
    using assms by (intro quad.ld_cong) (auto simp: m2_def memset_filled filled_def apart_iff)
  then have "(\<exists>r. paging_map_loop (D + KERNEL_CONFIG_VMA) ke 0 m2 s1 = Some r) \<longleftrightarrow> load32 m ke < 0xFFC00000"
    using map_loop_bound [OF _ refl assms(1), where a = 0 and m = m2 and s = s1] map_loop_returns [OF assms(1), of m2 0 s1]
    by auto
  moreover have "D + KERNEL_CONFIG_VMA - KERNEL_CONFIG_VMA = D" "T + KERNEL_CONFIG_VMA - KERNEL_CONFIG_VMA = T" by simp_all
  ultimately show ?thesis
    unfolding paging_init_def by (simp only: map_option_returns Let_def s1_def [symmetric] m2_def [symmetric])
qed

section \<open>Examples\<close>

text \<open>A directory at 0x110000 and tables at 0x120000, in memory that is all zero.\<close>

lemma example_placed: "placed 0x110000 0x120000"
  by (simp add: placed_def aligned_def apart_def)

lemma example_zero: "load32 (\<lambda>_. 0) a = 0"
  by (rule load32_zero) simp

lemma example_tables: "tables_ok D T (\<lambda>_. 0)" "\<not> in_use T (\<lambda>_. 0) t" "\<not> bit (pde D (\<lambda>_. 0) i) 0"
  by (simp_all add: tables_ok_def in_use_def owns_def pde_def pte_def example_zero)

lemma paging_map_4mb_maps_witness:
  "walk 0x110000 (fst (paging_map_4mb (0x110000 + KERNEL_CONFIG_VMA) 0x812345 0xC0400000 3 (\<lambda>_. 0)
     \<lparr>hw = quiet, trace = []\<rparr>)) 0xC0456789 = Some 0x856789"
  using paging_map_4mb_maps [OF example_placed example_tables(1), of 3 "0x812345" "0xC0400000" "\<lparr>hw = quiet, trace = []\<rparr>"]
  by (simp add: Let_def)

lemma paging_map_4kb_maps_witness:
  "walk 0x110000 (fst (paging_map_4kb (0x110000 + KERNEL_CONFIG_VMA) (0x120000 + KERNEL_CONFIG_VMA)
     0xFEC00000 0xFEC00000 0x1B (\<lambda>_. 0) \<lparr>hw = quiet, trace = []\<rparr>)) 0xFEC00010 = Some 0xFEC00010"
proof -
  have "if bit (pde 0x110000 (\<lambda>_. 0) (di 0xFEC00000)) 0 then \<not> bit (pde 0x110000 (\<lambda>_. 0) (di 0xFEC00000)) 7
      else \<exists>t < 10. \<not> in_use 0x120000 (\<lambda>_. 0) t"
    using example_tables(2) by (auto simp: example_tables(3) intro: exI [of _ 0])
  from paging_map_4kb_maps [OF example_placed example_tables(1) _ _ this, of "0x1B" "0xFEC00000" "\<lparr>hw = quiet, trace = []\<rparr>"]
  show ?thesis by (simp add: Let_def)
qed

text \<open>With no table left: memory full of ones has every table in use; its directory entry is
  cleared.\<close>

definition example_full :: mem where
  "example_full = store32 (\<lambda>_. 0xFF) 0x110000 0"

lemma example_full: "pde 0x110000 example_full 0 = 0" "t < 10 \<Longrightarrow> in_use 0x120000 example_full t"
proof -
  show "pde 0x110000 example_full 0 = 0" by (simp add: pde_def example_full_def quad.ld_st)
  assume "t < 10"
  then have "pte 0x120000 example_full t 0 = pte 0x120000 (\<lambda>_. 0xFF) t 0"
    using entries_after_pde(2) [OF example_placed, of 0 t 0 "\<lambda>_. 0xFF" 0] by (simp add: example_full_def)
  also have "\<dots> = 0xFFFFFFFF" by (simp add: pte_def load32_def)
  finally show "in_use 0x120000 example_full t" by (auto simp: in_use_def intro!: exI [of _ 0])
qed

text \<open>The first 4 MB of the kernel's half as one page: its first word for 0xC0300000 lies at 0xC00,
  in the BIOS data area's neighbourhood.\<close>

lemma paging_map_4kb_over_4mb_witness:
  fixes m :: mem
  defines "m \<equiv> store32 (\<lambda>_. 0) (0x110000 + of_nat (4 * 768)) 0x83"
  shows "walk 0x110000 (fst (paging_map_4kb (0x110000 + KERNEL_CONFIG_VMA) (0x120000 + KERNEL_CONFIG_VMA)
      0x812345 0xC0300000 3 m \<lparr>hw = quiet, trace = []\<rparr>)) 0xC0300000 = Some 0x300000"
proof -
  have idx: "di 0xC0300000 = 768" "ti 0xC0300000 = 768" by (simp_all add: di_def ti_def)
  have e: "pde 0x110000 m 768 = 0x83" by (simp only: pde_def m_def quad.ld_st)
  have "apart ((pde 0x110000 m (di 0xC0300000) AND 0xFFFFF000) + of_nat (4 * ti 0xC0300000)) 4 0x110000 4096"
    "bit (pde 0x110000 m (di 0xC0300000)) 0" "bit (pde 0x110000 m (di 0xC0300000)) 7" "aligned 0x110000"
    "walk 0x110000 m ((pde 0x110000 m (di 0xC0300000) AND 0xFFFFF000) + of_nat (4 * ti 0xC0300000) + KERNEL_CONFIG_VMA)
      = Some ((pde 0x110000 m (di 0xC0300000) AND 0xFFFFF000) + of_nat (4 * ti 0xC0300000))"
    using e by (simp_all add: idx apart_def aligned_def walk_def drop_bit_eq_div pde_def)
  note paging_map_4kb_over_4mb [OF this(4,2,3,1,5), of "0x120000" "0x812345" 3 "\<lparr>hw = quiet, trace = []\<rparr>"]
  from conjunct1 [OF conjunct2 [OF this]] show ?thesis by (simp add: idx e)
qed

lemma paging_map_4kb_no_table_witness:
  "\<exists>m'. fst (paging_map_4kb (0x110000 + KERNEL_CONFIG_VMA) (0x120000 + KERNEL_CONFIG_VMA)
     0x200000 0x5000 3 example_full \<lparr>hw = quiet, trace = []\<rparr>) = store32 m' 0x14 0x200003"
proof -
  have "di 0x5000 = 0" "ti 0x5000 = 5" by (simp_all add: di_def ti_def)
  moreover have "\<forall>t < 10. in_use 0x120000 example_full t" using example_full(2) by blast
  ultimately show ?thesis
    using paging_map_4kb_no_table [of "0x110000" example_full "0x5000" "0x120000" "0x200000" 3 "\<lparr>hw = quiet, trace = []\<rparr>"]
      example_full(1) by auto
qed

lemma paging_get_phyaddr_walk_witness:
  "paging_get_phyaddr Some 0x1234 (\<lambda>_. 0) \<lparr>hw = quiet, trace = []\<rparr> = Some 0
   \<and> paging_get_phyaddr (\<lambda>_. None) 0x1234 (\<lambda>_. 0) \<lparr>hw = quiet, trace = []\<rparr> = None"
  using paging_get_phyaddr_walk [of "\<lparr>hw = quiet, trace = []\<rparr>" "0x1234" "\<lambda>_. 0" "\<lambda>_. None"]
  by (simp add: aligned_def paging_get_page_directory_def read_cr_def quiet_def walk_def example_zero)

lemma paging_init_translation_witness:
  "\<exists>m' s'. paging_init (0x110000 + KERNEL_CONFIG_VMA) (0x120000 + KERNEL_CONFIG_VMA) 0x108000 (\<lambda>_. 0)
     \<lparr>hw = quiet, trace = []\<rparr> = Some (m', s')
   \<and> walk 0x110000 m' 0xC0101234 = Some 0x101234 \<and> walk 0x110000 m' 0xFEE00030 = Some 0xFEE00030
   \<and> walk 0x110000 m' 0x110000 = None"
proof -
  let ?s = "\<lparr>hw = quiet, trace = []\<rparr>"
  have "apart 0x108000 4 0x110000 4096" "apart 0x108000 4 0x120000 40960" by (simp_all add: apart_def)
  from paging_init_translation [OF example_placed this, of "\<lambda>_. 0" ?s] obtain m' s' where
    "paging_init (0x110000 + KERNEL_CONFIG_VMA) (0x120000 + KERNEL_CONFIG_VMA) 0x108000 (\<lambda>_. 0) ?s = Some (m', s')"
    "\<And>x. walk 0x110000 m' x =
          (if drop_bit 12 x = 0xFEC00 \<or> drop_bit 12 x = 0xFEE00 then Some x
           else if KERNEL_CONFIG_VMA \<le> x \<and> unat x < 0xC0400000 then Some (x - KERNEL_CONFIG_VMA) else None)"
    by (auto simp: example_zero)
  then show ?thesis by (intro exI [of _ m'] exI [of _ s']) simp
qed

lemma paging_init_terminates_witness:
  "\<exists>r. paging_init (0x110000 + KERNEL_CONFIG_VMA) (0x120000 + KERNEL_CONFIG_VMA) 0x108000 (\<lambda>_. 0)
     \<lparr>hw = quiet, trace = []\<rparr> = Some r"
  using paging_init_terminates [of "0x108000" "0x110000" "0x120000" "\<lambda>_. 0" "\<lparr>hw = quiet, trace = []\<rparr>"]
  by (simp add: apart_def example_zero)

end
