(* ===== verification/Acpi.thy ===== *)
theory Acpi
  imports Kbd Paging "HOL-Library.Monad_Syntax"
begin

text \<open>
  ACPI, ksrc/acpi.h and acpi.c: the formats of the tables, the search for the root pointer, the
  walk over the tables, the power button and its interrupt handler.

  The memory is physical and the code's reads go through the current page directory at \<open>D\<close>, by
  the MMU's \<open>walk\<close> of theory Paging. A read of an address that is not mapped is a page fault,
  after which the code does not continue: the result None. The addresses of the two string
  literals are parameters.
\<close>

unbundle bit_operations_syntax

section \<open>Formats\<close>

text \<open>The array at the end of the root table has no size of its own; a header inside a table is a
  field of 36 bytes.\<close>

definition acpi_RSDPDescriptor_t :: layout where
  "acpi_RSDPDescriptor_t = [(''signature'', 64), (''checksum'', 8), (''oemid'', 48),
     (''revision'', 8), (''rsdt_address'', 32)]"

definition acpi_SDTHeader_t :: layout where
  "acpi_SDTHeader_t = [(''signature'', 32), (''length'', 32), (''revision'', 8),
     (''checksum'', 8), (''oem_id'', 48), (''oem_table_id'', 64), (''oem_revision'', 32),
     (''creator_id'', 32), (''creator_revision'', 32)]"

definition acpi_RSDT_t :: layout where
  "acpi_RSDT_t = [(''header'', 288)]"

definition acpi_FADT_t :: layout where
  "acpi_FADT_t = [(''header'', 288), (''firmware_ctrl'', 32), (''dsdt'', 32), (''reserved'', 8),
     (''preferred_pm_profile'', 8), (''sci_interrupt'', 16), (''smi_cmd'', 32),
     (''acpi_enable'', 8), (''acpi_disable'', 8), (''s4bios_req'', 8), (''pstate_cnt'', 8),
     (''pm1a_evt_blk'', 32), (''pm1b_evt_blk'', 32), (''pm1a_cnt_blk'', 32),
     (''pm1b_cnt_blk'', 32), (''pm2_cnt_blk'', 32), (''pm_tmr_blk'', 32), (''gpe0_blk'', 32),
     (''gpe1_blk'', 32), (''pm1_evt_len'', 8), (''pm1_cnt_len'', 8), (''pm2_cnt_len'', 8),
     (''pm_tmr_len'', 8), (''gpe0_blk_len'', 8), (''gpe1_blk_len'', 8), (''gpe1_base'', 8),
     (''cst_cnt'', 8), (''p_lvl2_lat'', 16), (''p_lvl3_lat'', 16), (''flush_size'', 16),
     (''flush_stride'', 16), (''duty_offset'', 8), (''duty_width'', 8), (''day_alrm'', 8),
     (''mon_alrm'', 8), (''century'', 8), (''iapc_boot_arch'', 16), (''reserved2'', 8),
     (''flags'', 32)]"

definition acpi_MADT_t :: layout where
  "acpi_MADT_t = [(''header'', 288), (''local_apic_address'', 32), (''flags'', 32)]"

section \<open>Reads through the page directory\<close>

definition lin :: "u32 \<Rightarrow> mem \<Rightarrow> mem" where
  "lin D m x = (case walk D m x of Some p \<Rightarrow> m p | None \<Rightarrow> 0)"

definition mapped :: "u32 \<Rightarrow> mem \<Rightarrow> u32 \<Rightarrow> bool" where
  "mapped D m x \<longleftrightarrow> walk D m x \<noteq> None"

definition rd8 :: "u32 \<Rightarrow> mem \<Rightarrow> u32 \<Rightarrow> u8 option" where
  "rd8 D m a = (if mapped D m a then Some (lin D m a) else None)"

definition rd16 :: "u32 \<Rightarrow> mem \<Rightarrow> u32 \<Rightarrow> u16 option" where
  "rd16 D m a = (if mapped D m a \<and> mapped D m (a + 1) then Some (load16 (lin D m) a) else None)"

definition rd32 :: "u32 \<Rightarrow> mem \<Rightarrow> u32 \<Rightarrow> u32 option" where
  "rd32 D m a = (if mapped D m a \<and> mapped D m (a + 1) \<and> mapped D m (a + 2) \<and> mapped D m (a + 3)
     then Some (load32 (lin D m) a) else None)"

text \<open>\<open>memcmp\<close> reads up to the first difference.\<close>

primrec comparable :: "u32 \<Rightarrow> mem \<Rightarrow> u32 \<Rightarrow> u32 \<Rightarrow> nat \<Rightarrow> bool" where
  "comparable D m a b 0 \<longleftrightarrow> True"
| "comparable D m a b (Suc n) \<longleftrightarrow> mapped D m a \<and> mapped D m b
     \<and> (if lin D m a = lin D m b then comparable D m (a + 1) (b + 1) n else True)"

definition rdcmp :: "u32 \<Rightarrow> mem \<Rightarrow> u32 \<Rightarrow> u32 \<Rightarrow> nat \<Rightarrow> u32 option" where
  "rdcmp D m a b n = (if comparable D m a b n then Some (memcmp (lin D m) a b (of_nat n)) else None)"

section \<open>The power button\<close>

record acpi = idt +
  global_fadt :: u32

definition acpi_interrupt_handler_power ::
  "u32 \<Rightarrow> mem \<Rightarrow> u32 \<Rightarrow> idt_registers \<Rightarrow> u32 \<Rightarrow> idt_cpu_frame \<Rightarrow> 'a acpi_scheme \<Rightarrow> 'a acpi_scheme outcome" where
  "acpi_interrupt_handler_power D m vector regs error cpu s =
     (let s = print ''\<newline> *** %s(%d) POWER INTERRUPT *** VECTOR: %u!\<newline>''
            [Str (chars ''acpi.c''), Num 18, Num vector] s
      in if global_fadt s \<noteq> 0 then
           case rd32 D m (global_fadt s + of_nat (offsetof acpi_FADT_t ''pm1a_evt_blk'')) of
             None \<Rightarrow> Halted s
           | Some blk \<Rightarrow>
               let (status_a, s) = io_port_inw (ucast blk) s
               in if status_a AND push_bit 8 1 \<noteq> 0 then Halted (emit Hlt (emit Cli s))
                  else Returned (lapic_eio vector s)
         else Returned (lapic_eio vector s))"

definition init_acpi_power_button :: "u32 \<Rightarrow> mem \<Rightarrow> u32 \<Rightarrow> 'a acpi_scheme \<Rightarrow> 'a acpi_scheme option" where
  "init_acpi_power_button D m fadt s =
     (let s = s\<lparr>global_fadt := fadt\<rparr>;
          field = (\<lambda>f. fadt + of_nat (offsetof acpi_FADT_t f))
      in do {
        flags \<leftarrow> rd32 D m (field ''flags'');
        if flags AND push_bit 4 1 \<noteq> 0 then
          Some (print ''    ACPI: Power button requires an AML interpreter. Direct FADT init aborted.\<newline>'' [] s)
        else do {
          pm1a_evt_blk \<leftarrow> rd32 D m (field ''pm1a_evt_blk'');
          pm1_evt_len \<leftarrow> rd8 D m (field ''pm1_evt_len'');
          let pm1a_enable_reg = (ucast (pm1a_evt_blk + ucast (pm1_evt_len div 2)) :: u16);
          let (v, s) = io_port_indw pm1a_enable_reg s;
          let en_val_a = (ucast v :: u16) OR push_bit 8 1;
          let s = io_port_outw pm1a_enable_reg en_val_a s;
          pm1b_evt_blk \<leftarrow> rd32 D m (field ''pm1b_evt_blk'');
          let s = (if pm1b_evt_blk \<noteq> 0 then
              let pm1b_enable_reg = (ucast (pm1b_evt_blk + ucast (pm1_evt_len div 2)) :: u16);
                  (en_val_b, s) = io_port_inw pm1b_enable_reg s
              in io_port_outw pm1b_enable_reg (en_val_b OR push_bit 8 1) s
            else s);
          sci_interrupt \<leftarrow> rd16 D m (field ''sci_interrupt'');
          Some (idt_set_interrupt_handler (32 + ucast sci_interrupt) Acpi_interrupt_handler_power s)
        }
      })"

section \<open>Finding the tables\<close>

partial_function (option) acpi_scan :: "u32 \<Rightarrow> mem \<Rightarrow> u32 \<Rightarrow> u32 \<Rightarrow> u32 \<Rightarrow> u32 option option" where
  "acpi_scan D m lit addr end =
     (if addr < end then
        Option.bind (rdcmp D m addr lit 8)
          (\<lambda>c. if c = 0 then Some (Some addr) else acpi_scan D m lit (addr + 16) end)
      else Some None)"

definition acpi_find_rsdp :: "u32 \<Rightarrow> mem \<Rightarrow> u32 \<Rightarrow> u32 option" where
  "acpi_find_rsdp D m lit =
     do {
       ebda_segment \<leftarrow> rd16 D m (0x040E + KERNEL_CONFIG_VMA);
       let ebda_address = push_bit 4 (ucast ebda_segment) + KERNEL_CONFIG_VMA;
       found \<leftarrow> acpi_scan D m lit ebda_address (ebda_address + 1024);
       case found of Some a \<Rightarrow> Some a
       | None \<Rightarrow> do {
           found \<leftarrow> acpi_scan D m lit (0x000E0000 + KERNEL_CONFIG_VMA) (0x000FFFFF + KERNEL_CONFIG_VMA);
           case found of Some a \<Rightarrow> Some a | None \<Rightarrow> Some 0
         }
     }"

text \<open>The loop over the \<open>n\<close> entries that are left, from pointer \<open>p\<close> on.\<close>

primrec acpi_tables :: "u32 \<Rightarrow> mem \<Rightarrow> u32 \<Rightarrow> nat \<Rightarrow> u32 \<Rightarrow> 'a acpi_scheme \<Rightarrow> 'a acpi_scheme option" where
  "acpi_tables D m facp 0 p s = Some s"
| "acpi_tables D m facp (Suc n) p s =
     do {
       header \<leftarrow> rd32 D m p;
       let header = header + KERNEL_CONFIG_VMA;
       c \<leftarrow> rdcmp D m (header + of_nat (offsetof acpi_SDTHeader_t ''signature'')) facp 4;
       s \<leftarrow> (if c = 0 then init_acpi_power_button D m header s else Some s);
       acpi_tables D m facp n (p + 4) s
     }"

definition acpi_init ::
  "u32 \<Rightarrow> u32 \<Rightarrow> u32 \<Rightarrow> u32 \<Rightarrow> mem \<Rightarrow> 'a acpi_scheme \<Rightarrow> (mem \<times> 'a acpi_scheme) option" where
  "acpi_init pgdir pgtbls lit facp m s =
     (let s = print ''Initializing ACPI !\<newline>'' [] s;
          D = pgdir - KERNEL_CONFIG_VMA;
          flags = PAGING_PDE_PRESENT OR PAGING_PDE_READWRITE OR PAGING_PDE_SUPERVISOR
      in do {
        rsdp \<leftarrow> acpi_find_rsdp D m lit;
        rsdt \<leftarrow> rd32 D m (rsdp + of_nat (offsetof acpi_RSDPDescriptor_t ''rsdt_address''));
        let phys_base = rsdt AND 0xFFFFF000;
        let virt_base = phys_base + KERNEL_CONFIG_VMA;
        let (m, s) = paging_map_4kb pgdir pgtbls phys_base virt_base flags m s;
        let (m, s) = paging_map_4kb pgdir pgtbls (phys_base + 0x1000) (virt_base + 0x1000) flags m s;
        let rsdt = virt_base + (rsdt AND 0x00000FFF);
        len \<leftarrow> rd32 D m (rsdt + of_nat (offsetof acpi_SDTHeader_t ''length''));
        let entries = (len - of_nat (sizeof acpi_SDTHeader_t)) div 4;
        s \<leftarrow> acpi_tables D m facp (unat entries) (rsdt + of_nat (sizeof acpi_SDTHeader_t)) s;
        Some (m, s)
      })"

section \<open>The search\<close>

definition step16 :: "u32 \<Rightarrow> nat \<Rightarrow> u32" where
  "step16 a i = a + of_nat (16 * i)"

definition candidates :: "u16 \<Rightarrow> u32 list" where
  "candidates seg = map (step16 (push_bit 4 (ucast seg) + KERNEL_CONFIG_VMA)) [0..<64]
     @ map (step16 (0x000E0000 + KERNEL_CONFIG_VMA)) [0..<8192]"

definition signed_at :: "u32 \<Rightarrow> mem \<Rightarrow> u32 \<Rightarrow> u32 \<Rightarrow> bool" where
  "signed_at D m lit a \<longleftrightarrow> list_all (\<lambda>i. lin D m (a + of_nat i) = lin D m (lit + of_nat i)) [0..<8]"

lemma rdcmp_signed: "rdcmp D m a lit 8 = Some c \<Longrightarrow> c = 0 \<longleftrightarrow> signed_at D m lit a"
  using memcmp_spec [of "lin D m" a lit 8]
  by (auto simp: rdcmp_def signed_at_def list_all_iff split: if_splits)

lemma unat_add_of_nat: "unat (a :: u32) + k < 2 ^ 32 \<Longrightarrow> unat (a + of_nat k) = unat a + k"
  by (simp add: unat_word_ariths unat_of_nat take_bit_eq_mod)

lemma scan_find:
  assumes "unat a + 16 * n < 2 ^ 32" "end = a + of_nat (16 * n) - k" "unat k < 16" "0 < n"
    and "\<forall>i < n. rdcmp D m (step16 a i) lit 8 \<noteq> None"
  shows "acpi_scan D m lit a end = Some (find (signed_at D m lit) (map (step16 a) [0..<n]))"
  using assms
proof (induction n arbitrary: a)
  case (Suc n)
  have u: "unat end = unat a + 16 * Suc n - unat k"
  proof -
    have "unat (a + of_nat (16 * Suc n)) = unat a + 16 * Suc n"
      using Suc.prems(1) by (rule unat_add_of_nat)
    moreover from this have "unat k \<le> unat (a + of_nat (16 * Suc n))" using Suc.prems(3) by (simp del: of_nat_mult of_nat_Suc)
    ultimately show ?thesis unfolding Suc.prems(2) unat_sub_if' by simp
  qed
  then have lt: "a < end" using Suc.prems(3) by (simp add: word_less_nat_alt)
  obtain c where c: "rdcmp D m a lit 8 = Some c" using Suc.prems(5) by (auto simp: step16_def)
  have next_a: "step16 a (Suc i) = step16 (a + 16) i" for i by (simp add: step16_def)
  have up: "map (step16 a) [0..<Suc n] = a # map (step16 (a + 16)) [0..<n]"
    unfolding upt_conv_Cons [of 0 "Suc n", OF zero_less_Suc] by (simp add: step16_def map_Suc_upt [symmetric] del: upt_Suc)
  show ?case
  proof (cases "signed_at D m lit a")
    case True
    then show ?thesis using lt c rdcmp_signed [OF c] unfolding up by (subst acpi_scan.simps) simp
  next
    case False
    then have step: "acpi_scan D m lit a end = acpi_scan D m lit (a + 16) end"
      using lt c rdcmp_signed [OF c] by (subst acpi_scan.simps) simp
    have a16: "unat (a + 16) = unat a + 16" using Suc.prems(1) by (simp add: unat_word_ariths)
    show ?thesis
    proof (cases "n = 0")
      case True
      then have "\<not> a + 16 < end" using u a16 by (simp add: word_less_nat_alt)
      then have "acpi_scan D m lit (a + 16) end = Some None" by (subst acpi_scan.simps) simp
      then show ?thesis using False True step unfolding up by simp
    next
      case n: False
      have "\<forall>i < n. rdcmp D m (step16 (a + 16) i) lit 8 \<noteq> None"
        using Suc.prems(5) by (simp flip: next_a)
      moreover have "end = a + 16 + of_nat (16 * n) - k" using Suc.prems(2) by simp
      ultimately have "acpi_scan D m lit (a + 16) end = Some (find (signed_at D m lit) (map (step16 (a + 16)) [0..<n]))"
        using Suc.prems(1,3) n by (intro Suc.IH) (simp_all add: a16)
      then show ?thesis using False step unfolding up by simp
    qed
  qed
qed simp


lemma comparable_mapped:
  "\<forall>i < n. mapped D m (a + of_nat i) \<and> mapped D m (b + of_nat i) \<Longrightarrow> comparable D m a b n"
proof (induction n arbitrary: a b)
  case (Suc n)
  have "\<forall>i < n. mapped D m (a + 1 + of_nat i) \<and> mapped D m (b + 1 + of_nat i)"
    using Suc.prems by (auto simp: add.assoc simp flip: of_nat_Suc)
  then show ?case using Suc.IH [of "a + 1" "b + 1"] Suc.prems by auto
qed simp

definition legible :: "u32 \<Rightarrow> mem \<Rightarrow> nat \<Rightarrow> u32 \<Rightarrow> bool" where
  "legible D m n a \<longleftrightarrow> list_all (\<lambda>i. mapped D m (a + of_nat i)) [0..<n]"

lemma legibleD: "legible D m n a \<Longrightarrow> i < n \<Longrightarrow> mapped D m (a + of_nat i)"
  by (simp add: legible_def list_all_iff)

lemma rdcmp_legible:
  "legible D m n a \<Longrightarrow> legible D m n b \<Longrightarrow> rdcmp D m a b n = Some (memcmp (lin D m) a b (of_nat n))"
  by (simp add: rdcmp_def comparable_mapped legibleD)

lemma find_append: "find P (xs @ ys) = (case find P xs of None \<Rightarrow> find P ys | Some x \<Rightarrow> Some x)"
  by (induction xs) simp_all

lemma candidates_set:
  "i < 64 \<Longrightarrow> step16 (push_bit 4 (ucast seg) + KERNEL_CONFIG_VMA) i \<in> set (candidates seg)"
  "i < 8192 \<Longrightarrow> step16 (0x000E0000 + KERNEL_CONFIG_VMA) i \<in> set (candidates seg)"
  by (simp_all add: candidates_def)

lemma ebda_bound: "unat (push_bit 4 (ucast (seg :: u16)) + KERNEL_CONFIG_VMA :: u32) + 16 * 64 < 2 ^ 32"
proof -
  have "unat (push_bit 4 (ucast seg) :: u32) \<le> 16 * 65535"
    using unsigned_less [of seg, where 'a = nat] by (simp add: push_bit_eq_mult unat_word_ariths unsigned_ucast_eq take_bit_eq_mod)
  then show ?thesis by (simp add: unat_word_ariths)
qed

lemma find_rsdp:
  assumes "rd16 D m (0x40E + KERNEL_CONFIG_VMA) = Some seg"
    and "legible D m 8 lit" "list_all (legible D m 8) (candidates seg)"
  shows "acpi_find_rsdp D m lit = Some (case find (signed_at D m lit) (candidates seg) of
      Some a \<Rightarrow> a | None \<Rightarrow> 0)"
proof -
  let ?e = "push_bit 4 (ucast seg) + KERNEL_CONFIG_VMA :: u32"
  have ok: "rdcmp D m a lit 8 \<noteq> None" if "a \<in> set (candidates seg)" for a
    using that assms(2,3) by (auto simp: rdcmp_legible list_all_iff)
  have ebda: "acpi_scan D m lit ?e (?e + 1024)
      = Some (find (signed_at D m lit) (map (step16 ?e) [0..<64]))"
    by (rule scan_find [where k = 0]) (use ebda_bound ok candidates_set(1) in auto)
  have bios: "acpi_scan D m lit (0x000E0000 + KERNEL_CONFIG_VMA) (0x000FFFFF + KERNEL_CONFIG_VMA)
      = Some (find (signed_at D m lit) (map (step16 (0x000E0000 + KERNEL_CONFIG_VMA)) [0..<8192]))"
    by (rule scan_find [where k = 1]) (use ok candidates_set(2) in auto)
  show ?thesis
    unfolding acpi_find_rsdp_def candidates_def find_append assms(1) bind.bind_lunit Let_def ebda bios
    by (simp split: option.split del: upt_Suc)
qed


section \<open>The power button\<close>

text \<open>Where the ACPI specification has the fields of the fixed description table.\<close>

lemma fadt_offsets:
  "offsetof acpi_FADT_t ''sci_interrupt'' = 46" "offsetof acpi_FADT_t ''pm1a_evt_blk'' = 56"
  "offsetof acpi_FADT_t ''pm1b_evt_blk'' = 60" "offsetof acpi_FADT_t ''pm1_evt_len'' = 88"
  "offsetof acpi_FADT_t ''flags'' = 112"
  by code_simp+

lemma header_offsets:
  "offsetof acpi_RSDPDescriptor_t ''rsdt_address'' = 16" "offsetof acpi_SDTHeader_t ''length'' = 4"
  "offsetof acpi_SDTHeader_t ''signature'' = 0" "sizeof acpi_SDTHeader_t = 36" "sizeof acpi_FADT_t = 116"
  by code_simp+

lemma legible_reads:
  assumes "legible D m n a"
  shows "i < n \<Longrightarrow> rd8 D m (a + of_nat i) = Some (lin D m (a + of_nat i))"
    "i + 1 < n \<Longrightarrow> rd16 D m (a + of_nat i) = Some (load16 (lin D m) (a + of_nat i))"
    "i + 3 < n \<Longrightarrow> rd32 D m (a + of_nat i) = Some (load32 (lin D m) (a + of_nat i))"
  using legibleD [OF assms, of i] legibleD [OF assms, of "i + 1"] legibleD [OF assms, of "i + 2"]
    legibleD [OF assms, of "i + 3"]
  by (simp_all add: rd8_def rd16_def rd32_def ac_simps)

lemma fadt_reads:
  assumes "legible D m 116 fadt"
  shows "rd8 D m (fadt + 88) = Some (lin D m (fadt + 88))"
    "rd16 D m (fadt + 46) = Some (load16 (lin D m) (fadt + 46))"
    "rd32 D m (fadt + 56) = Some (load32 (lin D m) (fadt + 56))"
    "rd32 D m (fadt + 60) = Some (load32 (lin D m) (fadt + 60))"
    "rd32 D m (fadt + 112) = Some (load32 (lin D m) (fadt + 112))"
  using legible_reads(1) [OF assms, of 88] legible_reads(2) [OF assms, of 46]
    legible_reads(3) [OF assms, of 56] legible_reads(3) [OF assms, of 60]
    legible_reads(3) [OF assms, of 112] by simp_all

text \<open>The port of an enable register: the second half of an event block.\<close>

definition enable_port :: "u32 \<Rightarrow> mem \<Rightarrow> u32 \<Rightarrow> u32 \<Rightarrow> u16" where
  "enable_port D m fadt blk = ucast (load32 (lin D m) (fadt + blk) + ucast (lin D m (fadt + 88) div 2))"

lemma and_bit: "x AND 2 ^ n = 0 \<longleftrightarrow> \<not> bit (x :: 'a::len word) n"
  by (simp add: and_exp_eq_0_iff_not_bit)

lemma button_effect:
  assumes "legible D m 116 fadt"
  shows "\<exists>t. init_acpi_power_button D m fadt s = Some t \<and> global_fadt t = fadt
    \<and> (if bit (load32 (lin D m) (fadt + 112)) 4
       then idt_gate_callback t = idt_gate_callback s
         \<and> (\<exists>f. trace t = trace s @ [Print f []])
       else idt_gate_callback t = (idt_gate_callback s)
           (unat (32 + ucast (load16 (lin D m) (fadt + 46)) :: u8) := Acpi_interrupt_handler_power)
         \<and> (\<exists>v w. trace t = trace s
             @ [InD (enable_port D m fadt 56) v, OutW (enable_port D m fadt 56) (ucast v OR 0x100)]
             @ (if load32 (lin D m) (fadt + 60) = 0 then []
                else [InW (enable_port D m fadt 60) w, OutW (enable_port D m fadt 60) (w OR 0x100)])))"
proof (cases "bit (load32 (lin D m) (fadt + 112)) 4")
  case True
  then show ?thesis
    using and_bit [of "load32 (lin D m) (fadt + 112)" 4]
    by (auto simp: init_acpi_power_button_def fadt_offsets fadt_reads [OF assms] Let_def print_def emit_def)
next
  case False
  then show ?thesis
    using and_bit [of "load32 (lin D m) (fadt + 112)" 4]
    by (simp add: init_acpi_power_button_def fadt_offsets fadt_reads [OF assms] Let_def split_beta
        idt_set_interrupt_handler_def machine_defs emit_def enable_port_def)
qed


definition announced :: "u32 \<Rightarrow> 'a machine_scheme \<Rightarrow> 'a machine_scheme" where
  "announced v s = print ''\<newline> *** %s(%d) POWER INTERRUPT *** VECTOR: %u!\<newline>''
     [Str (chars ''acpi.c''), Num 18, Num v] s"

lemma announced_simps [simp]:
  fixes s :: "'a acpi_scheme"
  shows "global_fadt (announced v s) = global_fadt s" "hw (announced v s) = hw s"
    "port_step s (announced v s)"
  by (simp_all add: announced_def port_steps) (simp add: print_def emit_def)

lemma power_handler_cases:
  "acpi_interrupt_handler_power D m v r e f s =
    (let u = announced v s in
     if global_fadt s = 0 then Returned (lapic_eio v u)
     else case rd32 D m (global_fadt s + 56) of None \<Rightarrow> Halted u
     | Some blk \<Rightarrow> let p = ucast blk in
         if bit (port16 (hw s) (trace u) p) 8 then Halted (emit Hlt (emit Cli (snd (io_port_inw p u))))
         else Returned (lapic_eio v (snd (io_port_inw p u))))"
proof -
  have "x AND 256 = 0 \<longleftrightarrow> \<not> bit x 8" for x :: u16 using and_bit [of x 8] by simp
  then show ?thesis
    unfolding acpi_interrupt_handler_power_def announced_def [symmetric] fadt_offsets Let_def split_beta
    by (simp split: option.split)
qed

lemma power_handler_returns:
  fixes s :: "'a acpi_scheme"
  assumes "acpi_interrupt_handler_power D m v r e f s = Returned t"
  shows "\<exists>u. port_step s u \<and> t = lapic_eio v u"
proof -
  have "t = lapic_eio v (announced v s) \<or> (\<exists>p. t = lapic_eio v (snd (io_port_inw p (announced v s))))"
    using assms by (auto simp: power_handler_cases Let_def split: if_splits option.splits)
  moreover have "port_step s (snd (io_port_inw p (announced v s)))" for p by (simp add: port_steps)
  ultimately show ?thesis using announced_simps(3) by blast
qed

interpretation power: acknowledging "acpi_interrupt_handler_power D m" for D m
proof unfold_locales
  fix v r e f and s t :: "'a acpi_scheme"
  assume "acpi_interrupt_handler_power D m v r e f s = Returned t"
  from power_handler_returns [OF this] obtain u where "port_step s u" "t = lapic_eio v u" by blast
  then show "eois (lapic_base s) (trace t) = Suc (eois (lapic_base s) (trace s))" "lapic_base t = lapic_base s"
    using acknowledged [of s u v t] by simp_all
qed

text \<open>C25. The handler of the power button stops the processor, with interrupts disabled, exactly
  when a description table is known and bit 8 of its first status register is set; otherwise it
  returns after one end of interrupt.\<close>

theorem power_handler_decides:
  fixes s :: "'a acpi_scheme"
  assumes "legible D m 116 (global_fadt s)"
  shows "\<exists>w. if global_fadt s \<noteq> 0
        \<and> bit (port16 (hw s) (trace s @ [w]) (ucast (load32 (lin D m) (global_fadt s + 56)))) 8
      then \<exists>t es. acpi_interrupt_handler_power D m v r e f s = Halted t \<and> trace t = trace s @ es @ [Cli, Hlt]
      else \<exists>t. acpi_interrupt_handler_power D m v r e f s = Returned t
        \<and> eois (lapic_base s) (trace t) = Suc (eois (lapic_base s) (trace s))"
proof -
  let ?w = "Print ''\<newline> *** %s(%d) POWER INTERRUPT *** VECTOR: %u!\<newline>'' [Str (chars ''acpi.c''), Num 18, Num v]"
  let ?h = "acpi_interrupt_handler_power D m v r e f s"
  have "(if global_fadt s \<noteq> 0
        \<and> bit (port16 (hw s) (trace s @ [?w]) (ucast (load32 (lin D m) (global_fadt s + 56)))) 8
      then \<exists>t es. ?h = Halted t \<and> trace t = trace s @ es @ [Cli, Hlt]
      else \<exists>t. ?h = Returned t)"
    by (simp add: power_handler_cases fadt_reads [OF assms] Let_def announced_def)
  then show ?thesis
    using power.one_eoi [of D m v r e f s] by (intro exI [of _ ?w]) (auto split: if_splits)
qed

section \<open>The walk over the tables\<close>

primrec listed :: "u32 \<Rightarrow> mem \<Rightarrow> u32 \<Rightarrow> nat \<Rightarrow> u32 list" where
  "listed D m p 0 = []"
| "listed D m p (Suc n) = (load32 (lin D m) p + KERNEL_CONFIG_VMA) # listed D m (p + 4) n"

definition fadts :: "u32 \<Rightarrow> mem \<Rightarrow> u32 \<Rightarrow> u32 \<Rightarrow> nat \<Rightarrow> u32 list" where
  "fadts D m facp p n =
     filter (\<lambda>h. list_all (\<lambda>i. lin D m (h + of_nat i) = lin D m (facp + of_nat i)) [0..<4]) (listed D m p n)"

text \<open>The slot a table's interrupt goes to, when its power button is a fixed feature.\<close>

definition claims_slot :: "u32 \<Rightarrow> mem \<Rightarrow> nat \<Rightarrow> u32 \<Rightarrow> bool" where
  "claims_slot D m i h \<longleftrightarrow> \<not> bit (load32 (lin D m) (h + 112)) 4
     \<and> i = unat (32 + ucast (load16 (lin D m) (h + 46)) :: u8)"


lemma button_claims:
  assumes "legible D m 116 h"
  shows "\<exists>t. init_acpi_power_button D m h s = Some t \<and> global_fadt t = h
    \<and> (\<forall>i. idt_gate_callback t i = (if claims_slot D m i h then Acpi_interrupt_handler_power
         else idt_gate_callback s i))"
  using button_effect [OF assms, of s] by (auto simp: claims_slot_def split: if_splits)

lemma legible_shift:
  assumes "legible D m (k + n) a"
  shows "legible D m k a" "legible D m n (a + of_nat k)"
proof -
  show "legible D m k a" using assms by (auto simp: legible_def list_all_iff)
  have "mapped D m (a + of_nat k + of_nat i)" if "i < n" for i
    using legibleD [OF assms, of "k + i"] that by (simp add: add.assoc)
  then show "legible D m n (a + of_nat k)" by (simp add: legible_def list_all_iff)
qed

lemma memcmp_signature:
  "memcmp (lin D m) a b (of_nat 4) = 0
     \<longleftrightarrow> list_all (\<lambda>i. lin D m (a + of_nat i) = lin D m (b + of_nat i)) [0..<4]"
  using memcmp_spec [of "lin D m" a b 4] by (auto simp: list_all_iff)

lemma tables_walk:
  assumes "legible D m (4 * n) p" "legible D m 4 facp" "list_all (legible D m 116) (listed D m p n)"
  shows "\<exists>t. acpi_tables D m facp n p s = Some t
    \<and> global_fadt t = (if fadts D m facp p n = [] then global_fadt s else last (fadts D m facp p n))
    \<and> (\<forall>i. idt_gate_callback t i =
         (if list_ex (claims_slot D m i) (fadts D m facp p n) then Acpi_interrupt_handler_power
          else idt_gate_callback s i))"
  using assms
proof (induction n arbitrary: p s)
  case (Suc n)
  let ?h = "load32 (lin D m) p + KERNEL_CONFIG_VMA"
  let ?fs = "fadts D m facp (p + 4) n"
  define here where "here \<longleftrightarrow> list_all (\<lambda>i. lin D m (?h + of_nat i) = lin D m (facp + of_nat i)) [0..<4]"
  have p: "legible D m 4 p" "legible D m (4 * n) (p + 4)"
    using legible_shift [of D m 4 "4 * n" p] Suc.prems(1) by simp_all
  have h: "legible D m 116 ?h" using Suc.prems(3) by simp
  have "legible D m 4 ?h" using legible_shift(1) [of D m 4 112 ?h] h by simp
  then have cmp: "rdcmp D m ?h facp 4 = Some (memcmp (lin D m) ?h facp (of_nat 4))"
    using Suc.prems(2) by (rule rdcmp_legible)
  obtain u where u: "(if here then init_acpi_power_button D m ?h s else Some s) = Some u"
    "global_fadt u = (if here then ?h else global_fadt s)"
    "\<forall>i. idt_gate_callback u i = (if here \<and> claims_slot D m i ?h then Acpi_interrupt_handler_power
         else idt_gate_callback s i)"
    using button_claims [OF h, of s] by (cases here) auto
  have "acpi_tables D m facp (Suc n) p s = acpi_tables D m facp n (p + 4) u"
    using legible_reads(3) [OF p(1), of 0] cmp memcmp_signature [of D m ?h facp] u(1)
    by (simp add: header_offsets here_def split: if_splits)
  moreover have "fadts D m facp p (Suc n) = (if here then ?h # ?fs else ?fs)"
    by (simp add: fadts_def here_def)
  ultimately show ?case using Suc.IH [OF p(2) Suc.prems(2), of u] Suc.prems(3) u(2,3) by auto
qed (simp add: fadts_def)


section \<open>The initialisation\<close>

lemma map_4kb_more:
  "machine.more (snd (paging_map_4kb pgdir pgtbls phyaddr linaddr flags m s)) = machine.more s"
  by (simp add: paging_map_4kb_def paging_get_page_table_def paging_flush_ptbl_entry_def Let_def split_beta)

lemma acpi_more:
  fixes s t :: "'a acpi_scheme"
  assumes "machine.more t = machine.more s"
  shows "idt_gate_callback t = idt_gate_callback s" "global_fadt t = global_fadt s"
  using assms by (cases s; cases t; simp)+

text \<open>The memory after the two mappings of the page of the root table and of the next one.\<close>

definition rsdt_mapped :: "u32 \<Rightarrow> u32 \<Rightarrow> u32 \<Rightarrow> mem \<Rightarrow> 'a machine_scheme \<Rightarrow> mem \<times> 'a machine_scheme" where
  "rsdt_mapped pgdir pgtbls rsdt m s =
     (let frame = rsdt AND 0xFFFFF000; (m, s) = paging_map_4kb pgdir pgtbls frame (frame + KERNEL_CONFIG_VMA) 3 m s
      in paging_map_4kb pgdir pgtbls (frame + 0x1000) (frame + 0xC0001000) 3 m s)"

lemma rsdt_mapped_more: "machine.more (snd (rsdt_mapped pgdir pgtbls rsdt m s)) = machine.more s"
  by (simp add: rsdt_mapped_def Let_def split_beta map_4kb_more)

lemma rsdt_mapped_memory:
  "fst (rsdt_mapped pgdir pgtbls rsdt m s) = fst (rsdt_mapped pgdir pgtbls rsdt m t)"
proof -
  have "fst (paging_map_4kb d t p l fl m u) = fst (paging_map_4kb d t p l fl m v)" for d t p l fl m u v
    by (simp add: paging_map_4kb_def paging_get_page_table_def Let_def)
  then show ?thesis unfolding rsdt_mapped_def Let_def split_beta by metis
qed

lemma page_offset: "(x AND 0xFFFFF000) + 0xC0000000 + (x AND 0xFFF) = x + (0xC0000000 :: u32)"
proof -
  have "(x AND NOT (mask 12)) AND (x AND mask 12) = 0" "(x AND NOT (mask 12)) OR (x AND mask 12) = x"
    by (auto intro!: bit_word_eqI simp: bit_simps)
  then have "(x AND 0xFFFFF000) + (x AND 0xFFF) = x"
    unfolding paging_masks by (simp add: disjunctive_add_eq_or)
  moreover have "a + c + b = a + b + c" for a b c :: u32 by (simp only: ac_simps)
  ultimately show ?thesis by (simp only:)
qed

lemma init_unfold:
  assumes "acpi_find_rsdp D m lit = Some rsdp"
  shows "acpi_init (D + KERNEL_CONFIG_VMA) pgtbls lit facp m s = Option.bind (rd32 D m (rsdp + 16)) (\<lambda>rsdt.
    let (m, s) = rsdt_mapped (D + KERNEL_CONFIG_VMA) pgtbls rsdt m (print ''Initializing ACPI !\<newline>'' [] s);
        p = rsdt + KERNEL_CONFIG_VMA
    in Option.bind (rd32 D m (p + 4)) (\<lambda>len.
      map_option (Pair m) (acpi_tables D m facp (unat ((len - 36) div 4)) (p + 36) s)))"
proof -
  have d: "D + KERNEL_CONFIG_VMA - KERNEL_CONFIG_VMA = D" by simp
  have f: "PAGING_PDE_PRESENT OR PAGING_PDE_READWRITE OR PAGING_PDE_SUPERVISOR = 3" by simp
  have o: "x + 0xC0000000 + 0x1000 = x + (0xC0001000 :: u32)" for x by simp
  have b: "Option.bind x (\<lambda>t. Some (m, t)) = map_option (Pair m) x" for m and x :: "'b option"
    by (cases x) simp_all
  show ?thesis
    unfolding acpi_init_def rsdt_mapped_def header_offsets Let_def split_beta d f o page_offset assms b bind.bind_lunit
    by simp
qed


lemma init_installs:
  fixes s :: "'a acpi_scheme"
  assumes "acpi_find_rsdp D m lit = Some rsdp" "rd32 D m (rsdp + 16) = Some rsdt"
    and m': "m' = fst (rsdt_mapped (D + KERNEL_CONFIG_VMA) pgtbls rsdt m s)"
    and n: "rd32 D m' (rsdt + KERNEL_CONFIG_VMA + 4) = Some (of_nat (36 + 4 * n))" "n < 2 ^ 29"
    and "legible D m' (4 * n) (rsdt + KERNEL_CONFIG_VMA + 36)" "legible D m' 4 facp"
    and "list_all (legible D m' 116) (listed D m' (rsdt + KERNEL_CONFIG_VMA + 36) n)"
    and fs: "fs = fadts D m' facp (rsdt + KERNEL_CONFIG_VMA + 36) n"
  shows "\<exists>t. acpi_init (D + KERNEL_CONFIG_VMA) pgtbls lit facp m s = Some (m', t)
    \<and> global_fadt t = (if fs = [] then global_fadt s else last fs)
    \<and> (\<forall>i. idt_gate_callback t i = (if list_ex (claims_slot D m' i) fs
         then Acpi_interrupt_handler_power else idt_gate_callback s i))"
proof -
  let ?u = "snd (rsdt_mapped (D + KERNEL_CONFIG_VMA) pgtbls rsdt m (print ''Initializing ACPI !\<newline>'' [] s))"
  have u: "idt_gate_callback ?u = idt_gate_callback s" "global_fadt ?u = global_fadt s"
    by (rule acpi_more, simp add: rsdt_mapped_more)+
  have a: "fst (rsdt_mapped (D + KERNEL_CONFIG_VMA) pgtbls rsdt m (print ''Initializing ACPI !\<newline>'' [] s)) = m'"
    unfolding m' by (rule rsdt_mapped_memory)
  have b: "unat ((of_nat (36 + 4 * n) - 36 :: u32) div 4) = n"
    using n(2) by (simp add: unat_div unat_word_ariths unat_of_nat take_bit_eq_mod)
  obtain t where t: "acpi_tables D m' facp n (rsdt + KERNEL_CONFIG_VMA + 36) ?u = Some t"
    "global_fadt t = (if fs = [] then global_fadt s else last fs)"
    "\<forall>i. idt_gate_callback t i = (if list_ex (claims_slot D m' i) fs
         then Acpi_interrupt_handler_power else idt_gate_callback s i)"
    using tables_walk [OF assms(6-8), of ?u] unfolding fs u by auto
  have "acpi_init (D + KERNEL_CONFIG_VMA) pgtbls lit facp m s = Some (m', t)"
    unfolding init_unfold [OF assms(1)] assms(2) bind.bind_lunit Let_def split_beta a n(1) b t(1) by simp
  with t(2,3) show ?thesis by blast
qed

text \<open>Whatever the tables hold, the initialisation puts no other handler into a slot than the one of
  the power button.\<close>

definition power_slots :: "'a idt_scheme \<Rightarrow> 'b idt_scheme \<Rightarrow> bool" where
  "power_slots s t \<longleftrightarrow> (\<forall>i. idt_gate_callback t i = idt_gate_callback s i
     \<or> idt_gate_callback t i = Acpi_interrupt_handler_power)"

lemma power_slots_trans: "power_slots s t \<Longrightarrow> power_slots t u \<Longrightarrow> power_slots s u"
  unfolding power_slots_def by metis

lemma button_slots: "init_acpi_power_button D m fadt s = Some t \<Longrightarrow> power_slots s t"
  by (auto simp: init_acpi_power_button_def power_slots_def Let_def split_beta machine_defs emit_def
      idt_set_interrupt_handler_def split: bind_splits if_splits)

lemma tables_slots: "acpi_tables D m facp n p s = Some t \<Longrightarrow> power_slots s t"
proof (induction n arbitrary: p s)
  case (Suc n)
  then obtain u where "acpi_tables D m facp n (p + 4) u = Some t" "u = s \<or> (\<exists>h. init_acpi_power_button D m h s = Some u)"
    by (auto simp: Let_def split: bind_splits if_splits)
  then show ?case using Suc.IH button_slots power_slots_trans by blast
qed (simp add: power_slots_def)

lemma init_tables:
  assumes "acpi_init (D + KERNEL_CONFIG_VMA) pgtbls lit facp m s = Some (m', t)"
  shows "\<exists>rsdt n p. acpi_tables D m' facp n p (snd (rsdt_mapped (D + KERNEL_CONFIG_VMA) pgtbls rsdt m
      (print ''Initializing ACPI !\<newline>'' [] s))) = Some t"
proof -
  obtain rsdp where rsdp: "acpi_find_rsdp D m lit = Some rsdp"
    using assms by (auto simp: acpi_init_def Let_def split: bind_splits)
  show ?thesis
    using assms unfolding init_unfold [OF rsdp] Let_def split_beta bind_eq_Some_conv map_option_eq_Some prod.inject
    by blast
qed

lemma init_slots:
  fixes s :: "'a acpi_scheme"
  assumes "acpi_init (D + KERNEL_CONFIG_VMA) pgtbls lit facp m s = Some (m', t)"
  shows "power_slots s t"
proof -
  obtain rsdt n p where t: "acpi_tables D m' facp n p (snd (rsdt_mapped (D + KERNEL_CONFIG_VMA) pgtbls rsdt m
      (print ''Initializing ACPI !\<newline>'' [] s))) = Some t"
    using init_tables [OF assms] by blast
  have "machine.more (snd (rsdt_mapped (D + KERNEL_CONFIG_VMA) pgtbls rsdt m
      (print ''Initializing ACPI !\<newline>'' [] s))) = machine.more s" by (simp add: rsdt_mapped_more)
  from tables_slots [OF t] acpi_more(1) [OF this] show ?thesis by (simp add: power_slots_def)
qed

section \<open>Properties\<close>

text \<open>C22. The search returns the first paragraph that holds the signature among the 64 paragraphs
  of the extended BIOS data area and then the 8192 of the BIOS, and 0 when none does.\<close>

theorem acpi_find_rsdp_first:
  assumes "rd16 D m (0x40E + KERNEL_CONFIG_VMA) = Some seg"
    and "legible D m 8 lit" "list_all (legible D m 8) (candidates seg)"
  shows "acpi_find_rsdp D m lit = Some (case find (signed_at D m lit) (candidates seg) of
      Some a \<Rightarrow> a | None \<Rightarrow> 0)"
  using assms by (rule find_rsdp)

text \<open>C24. A fixed-feature power button: the enable bits of the one or two event blocks are set and
  the handler goes to the slot of the table's interrupt, computed in 8 bits, so that an interrupt
  of 224 or more lands on an exception. With bit 4 of the flags nothing of that happens.\<close>

theorem power_button_effect:
  assumes "legible D m 116 fadt"
  shows "\<exists>t. init_acpi_power_button D m fadt s = Some t \<and> global_fadt t = fadt
    \<and> (if bit (load32 (lin D m) (fadt + 112)) 4
       then idt_gate_callback t = idt_gate_callback s
         \<and> (\<exists>f. trace t = trace s @ [Print f []])
       else idt_gate_callback t = (idt_gate_callback s)
           (unat (32 + ucast (load16 (lin D m) (fadt + 46)) :: u8) := Acpi_interrupt_handler_power)
         \<and> (\<exists>v w. trace t = trace s
             @ [InD (enable_port D m fadt 56) v, OutW (enable_port D m fadt 56) (ucast v OR 0x100)]
             @ (if load32 (lin D m) (fadt + 60) = 0 then []
                else [InW (enable_port D m fadt 60) w, OutW (enable_port D m fadt 60) (w OR 0x100)])))"
  using assms by (rule button_effect)

text \<open>C23. With the root pointer found and its tables readable, \<open>acpi_init\<close> returns, the table of the
  power button is the last fixed description table of the list, and exactly the slots of
  the listed fixed description tables have the power handler; other slots are as they were.\<close>

theorem acpi_init_installs:
  fixes s :: "'a acpi_scheme"
  assumes "acpi_find_rsdp D m lit = Some rsdp" "rd32 D m (rsdp + 16) = Some rsdt"
    and m': "m' = fst (rsdt_mapped (D + KERNEL_CONFIG_VMA) pgtbls rsdt m s)"
    and n: "rd32 D m' (rsdt + KERNEL_CONFIG_VMA + 4) = Some (of_nat (36 + 4 * n))" "n < 2 ^ 29"
    and "legible D m' (4 * n) (rsdt + KERNEL_CONFIG_VMA + 36)" "legible D m' 4 facp"
    and "list_all (legible D m' 116) (listed D m' (rsdt + KERNEL_CONFIG_VMA + 36) n)"
    and fs: "fs = fadts D m' facp (rsdt + KERNEL_CONFIG_VMA + 36) n"
  shows "\<exists>t. acpi_init (D + KERNEL_CONFIG_VMA) pgtbls lit facp m s = Some (m', t)
    \<and> global_fadt t = (if fs = [] then global_fadt s else last fs)
    \<and> (\<forall>i. idt_gate_callback t i = (if list_ex (claims_slot D m' i) fs
         then Acpi_interrupt_handler_power else idt_gate_callback s i))"
  using assms by (rule init_installs)

text \<open>C40. Without a root pointer, and with page 0 unmapped as \<open>paging_init\<close> leaves it, \<open>acpi_init\<close>
  faults: it reads through the NULL pointer the search returned.\<close>

theorem acpi_init_without_rsdp:
  assumes "rd16 D m (0x40E + KERNEL_CONFIG_VMA) = Some seg"
    and "legible D m 8 lit" "list_all (legible D m 8) (candidates seg)"
    and "\<not> list_ex (signed_at D m lit) (candidates seg)" "walk D m 16 = None"
  shows "acpi_init (D + KERNEL_CONFIG_VMA) pgtbls lit facp m s = None"
proof -
  have "find (signed_at D m lit) (candidates seg) = None"
    using assms(4) by (auto simp: find_None_iff list_ex_iff)
  then have "acpi_find_rsdp D m lit = Some 0" using find_rsdp [OF assms(1-3)] by simp
  then show ?thesis using assms(5) by (simp add: init_unfold rd32_def mapped_def)
qed


section \<open>Examples\<close>

text \<open>A machine with its directory at 0x1000: entry 768 maps the first 4 MB, entry 799 refers to the
  table at 0x2000. The literals are at 2 MB; the second memory has a root pointer in the
  BIOS, a root table at 0x7FE0000, mapped by an earlier call, and a fixed description table
  after it.\<close>

definition place :: "u32 \<Rightarrow> u8 list \<Rightarrow> (u32 \<times> u8) list" where
  "place a bs = zip (map (\<lambda>i. a + of_nat i) [0..<length bs]) bs"

definition bare_cells :: "(u32 \<times> u8) list" where
  "bare_cells = place 0x1C00 [0x83] @ place 0x1C7C [0x03, 0x20] @ place 0x40E [0xC0, 0x9F]
     @ place 0x200000 (chars ''RSD PTR '') @ place 0x200010 (chars ''FACP'')"

definition acpi_cells :: "(u32 \<times> u8) list" where
  "acpi_cells = bare_cells @ place 0x2F80 [0x03, 0x00, 0xFE, 0x07, 0x03, 0x10, 0xFE, 0x07]
     @ place 0xE0010 (chars ''RSD PTR '') @ place 0xE0020 [0x00, 0x00, 0xFE, 0x07]
     @ place 0x7FE0004 [40] @ place 0x7FE0024 [0x00, 0x01, 0xFE, 0x07]
     @ place 0x7FE0100 (chars ''FACP'') @ place 0x7FE012E [9] @ place 0x7FE0138 [0x00, 0x06]
     @ place 0x7FE0158 [4]"

definition memory_of :: "(u32 \<times> u8) list \<Rightarrow> mem" where
  "memory_of cells x = (case map_of cells x of Some b \<Rightarrow> b | None \<Rightarrow> 0)"

abbreviation bare :: mem where "bare \<equiv> memory_of bare_cells"
abbreviation tables :: mem where "tables \<equiv> memory_of acpi_cells"

definition example_acpi :: acpi where
  "example_acpi = \<lparr>hw = quiet, trace = [], lapic_base = 0xFEE00000, lapic_ticks_per_ms = 0,
     lapic_ticks_per_us = 0, idt_gate = \<lambda>i. 0, idt_gate_callback = \<lambda>i. Null, lidt_limit = 0,
     lidt_base = 0, global_fadt = 0xC7FE0100\<rparr>"

lemma memory_outside:
  assumes "list_all (\<lambda>(k, v). \<not> (lo \<le> k \<and> k < hi)) cells" "lo \<le> x" "x < hi"
  shows "memory_of cells x = 0"
proof -
  have "map_of cells x = None" using assms by (auto simp: map_of_eq_None_iff list_all_iff)
  then show ?thesis by (simp add: memory_of_def)
qed

lemma example_words:
  "load32 bare 0x1C00 = 0x83" "load32 tables 0x1C00 = 0x83" "load32 tables 0x1C7C = 0x2003"
  "load32 bare 0x1000 = 0" "load32 tables 0x2F80 = 0x7FE0003"
  by code_simp+

lemma example_bytes:
  "bare 0x40E = 0xC0" "bare 0x40F = 0x9F" "bare 0x200000 = 82"
  "tables 0x40E = 0xC0" "tables 0x40F = 0x9F" "tables 0x200000 = 82"
  by code_simp+

lemma example_low:
  assumes "m = bare \<or> m = tables" "drop_bit 22 x = (768 :: u32)"
  shows "walk 0x1000 m x = Some (x AND 0x3FFFFF)" "lin 0x1000 m x = m (x AND 0x3FFFFF)"
    "mapped 0x1000 m x"
proof -
  have "load32 m 0x1C00 = 0x83" using assms(1) example_words by auto
  then show w: "walk 0x1000 m x = Some (x AND 0x3FFFFF)"
    by (simp add: walk_def Let_def assms(2) bit_numeral_simps)
  then show "lin 0x1000 m x = m (x AND 0x3FFFFF)" "mapped 0x1000 m x"
    by (simp_all add: lin_def mapped_def)
qed

lemma example_high:
  assumes "drop_bit 12 x = (0xC7FE0 :: u32)"
  shows "walk 0x1000 tables x = Some (0x7FE0000 OR (x AND 0xFFF))"
    "lin 0x1000 tables x = tables (0x7FE0000 OR (x AND 0xFFF))" "mapped 0x1000 tables x"
proof -
  have "drop_bit 22 x = drop_bit 10 (drop_bit 12 x)" by simp
  then have "drop_bit 22 x = 799" by (simp add: assms)
  then show w: "walk 0x1000 tables x = Some (0x7FE0000 OR (x AND 0xFFF))"
    by (simp add: walk_def Let_def assms example_words bit_numeral_simps)
  then show "lin 0x1000 tables x = tables (0x7FE0000 OR (x AND 0xFFF))" "mapped 0x1000 tables x"
    by (simp_all add: lin_def mapped_def)
qed

lemma unat_low:
  assumes "0xC0000000 \<le> unat (x :: u32)" "unat x < 0xC0400000"
  shows "unat (x AND 0x3FFFFF) = unat x - 0xC0000000"
proof -
  have "x AND 0x3FFFFF = take_bit 22 x" by (simp add: take_bit_eq_mask mask_eq_exp_minus_1)
  then have "unat (x AND 0x3FFFFF) = unat x mod 0x400000" by (simp add: take_bit_eq_mod unat_mod)
  also have "\<dots> = (unat x - 0xC0000000 + 768 * 0x400000) mod 0x400000" using assms(1) by simp
  also have "\<dots> = unat x - 0xC0000000" using assms by (simp only: mod_mult_self1) simp
  finally show ?thesis .
qed

lemma candidates_low:
  assumes "a \<in> set (candidates 0x9FC0)" "i < 8"
  shows "drop_bit 22 (a + of_nat i) = 768"
    "0x9FC00 \<le> unat ((a + of_nat i) AND 0x3FFFFF)" "unat ((a + of_nat i) AND 0x3FFFFF) < 0x100000"
proof -
  obtain b j where "a = step16 b j" "b = 0xC009FC00 \<and> j < 64 \<or> b = 0xC00E0000 \<and> j < 8192"
    using assms(1) by (auto simp: candidates_def)
  then have u: "0xC009FC00 \<le> unat (a + of_nat i)" "unat (a + of_nat i) < 0xC0100000"
    using assms(2) by (auto simp: step16_def unat_word_ariths unat_of_nat take_bit_eq_mod)
  have "unat (drop_bit 22 (a + of_nat i)) = unat (a + of_nat i) div 2 ^ 22"
    by (simp add: drop_bit_eq_div unat_div)
  also have "\<dots> = 768" using u by simp
  finally show "drop_bit 22 (a + of_nat i) = 768" by (simp add: word_unat_eq_iff)
  from u show "0x9FC00 \<le> unat ((a + of_nat i) AND 0x3FFFFF)" "unat ((a + of_nat i) AND 0x3FFFFF) < 0x100000"
    by (simp_all add: unat_low)
qed

lemma example_legible:
  assumes "m = bare \<or> m = tables"
  shows "rd16 0x1000 m (0x40E + KERNEL_CONFIG_VMA) = Some 0x9FC0"
    and "legible 0x1000 m 8 0xC0200000"
    and "list_all (legible 0x1000 m 8) (candidates 0x9FC0)"
proof -
  have "m 0x40E = 0xC0" "m 0x40F = 0x9F" using assms example_bytes by auto
  then show "rd16 0x1000 m (0x40E + KERNEL_CONFIG_VMA) = Some 0x9FC0"
    by (simp add: rd16_def load16_def example_low [OF assms])
  have "list_all (\<lambda>i. drop_bit 22 (0xC0200000 + of_nat i) = (768 :: u32)) [0..<8]" by code_simp
  then show "legible 0x1000 m 8 0xC0200000"
    by (auto simp: list_all_iff legible_def example_low [OF assms])
  show "list_all (legible 0x1000 m 8) (candidates 0x9FC0)"
    by (auto simp: list_all_iff legible_def example_low [OF assms] candidates_low(1))
qed

lemma example_signature:
  assumes "m = bare \<or> m = tables"
  shows "m 0x200000 = 82" "lin 0x1000 m 0xC0200000 = 82"
proof -
  show "m 0x200000 = 82" using assms example_bytes by auto
  then show "lin 0x1000 m 0xC0200000 = 82" by (simp add: example_low [OF assms])
qed

lemma unsigned_candidate:
  assumes "m = bare \<or> m = tables" "a \<in> set (candidates 0x9FC0)" "m (a AND 0x3FFFFF) = 0"
  shows "\<not> signed_at 0x1000 m 0xC0200000 a"
proof
  assume "signed_at 0x1000 m 0xC0200000 a"
  then have "lin 0x1000 m (a + of_nat 0) = lin 0x1000 m (0xC0200000 + of_nat 0)"
    unfolding signed_at_def list_all_iff by (rule bspec) simp
  moreover have "drop_bit 22 a = 768" using candidates_low(1) [OF assms(2), of 0] by simp
  ultimately show False using assms(3) by (simp add: example_signature [OF assms(1)] example_low [OF assms(1)])
qed

lemma upt_two: "2 \<le> n \<Longrightarrow> \<exists>rest. [0..<n] = 0 # 1 # rest"
  by (simp add: upt_conv_Cons del: upt_Suc)

lemma example_signed:
  "find (signed_at 0x1000 tables 0xC0200000) (candidates 0x9FC0) = Some 0xC00E0010"
proof -
  let ?P = "signed_at 0x1000 tables 0xC0200000"
  have "list_all (\<lambda>(k, v). \<not> (0x9FC00 \<le> k \<and> k < 0xE0010)) acpi_cells" by code_simp
  note zero = memory_outside [OF this]
  have "\<not> ?P (step16 0xC009FC00 j)" if "j < 64" for j
  proof (rule unsigned_candidate)
    show c: "step16 0xC009FC00 j \<in> set (candidates 0x9FC0)" using candidates_set(1) [OF that, of "0x9FC0"] by simp
    have "unat (step16 0xC009FC00 j) < 0xC00A0000" "0xC009FC00 \<le> unat (step16 0xC009FC00 j)"
      using that by (simp_all add: step16_def unat_word_ariths unat_of_nat take_bit_eq_mod)
    then have "unat (step16 0xC009FC00 j AND 0x3FFFFF) < 0xA0000" by (simp add: unat_low)
    then show "tables (step16 0xC009FC00 j AND 0x3FFFFF) = 0"
      using candidates_low(2) [OF c, of 0] by (intro zero) (simp_all add: word_le_nat_alt word_less_nat_alt)
  qed simp
  then have "find ?P (map (step16 0xC009FC00) [0..<64]) = None" by (auto simp: find_None_iff)
  moreover obtain rest where "[0..<8192] = 0 # 1 # rest" using upt_two [of 8192] by (auto simp del: upt_rec_numeral)
  moreover have "\<not> ?P (step16 0xC00E0000 0)"
    using candidates_set(2) [of 0 "0x9FC0"] zero [of "0xE0000"]
    by (intro unsigned_candidate) (simp_all add: step16_def)
  moreover have "?P (step16 0xC00E0000 1)"
  proof -
    have "list_all (\<lambda>i. drop_bit 22 (0xC0200000 + of_nat i) = (768 :: u32) \<and> drop_bit 22 (0xC00E0010 + of_nat i) = (768 :: u32)
      \<and> tables ((0xC0200000 + of_nat i) AND 0x3FFFFF) = tables ((0xC00E0010 + of_nat i) AND 0x3FFFFF)) [0..<8]"
      by code_simp
    then show ?thesis by (auto simp: signed_at_def list_all_iff step16_def example_low)
  qed
  ultimately show ?thesis unfolding candidates_def find_append by (simp add: step16_def del: upt_rec_numeral)
qed

lemma acpi_find_rsdp_first_witness:
  "acpi_find_rsdp 0x1000 tables 0xC0200000 = Some 0xC00E0010"
  using acpi_find_rsdp_first [OF example_legible [of tables]] by (simp add: example_signed)

lemma example_fadt:
  shows "legible 0x1000 tables 116 0xC7FE0100" "load32 (lin 0x1000 tables) 0xC7FE0170 = 0"
    "load16 (lin 0x1000 tables) 0xC7FE012E = 9" "load32 (lin 0x1000 tables) 0xC7FE0138 = 0x600"
    "load32 (lin 0x1000 tables) 0xC7FE013C = 0" "lin 0x1000 tables 0xC7FE0158 = 4"
proof -
  have "list_all (\<lambda>i. drop_bit 12 (0xC7FE0100 + of_nat i) = (0xC7FE0 :: u32)) [0..<116]" by code_simp
  then show "legible 0x1000 tables 116 0xC7FE0100" by (auto simp: legible_def list_all_iff example_high)
  have "load32 tables 0x7FE0170 = 0" "load16 tables 0x7FE012E = 9" "load32 tables 0x7FE0138 = 0x600"
    "load32 tables 0x7FE013C = 0" "tables 0x7FE0158 = 4" by code_simp+
  then show "load32 (lin 0x1000 tables) 0xC7FE0170 = 0"
    "load16 (lin 0x1000 tables) 0xC7FE012E = 9" "load32 (lin 0x1000 tables) 0xC7FE0138 = 0x600"
    "load32 (lin 0x1000 tables) 0xC7FE013C = 0" "lin 0x1000 tables 0xC7FE0158 = 4"
    by (simp_all add: load32_def load16_def example_high)
qed

lemma power_button_effect_witness:
  "\<exists>t v. init_acpi_power_button 0x1000 tables 0xC7FE0100 example_acpi = Some t
     \<and> idt_gate_callback t 41 = Acpi_interrupt_handler_power
     \<and> trace t = [InD 0x602 v, OutW 0x602 (ucast v OR 0x100)]"
proof -
  have "enable_port 0x1000 tables 0xC7FE0100 56 = 0x602" by (simp add: enable_port_def example_fadt)
  then show ?thesis
    using power_button_effect [OF example_fadt(1), of example_acpi]
    by (auto simp: example_fadt example_acpi_def)
qed

lemma power_handler_decides_witness:
  "\<exists>t. acpi_interrupt_handler_power 0x1000 tables 41 (idt_registers.make 0 0 0 0 0 0 0 0) 0
       (idt_cpu_frame.make 0 8 0x202) example_acpi = Returned t
     \<and> eois 0xFEE00000 (trace t) = 1"
  using power_handler_decides [of "0x1000" tables example_acpi 41] example_fadt(1)
  by (auto simp: example_acpi_def quiet_def split: if_splits)

lemma example_remapped: "fst (rsdt_mapped (0x1000 + KERNEL_CONFIG_VMA) T 0x7FE0000 tables s) = tables"
proof -
  have bytes: "tables 0x2F80 = 3" "tables 0x2F81 = 0" "tables 0x2F82 = 0xFE" "tables 0x2F83 = 7"
    "tables 0x2F84 = 3" "tables 0x2F85 = 0x10" "tables 0x2F86 = 0xFE" "tables 0x2F87 = 7" by code_simp+
  have "store32 tables 0x2F80 0x7FE0003 = tables" "store32 tables 0x2F84 0x7FE1003 = tables"
    by (simp_all add: store32_def bytes fun_upd_idem)
  then show ?thesis
    by (simp add: rsdt_mapped_def paging_map_4kb_def kload_def kstore_def example_words Let_def split_beta)
qed

lemma example_root:
  "acpi_find_rsdp 0x1000 tables 0xC0200000 = Some 0xC00E0010"
  "rd32 0x1000 tables 0xC00E0020 = Some 0x7FE0000" "rd32 0x1000 tables 0xC7FE0004 = Some 40"
  "legible 0x1000 tables 4 0xC7FE0024" "legible 0x1000 tables 4 0xC0200010"
  "listed 0x1000 tables 0xC7FE0024 1 = [0xC7FE0100]"
  "fadts 0x1000 tables 0xC0200010 0xC7FE0024 1 = [0xC7FE0100]"
proof -
  show "acpi_find_rsdp 0x1000 tables 0xC0200000 = Some 0xC00E0010"
    using find_rsdp [OF example_legible [of tables]] by (simp add: example_signed)
  have "load32 tables 0xE0020 = 0x7FE0000" "load32 tables 0x7FE0004 = 40" "load32 tables 0x7FE0024 = 0x7FE0100"
    by code_simp+
  then have "load32 (lin 0x1000 tables) 0xC7FE0024 = 0x7FE0100" "rd32 0x1000 tables 0xC00E0020 = Some 0x7FE0000"
    "rd32 0x1000 tables 0xC7FE0004 = Some 40"
    by (simp_all add: rd32_def load32_def example_low example_high)
  then show "rd32 0x1000 tables 0xC00E0020 = Some 0x7FE0000" "rd32 0x1000 tables 0xC7FE0004 = Some 40"
    and l: "listed 0x1000 tables 0xC7FE0024 1 = [0xC7FE0100]" by simp_all
  show "legible 0x1000 tables 4 0xC7FE0024" "legible 0x1000 tables 4 0xC0200010"
    by (simp_all add: legible_def example_low example_high upt_conv_Cons)
  have "tables 0x200010 = tables 0x7FE0100" "tables 0x200011 = tables 0x7FE0101"
    "tables 0x200012 = tables 0x7FE0102" "tables 0x200013 = tables 0x7FE0103" by code_simp+
  then show "fadts 0x1000 tables 0xC0200010 0xC7FE0024 1 = [0xC7FE0100]"
    unfolding fadts_def l by (simp add: example_low example_high upt_conv_Cons)
qed

lemma acpi_init_installs_witness:
  "\<exists>t. acpi_init (0x1000 + KERNEL_CONFIG_VMA) 0xC0010000 0xC0200000 0xC0200010 tables example_acpi = Some (tables, t)
     \<and> global_fadt t = 0xC7FE0100 \<and> idt_gate_callback t 41 = Acpi_interrupt_handler_power
     \<and> idt_gate_callback t 33 = Null"
proof -
  let ?fs = "[0xC7FE0100 :: u32]"
  have "\<exists>t. acpi_init (0x1000 + KERNEL_CONFIG_VMA) 0xC0010000 0xC0200000 0xC0200010 tables example_acpi = Some (tables, t)
    \<and> global_fadt t = (if ?fs = [] then global_fadt example_acpi else last ?fs)
    \<and> (\<forall>i. idt_gate_callback t i = (if list_ex (claims_slot 0x1000 tables i) ?fs
         then Acpi_interrupt_handler_power else idt_gate_callback example_acpi i))"
    by (rule acpi_init_installs [where rsdp = "0xC00E0010" and rsdt = "0x7FE0000" and n = 1, OF _ _ example_remapped [symmetric]])
      (simp_all add: example_root example_fadt del: One_nat_def listed.simps)
  then show ?thesis by (auto simp: claims_slot_def example_fadt) (auto simp: example_acpi_def)
qed

lemma acpi_init_without_rsdp_witness:
  "acpi_init (0x1000 + KERNEL_CONFIG_VMA) 0xC0010000 0xC0200000 0xC0200010 bare example_acpi = None"
proof (rule acpi_init_without_rsdp [OF example_legible])
  have "list_all (\<lambda>(k, v). \<not> (0x9FC00 \<le> k \<and> k < 0x100000)) bare_cells" by code_simp
  note zero = memory_outside [OF this]
  have "bare (a AND 0x3FFFFF) = 0" if "a \<in> set (candidates 0x9FC0)" for a
    using candidates_low(2,3) [OF that, of 0]
    by (intro zero) (simp_all add: word_le_nat_alt word_less_nat_alt)
  then show "\<not> list_ex (signed_at 0x1000 bare 0xC0200000) (candidates 0x9FC0)"
    using unsigned_candidate [of bare] by (auto simp: list_ex_iff)
  show "walk 0x1000 bare 16 = None" by (simp add: walk_def example_words)
qed simp_all

end
