(* ===== verification/Multiboot.thy ===== *)
theory Multiboot
  imports Layout Memory
begin

text \<open>
  The Multiboot interface, ksrc/multiboot/multiboot_v1.h and multiboot.c: the header the boot
  loader looks for and the formats of what it hands over. The union of the two symbol tables is
  one field of the size of both, and so is the union of the two colour descriptions.
\<close>

unbundle bit_operations_syntax

section \<open>Constants\<close>

definition MULTIBOOT_HEADER_MAGIC :: u32 where "MULTIBOOT_HEADER_MAGIC = 0x1BADB002"
definition MULTIBOOT_BOOTLOADER_MAGIC :: u32 where "MULTIBOOT_BOOTLOADER_MAGIC = 0x2BADB002"
definition MULTIBOOT_PAGE_ALIGN :: u32 where "MULTIBOOT_PAGE_ALIGN = 0x00000001"
definition MULTIBOOT_MEMORY_INFO :: u32 where "MULTIBOOT_MEMORY_INFO = 0x00000002"
definition MULTIBOOT_VIDEO_MODE :: u32 where "MULTIBOOT_VIDEO_MODE = 0x00000004"
definition MULTIBOOT_AOUT_KLUDGE :: u32 where "MULTIBOOT_AOUT_KLUDGE = 0x00010000"

text \<open>The flags of the information structure and the fields each of them announces.\<close>

definition multiboot_info_flags :: "(u32 \<times> string list) list" where
  "multiboot_info_flags = [(0x00000001, [''mem_lower'', ''mem_upper'']), (0x00000002, [''boot_device'']),
     (0x00000004, [''cmdline'']), (0x00000008, [''mods_count'', ''mods_addr'']), (0x00000010, [''u'']),
     (0x00000020, [''u'']), (0x00000040, [''mmap_length'', ''mmap_addr'']),
     (0x00000080, [''drives_length'', ''drives_addr'']), (0x00000100, [''config_table'']),
     (0x00000200, [''boot_loader_name'']), (0x00000400, [''apm_table'']),
     (0x00000800, [''vbe_control_info'', ''vbe_mode_info'', ''vbe_mode'', ''vbe_interface_seg'',
       ''vbe_interface_off'', ''vbe_interface_len'']),
     (0x00001000, [''framebuffer_addr'', ''framebuffer_pitch'', ''framebuffer_width'',
       ''framebuffer_height'', ''framebuffer_bpp'', ''framebuffer_type'', ''framebuffer_colors''])]"

section \<open>Formats\<close>

definition multiboot_header_t :: layout where
  "multiboot_header_t = [(''magic'', 32), (''flags'', 32), (''checksum'', 32),
     (''header_addr'', 32), (''load_addr'', 32), (''load_end_addr'', 32), (''bss_end_addr'', 32),
     (''entry_addr'', 32), (''mode_type'', 32), (''width'', 32), (''height'', 32),
     (''depth'', 32)]"

definition multiboot_aout_symbol_table_t :: layout where
  "multiboot_aout_symbol_table_t = [(''tabsize'', 32), (''strsize'', 32), (''addr'', 32),
     (''reserved'', 32)]"

definition multiboot_elf_section_header_table_t :: layout where
  "multiboot_elf_section_header_table_t = [(''num'', 32), (''size'', 32), (''addr'', 32),
     (''shndx'', 32)]"

definition multiboot_info_t :: layout where
  "multiboot_info_t = [(''flags'', 32), (''mem_lower'', 32), (''mem_upper'', 32),
     (''boot_device'', 32), (''cmdline'', 32), (''mods_count'', 32), (''mods_addr'', 32),
     (''u'', max (bit_size multiboot_aout_symbol_table_t) (bit_size multiboot_elf_section_header_table_t)),
     (''mmap_length'', 32), (''mmap_addr'', 32), (''drives_length'', 32), (''drives_addr'', 32),
     (''config_table'', 32), (''boot_loader_name'', 32), (''apm_table'', 32),
     (''vbe_control_info'', 32), (''vbe_mode_info'', 32), (''vbe_mode'', 16),
     (''vbe_interface_seg'', 16), (''vbe_interface_off'', 16), (''vbe_interface_len'', 16),
     (''framebuffer_addr'', 64), (''framebuffer_pitch'', 32), (''framebuffer_width'', 32),
     (''framebuffer_height'', 32), (''framebuffer_bpp'', 8), (''framebuffer_type'', 8),
     (''framebuffer_colors'', 48)]"

definition multiboot_color_t :: layout where
  "multiboot_color_t = [(''red'', 8), (''green'', 8), (''blue'', 8)]"

definition multiboot_memory_map_t :: layout where
  "multiboot_memory_map_t = [(''size'', 32), (''addr'', 64), (''len'', 64), (''type'', 32)]"

definition multiboot_module_t :: layout where
  "multiboot_module_t = [(''mod_start'', 32), (''mod_end'', 32), (''cmdline'', 32), (''pad'', 32)]"

definition multiboot_apm_info_t :: layout where
  "multiboot_apm_info_t = [(''version'', 16), (''cseg'', 16), (''offset'', 32), (''cseg_16'', 16),
     (''dseg'', 16), (''flags'', 16), (''cseg_len'', 16), (''cseg_16_len'', 16), (''dseg_len'', 16)]"

section \<open>The header of the kernel\<close>

definition MBOOT_HDR_FLAGS :: u32 where
  "MBOOT_HDR_FLAGS = MULTIBOOT_PAGE_ALIGN OR MULTIBOOT_MEMORY_INFO OR MULTIBOOT_VIDEO_MODE"

definition MBOOT_HDR_CHECKSUM :: u32 where
  "MBOOT_HDR_CHECKSUM = - (MULTIBOOT_HEADER_MAGIC + MBOOT_HDR_FLAGS)"

definition multiboot_header :: "(string \<times> u32) list" where
  "multiboot_header = [(''magic'', MULTIBOOT_HEADER_MAGIC), (''flags'', MBOOT_HDR_FLAGS),
     (''checksum'', MBOOT_HDR_CHECKSUM), (''header_addr'', 0), (''load_addr'', 0),
     (''load_end_addr'', 0), (''bss_end_addr'', 0), (''entry_addr'', 0), (''mode_type'', 0),
     (''width'', 0), (''height'', 0), (''depth'', 0)]"

text \<open>The header in memory, field after field.\<close>

primrec header_at :: "(string \<times> u32) list \<Rightarrow> u32 \<Rightarrow> mem \<Rightarrow> mem" where
  "header_at [] a m = m"
| "header_at (f # fs) a m = header_at fs (a + 4) (store32 m a (snd f))"

text \<open>What a boot loader accepts: the magic number, and three words that add up to 0.\<close>

definition boots :: "mem \<Rightarrow> u32 \<Rightarrow> bool" where
  "boots m a \<longleftrightarrow> load32 m a = 0x1BADB002 \<and> load32 m a + load32 m (a + 4) + load32 m (a + 8) = 0"

lemma header_frame:
  assumes "j + 4 \<le> k" "k + 4 * length fs \<le> 2 ^ 32"
  shows "load32 (header_at fs (a + of_nat k) m) (a + of_nat j) = load32 m (a + of_nat j)"
  using assms
proof (induction fs arbitrary: k m)
  case (Cons f fs)
  have "apart (a + of_nat k) 4 (a + of_nat j) 4"
    using Cons.prems by (intro apart_commute [THEN iffD1, OF apart_offsets]) auto
  then show ?case
    using Cons.IH [of "k + 4" "store32 m (a + of_nat k) (snd f)"] Cons.prems
    by (simp add: quad.ld_st_apart add.assoc)
qed simp

lemma header_word:
  assumes "i < length fs" "k + 4 * length fs \<le> 2 ^ 32"
  shows "load32 (header_at fs (a + of_nat k) m) (a + of_nat (k + 4 * i)) = snd (fs ! i)"
  using assms
proof (induction fs arbitrary: k i m)
  case (Cons f fs)
  have next4: "a + of_nat k + 4 = a + of_nat (k + 4)" by simp
  show ?case
  proof (cases i)
    case 0
    then show ?thesis
      using header_frame [of k "k + 4" fs a "store32 m (a + of_nat k) (snd f)"] Cons.prems(2)
      by (simp add: quad.ld_st add.assoc)
  next
    case (Suc j)
    then have "k + 4 * i = (k + 4) + 4 * j" by simp
    then show ?thesis
      using Cons.IH [of j "k + 4" "store32 m (a + of_nat k) (snd f)"] Cons.prems Suc
      by (simp only: header_at.simps next4) simp
  qed
qed simp

text \<open>The kernel's header is one a Multiboot loader accepts wherever it is loaded: the magic
  number and a checksum that makes the three words add up to 0 modulo \<open>2 ^ 32\<close>. It asks for
  page alignment, memory information and a video mode, and not for the address fields.\<close>

theorem multiboot_header_boots:
  "boots (header_at multiboot_header a m) a
   \<and> load32 (header_at multiboot_header a m) (a + 4) = 7
   \<and> map fst multiboot_header = map fst multiboot_header_t
   \<and> MBOOT_HDR_FLAGS AND MULTIBOOT_AOUT_KLUDGE = 0"
proof -
  have w: "load32 (header_at multiboot_header a m) (a + of_nat (4 * i)) = snd (multiboot_header ! i)"
    if "i < 12" for i
    using header_word [of i multiboot_header 0 a m] that by (simp add: multiboot_header_def)
  have "load32 (header_at multiboot_header a m) a = 0x1BADB002"
    "load32 (header_at multiboot_header a m) (a + 4) = 7"
    "load32 (header_at multiboot_header a m) (a + 8) = - (0x1BADB002 + 7)"
    using w [of 0] w [of 1] w [of 2]
    by (simp_all add: multiboot_header_def MULTIBOOT_HEADER_MAGIC_def MBOOT_HDR_FLAGS_def MBOOT_HDR_CHECKSUM_def
        MULTIBOOT_PAGE_ALIGN_def MULTIBOOT_MEMORY_INFO_def MULTIBOOT_VIDEO_MODE_def)
  then show ?thesis
    by (simp add: boots_def multiboot_header_def multiboot_header_t_def MBOOT_HDR_FLAGS_def MULTIBOOT_AOUT_KLUDGE_def
        MULTIBOOT_PAGE_ALIGN_def MULTIBOOT_MEMORY_INFO_def MULTIBOOT_VIDEO_MODE_def)
qed

text \<open>The formats have the sizes of the Multiboot specification and the fields of the
  information structure its offsets; the flags are one bit each, without gaps, and announce
  only fields of the structure, each after those of the flags below it.\<close>

theorem multiboot_formats:
  "sizeof multiboot_header_t = 48 \<and> sizeof multiboot_info_t = 116 \<and> sizeof multiboot_memory_map_t = 24
   \<and> sizeof multiboot_module_t = 16 \<and> sizeof multiboot_apm_info_t = 20 \<and> sizeof multiboot_color_t = 3
   \<and> bit_size multiboot_aout_symbol_table_t = bit_size multiboot_elf_section_header_table_t
   \<and> map (offsetof multiboot_info_t) [''flags'', ''mem_lower'', ''boot_device'', ''cmdline'', ''mods_count'', ''u'',
       ''mmap_length'', ''drives_length'', ''config_table'', ''boot_loader_name'', ''apm_table'',
       ''vbe_control_info'', ''framebuffer_addr'', ''framebuffer_colors'']
     = [0, 4, 12, 16, 20, 28, 44, 52, 60, 64, 68, 72, 88, 110]
   \<and> map fst multiboot_info_flags = map (\<lambda>i. push_bit i 1) [0..<13]
   \<and> remdups (concat (map snd multiboot_info_flags)) = tl (map fst multiboot_info_t)"
  by code_simp

end
