(* ===== verification/Timer.thy ===== *)
theory Timer
  imports Lapic82489DX
begin

text \<open>
  Delays (ksrc/timer.h, timer.c): both count down a number of ticks by sampling the current
  count of the APIC timer, allowing for one reload between two samples.

  The contract is stated against time: \<open>count_at n t\<close> is the count after \<open>t\<close> ticks of a
  timer that counts from \<open>n\<close> to 0 and reloads. A delay is never shorter than asked, and it
  ends, as long as less than a period passes between two samples.
\<close>

unbundle bit_operations_syntax

section \<open>The code\<close>

definition timer_delta :: "u32 \<Rightarrow> u32 \<Rightarrow> u32 \<Rightarrow> u32" where
  "timer_delta initial_count last_count current_count =
     (if current_count \<le> last_count then last_count - current_count
      else last_count + (initial_count - current_count))"

partial_function (option) timer_loop ::
  "u32 \<Rightarrow> u32 \<Rightarrow> u32 \<Rightarrow> 'a lapic_scheme \<Rightarrow> 'a lapic_scheme option" where
  "timer_loop initial_count wait_ticks last_count s =
     (if wait_ticks = 0 then Some s
      else
        let (current_count, s) = lapic_read LAPIC_CCR s;
            delta = timer_delta initial_count last_count current_count;
            wait_ticks = (if delta \<ge> wait_ticks then 0 else wait_ticks - delta)
        in timer_loop initial_count wait_ticks current_count (emit Pause s))"

definition timer_delay_us :: "u32 \<Rightarrow> 'a lapic_scheme \<Rightarrow> 'a lapic_scheme option" where
  "timer_delay_us us s =
     (let wait_ticks = lapic_ticks_per_us s * us;
          (initial_count, s) = lapic_read LAPIC_ICR s;
          (last_count, s) = lapic_read LAPIC_CCR s
      in timer_loop initial_count wait_ticks last_count s)"

definition timer_delay_ms :: "u32 \<Rightarrow> 'a lapic_scheme \<Rightarrow> 'a lapic_scheme option" where
  "timer_delay_ms ms s =
     (let wait_ticks = lapic_ticks_per_ms s * ms;
          s = print ''wait_ticks: %u %u\<newline>'' [Num ms, Num (lapic_ticks_per_ms s)] s;
          (initial_count, s) = lapic_read LAPIC_ICR s;
          (last_count, s) = lapic_read LAPIC_CCR s
      in timer_loop initial_count wait_ticks last_count s)"

section \<open>A timer\<close>

definition count_at :: "nat \<Rightarrow> nat \<Rightarrow> u32" where
  "count_at n t = of_nat (n - t mod (n + 1))"

text \<open>
  Between two samples less than a period apart the code measures the ticks that passed, or
  one less when the timer reloaded between them.
\<close>

lemma delta_count:
  assumes "n < 2 ^ 32" and "t \<le> t'" "t' - t \<le> n"
  shows "unat (timer_delta (of_nat n) (count_at n t) (count_at n t'))
    = (if t mod (n + 1) + (t' - t) \<le> n then t' - t else t' - t - 1)"
proof -
  define a d where "a = t mod (n + 1)" and "d = t' - t"
  have a: "a \<le> n" by (simp add: a_def less_Suc_eq_le [symmetric])
  have t': "t' mod (n + 1) = (a + d) mod (n + 1)"
  proof -
    have "t' = t + d" using assms(2) by (simp add: d_def)
    then show ?thesis by (simp only: a_def mod_add_left_eq)
  qed
  have at: "unat (count_at n u) = n - u mod (n + 1)" for u
    unfolding count_at_def by (rule unat_of_nat32) (use assms(1) in simp)
  have last: "unat (count_at n t) = n - a" by (simp only: at a_def)
  show ?thesis
  proof (cases "a + d \<le> n")
    case True
    then have cur: "unat (count_at n t') = n - (a + d)" by (simp only: at t') simp
    then have "count_at n t' \<le> count_at n t" using last by (simp add: word_le_nat_alt)
    then show ?thesis unfolding a_def [symmetric] d_def [symmetric]
      using last cur True a by (simp add: timer_delta_def unat_sub)
  next
    case False
    have "(a + d) mod (n + 1) = a + d - (n + 1)"
      using False a assms(3) by (simp add: mod_if d_def)
    then have cur: "unat (count_at n t') = n - (a + d - (n + 1))"
      by (simp only: at t')
    then have more: "\<not> count_at n t' \<le> count_at n t"
      using last False a assms(3) by (simp add: word_le_nat_alt d_def)
    have c: "count_at n t' \<le> of_nat n"
      using cur assms(1) by (simp add: word_le_nat_alt unat_of_nat)
    have "unat (of_nat n - count_at n t') = a + d - (n + 1)"
      using cur c assms False a by (simp add: unat_sub unat_of_nat d_def)
    then have "unat (count_at n t + (of_nat n - count_at n t')) = d - 1"
      using last False a assms by (simp add: unat_word_ariths d_def)
    then show ?thesis unfolding a_def [symmetric] d_def [symmetric]
      using False more by (simp add: timer_delta_def)
  qed
qed

text \<open>
  The chip's side: the current count is that of a timer with initial count \<open>n\<close> at the time
  \<open>clk\<close> of the access, time passes with every event, and less than a period (at least a tick)
  between two samples of the loop.
\<close>

definition timer_runs :: "hardware \<Rightarrow> u32 \<Rightarrow> nat \<Rightarrow> (event list \<Rightarrow> nat) \<Rightarrow> bool" where
  "timer_runs h b n clk \<longleftrightarrow> 0 < n \<and> n < 2 ^ 32
     \<and> (\<forall>es. mmio h es (b OR LAPIC_ICR) = of_nat n)
     \<and> (\<forall>es. mmio h es (b OR LAPIC_CCR) = count_at n (clk es))
     \<and> (\<forall>es e. clk es \<le> clk (es @ [e]))
     \<and> (\<forall>es c. clk es < clk (es @ [MmioRead (b OR LAPIC_CCR) c])
          \<and> clk (es @ [MmioRead (b OR LAPIC_CCR) c]) \<le> clk es + n
          \<and> clk (es @ [MmioRead (b OR LAPIC_CCR) c, Pause]) \<le> clk es + n)"

lemma timer_runsD:
  assumes "timer_runs h b n clk"
  shows "0 < n" "n < 2 ^ 32" "mmio h es (b OR LAPIC_ICR) = of_nat n"
    "mmio h es (b OR LAPIC_CCR) = count_at n (clk es)" "clk es \<le> clk (es @ [e])"
    "clk es < clk (es @ [MmioRead (b OR LAPIC_CCR) c])"
    "clk (es @ [MmioRead (b OR LAPIC_CCR) c]) \<le> clk es + n"
    "clk (es @ [MmioRead (b OR LAPIC_CCR) c, Pause]) \<le> clk es + n"
  using assms by (simp_all add: timer_runs_def)

lemma clk_step:
  assumes "timer_runs h b n clk"
  shows "clk es < clk (es @ [MmioRead (b OR LAPIC_CCR) c, Pause])"
  using timer_runsD(6) [OF assms, of es c] timer_runsD(5) [OF assms, of "es @ [MmioRead (b OR LAPIC_CCR) c]" Pause]
  by simp

text \<open>One round of the loop, on such a timer.\<close>

definition sampled :: "'a lapic_scheme \<Rightarrow> 'a lapic_scheme" where
  "sampled s = emit Pause (snd (lapic_read LAPIC_CCR s))"

lemma sampled_frame [simp]:
  "hw (sampled s) = hw s" "lapic_base (sampled s) = lapic_base s"
  "trace (sampled s) = trace s @ [MmioRead (lapic_base s OR LAPIC_CCR)
     (mmio (hw s) (trace s) (lapic_base s OR LAPIC_CCR)), Pause]"
  by (simp_all add: sampled_def lapic_read_def mmio_read_def Let_def)

lemma timer_loop_round:
  "timer_loop i w l s = (if w = 0 then Some s else
     let c = mmio (hw s) (trace s) (lapic_base s OR LAPIC_CCR); d = timer_delta i l c
     in timer_loop i (if d \<ge> w then 0 else w - d) c (sampled s))"
  by (subst timer_loop.simps)
     (simp add: sampled_def lapic_read_def mmio_read_def Let_def)

definition rest :: "u32 \<Rightarrow> u32 \<Rightarrow> u32" where
  "rest w d = (if d \<ge> w then 0 else w - d)"

lemma unat_rest: "unat (rest w d) = unat w - unat d"
  by (auto simp: rest_def word_le_nat_alt unat_sub)

text \<open>The loop returns: every round takes away at least a tick, or follows one that saw the
  timer reload.\<close>

lemma timer_loop_returns:
  assumes "timer_runs (hw s) (lapic_base s) n clk"
    and "t0 < clk (trace s)" "clk (trace s) \<le> t0 + n"
  shows "\<exists>t. timer_loop (of_nat n) w (count_at n t0) s = Some t
    \<and> t0 + unat w \<le> clk (trace t) \<and> hw t = hw s \<and> lapic_base t = lapic_base s"
  using assms
proof (induction "2 * unat w + (if t0 mod (n + 1) = n then 1 else 0)" arbitrary: w t0 s
    rule: less_induct)
  case less
  note runs = timer_runsD [OF less.prems(1)]
  define t1 where "t1 = clk (trace s)"
  define d where "d = timer_delta (of_nat n) (count_at n t0) (count_at n t1)"
  show ?case
  proof (cases "w = 0")
    case True
    then show ?thesis using less.prems(2) by (simp add: timer_loop_round)
  next
    case False
    have d: "unat d = (if t0 mod (n + 1) + (t1 - t0) \<le> n then t1 - t0 else t1 - t0 - 1)"
      unfolding d_def by (rule delta_count) (use runs(2) less.prems in \<open>simp_all add: t1_def\<close>)
    have loop: "timer_loop (of_nat n) w (count_at n t0) s
        = timer_loop (of_nat n) (rest w d) (count_at n t1) (sampled s)"
      using False by (subst timer_loop_round) (simp add: runs(4) Let_def d_def t1_def rest_def)
    have next_time: "t1 < clk (trace (sampled s))" "clk (trace (sampled s)) \<le> t1 + n"
      using clk_step [OF less.prems(1)] runs(8) by (simp_all add: t1_def)
    have smaller: "2 * unat (rest w d) + (if t1 mod (n + 1) = n then 1 else 0)
        < 2 * unat w + (if t0 mod (n + 1) = n then 1 else 0)"
    proof (cases "unat d = 0")
      case True
      define a where "a = t0 mod (n + 1)"
      have "a \<le> n" by (simp add: a_def less_Suc_eq_le [symmetric])
      with True d less.prems(2) have "t1 = Suc t0" "a = n"
        unfolding a_def [symmetric] by (auto simp: t1_def split: if_splits)
      moreover from this have "t1 mod (n + 1) = 0" by (simp add: mod_Suc a_def)
      ultimately show ?thesis using True runs(1) by (simp add: unat_rest a_def)
    next
      case False
      moreover have "0 < unat w" using \<open>w \<noteq> 0\<close> by (simp add: unat_gt_0)
      ultimately show ?thesis by (auto simp: unat_rest)
    qed
    have "timer_runs (hw (sampled s)) (lapic_base (sampled s)) n clk" using less.prems(1) by simp
    from less.hyps [OF smaller this next_time]
    obtain t where t: "timer_loop (of_nat n) (rest w d) (count_at n t1) (sampled s) = Some t"
      "t1 + unat (rest w d) \<le> clk (trace t)" "hw t = hw (sampled s)"
      "lapic_base t = lapic_base (sampled s)" by blast
    have "t0 + unat w \<le> t1 + unat (rest w d)"
      using d less.prems(2) by (auto simp: unat_rest t1_def split: if_splits)
    then show ?thesis using t loop by auto
  qed
qed

text \<open>The two first samples and the loop, as both delays have them.\<close>

lemma timer_start_returns:
  assumes "timer_runs (hw s) (lapic_base s) n clk"
  shows "\<exists>t. (let (i, s) = lapic_read LAPIC_ICR s; (l, s) = lapic_read LAPIC_CCR s
      in timer_loop i w l s) = Some t \<and> clk (trace s) + unat w \<le> clk (trace t)"
proof -
  note runs = timer_runsD [OF assms]
  let ?s1 = "snd (lapic_read LAPIC_ICR s)"
  let ?s2 = "snd (lapic_read LAPIC_CCR ?s1)"
  have fields: "hw ?s2 = hw s" "lapic_base ?s1 = lapic_base s" "lapic_base ?s2 = lapic_base s"
    by (simp_all add: lapic_op_defs Let_def)
  have t1: "trace ?s1 = trace s @ [MmioRead (lapic_base s OR LAPIC_ICR) (of_nat n)]"
    by (simp add: lapic_read_def runs(3))
  have t2: "trace ?s2
      = trace ?s1 @ [MmioRead (lapic_base s OR LAPIC_CCR) (count_at n (clk (trace ?s1)))]"
    using fields by (simp add: lapic_read_def runs(4))
  have "\<exists>t. timer_loop (of_nat n) w (count_at n (clk (trace ?s1))) ?s2 = Some t
    \<and> clk (trace ?s1) + unat w \<le> clk (trace t) \<and> hw t = hw ?s2 \<and> lapic_base t = lapic_base ?s2"
    by (rule timer_loop_returns) (use assms runs(6,7) in \<open>simp_all add: fields t2\<close>)
  moreover have "(let (i, s) = lapic_read LAPIC_ICR s; (l, s) = lapic_read LAPIC_CCR s
      in timer_loop i w l s) = timer_loop (of_nat n) w (count_at n (clk (trace ?s1))) ?s2"
    using fields runs(3,4) by (simp add: lapic_read_def Let_def split_beta)
  moreover have "clk (trace s) \<le> clk (trace ?s1)" unfolding t1 by (rule runs(5))
  ultimately show ?thesis by fastforce
qed

text \<open>C19. On a running timer that is sampled often enough, \<open>timer_delay_us\<close> returns, and not
  before \<open>us\<close> times the calibrated ticks per microsecond have passed (as a 32-bit product).\<close>

theorem timer_delay_us_delays:
  assumes "timer_runs (hw s) (lapic_base s) n clk"
  shows "\<exists>t. timer_delay_us us s = Some t
    \<and> clk (trace s) + unat (lapic_ticks_per_us s * us) \<le> clk (trace t)"
  using timer_start_returns [OF assms] by (simp add: timer_delay_us_def)

text \<open>The same of \<open>timer_delay_ms\<close> and the ticks per millisecond.\<close>

theorem timer_delay_ms_delays:
  assumes "timer_runs (hw s) (lapic_base s) n clk"
  shows "\<exists>t. timer_delay_ms ms s = Some t
    \<and> clk (trace s) + unat (lapic_ticks_per_ms s * ms) \<le> clk (trace t)"
proof -
  let ?s = "print ''wait_ticks: %u %u\<newline>'' [Num ms, Num (lapic_ticks_per_ms s)] s"
  have base: "lapic_base ?s = lapic_base s" by (simp add: print_def)
  then have "timer_runs (hw ?s) (lapic_base ?s) n clk" using assms by simp
  from timer_start_returns [OF this, of "lapic_ticks_per_ms s * ms"]
    timer_runsD(5) [OF assms, of "trace s" "Print ''wait_ticks: %u %u\<newline>'' [Num ms, Num (lapic_ticks_per_ms s)]"]
  show ?thesis by (auto simp: timer_delay_ms_def)
qed

definition ticking :: "event list \<Rightarrow> u32 \<Rightarrow> u32" where
  "ticking es a = (if a = 0xFEE00380 then 1000 else count_at 1000 (length es))"

lemma ticking_runs:
  "timer_runs (hw (apic_machine ticking)) (lapic_base (apic_machine ticking)) 1000 length"
  by (simp add: timer_runs_def apic_machine_def ticking_def)

lemma timer_delay_us_delays_witness:
  "\<exists>t. timer_delay_us 7 (apic_machine ticking\<lparr>lapic_ticks_per_us := 62\<rparr>) = Some t
     \<and> 434 \<le> length (trace t)"
  using timer_delay_us_delays [of "apic_machine ticking\<lparr>lapic_ticks_per_us := 62\<rparr>" 1000 length 7]
    ticking_runs by auto

lemma timer_delay_ms_delays_witness:
  "\<exists>t. timer_delay_ms 2 (apic_machine ticking\<lparr>lapic_ticks_per_ms := 62500\<rparr>) = Some t
     \<and> 125000 \<le> length (trace t)"
  using timer_delay_ms_delays [of "apic_machine ticking\<lparr>lapic_ticks_per_ms := 62500\<rparr>" 1000 length 2]
    ticking_runs by auto

end
