(* ===== verification/CmosMC146818.thy ===== *)
theory CmosMC146818
  imports Machine
begin

text \<open>
  The real-time clock (ksrc/drivers/MC146818.h, MC146818.c): \<open>cmos_read_rtc\<close> waits until no
  update is in progress, reads the calendar registers one by one through the index and data
  ports, and decodes them by the format bits of register B.

  The clock's side is a hypothesis: \<open>rtc_reads\<close> says that the data port returns the register
  that was selected last. The calendar it should return is \<open>calendar\<close>.
\<close>

unbundle bit_operations_syntax

record cmos_rtc =
  hours :: u32
  minutes :: u32
  seconds :: u32
  date_of_month :: u32
  month :: u32
  year :: u32
  century :: u32

text \<open>
  The macro of MC146818.h: on a byte it computes in \<open>int\<close>; \<open>cmos_bcd2dec(cmos_read())\<close> expands
  its argument twice and so reads the port twice, once for each digit.
\<close>

definition cmos_bcd2dec :: "u32 \<Rightarrow> u32" where
  "cmos_bcd2dec c = (c AND 0x0F) + (c div 16) * 10"

definition cmos_select :: "u8 \<Rightarrow> 'a machine_scheme \<Rightarrow> 'a machine_scheme" where
  "cmos_select a s = io_port_outb 0x70 a s"

definition cmos_write :: "u8 \<Rightarrow> 'a machine_scheme \<Rightarrow> 'a machine_scheme" where
  "cmos_write b s = io_port_outb 0x71 b s"

definition cmos_read :: "'a machine_scheme \<Rightarrow> u8 \<times> 'a machine_scheme" where
  "cmos_read s = io_port_inb 0x71 s"

definition cmos_bcd2dec_read :: "'a machine_scheme \<Rightarrow> u32 \<times> 'a machine_scheme" where
  "cmos_bcd2dec_read s =
     (let (a, s) = cmos_read s; (b, s) = cmos_read s
      in ((ucast a AND 0x0F) + (ucast b div 16) * 10, s))"

definition cmos_idle :: "u8 \<Rightarrow> bool" where
  "cmos_idle b \<longleftrightarrow> b AND 0x80 = 0"

partial_function (option) cmos_wait :: "'a machine_scheme \<Rightarrow> 'a machine_scheme option" where
  "cmos_wait s = (if cmos_idle (fst (cmos_read s)) then Some (snd (cmos_read s))
     else cmos_wait (snd (cmos_read s)))"

definition cmos_get :: "u8 \<Rightarrow> 'a machine_scheme \<Rightarrow> u8 \<times> 'a machine_scheme" where
  "cmos_get a s = cmos_read (cmos_select a s)"

text \<open>The decoding of what was read, by the bits 2 (binary) and 1 (24 hours) of register B.\<close>

definition cmos_decode :: "u8 \<Rightarrow> cmos_rtc \<Rightarrow> cmos_rtc" where
  "cmos_decode regb r =
     (let r = (if regb AND 0x04 = 0
          then r\<lparr>hours := cmos_bcd2dec (hours r), minutes := cmos_bcd2dec (minutes r),
             seconds := cmos_bcd2dec (seconds r), date_of_month := cmos_bcd2dec (date_of_month r),
             month := cmos_bcd2dec (month r), year := cmos_bcd2dec (year r)\<rparr> else r);
          r = (if regb AND 0x02 = 0 then r\<lparr>hours := hours r + 12\<rparr> else r)
      in if century r \<noteq> 0 then r\<lparr>year := year r + century r * 100\<rparr> else r)"

definition cmos_read_all :: "'a machine_scheme \<Rightarrow> cmos_rtc \<times> 'a machine_scheme" where
  "cmos_read_all s =
     (let (h, s) = cmos_get 0x04 s;
          (mi, s) = cmos_get 0x02 s;
          (se, s) = cmos_get 0x00 s;
          (d, s) = cmos_get 0x07 s;
          (mo, s) = cmos_get 0x08 s;
          (y, s) = cmos_get 0x09 s;
          (c, s) = cmos_bcd2dec_read (cmos_select 0x32 s);
          (regb, s) = cmos_get 0x0B s
      in (cmos_decode regb \<lparr>hours = ucast h, minutes = ucast mi, seconds = ucast se,
            date_of_month = ucast d, month = ucast mo, year = ucast y, century = c\<rparr>, s))"

definition cmos_read_rtc :: "'a machine_scheme \<Rightarrow> (cmos_rtc \<times> 'a machine_scheme) option" where
  "cmos_read_rtc s = map_option cmos_read_all (cmos_wait (cmos_select 0x0A s))"

definition cmos_events :: "u8 \<Rightarrow> event list" where
  "cmos_events b = [InB 0x71 b]"

interpretation cmos: polled_device cmos_read cmos_idle cmos_wait cmos_events
proof unfold_locales
  fix s t :: "'a machine_scheme" and P :: "'a machine_scheme \<Rightarrow> 'a machine_scheme \<Rightarrow> bool"
  assume ret: "cmos_wait s = Some t"
    and base: "\<And>s. cmos_idle (fst (cmos_read s)) \<Longrightarrow> P s (snd (cmos_read s))"
    and step: "\<And>s t. \<not> cmos_idle (fst (cmos_read s)) \<Longrightarrow> P (snd (cmos_read s)) t \<Longrightarrow> P s t"
  show "P s t"
    by (rule cmos_wait.raw_induct [where P = P, OF _ ret]) (auto intro: base step split: if_splits)
qed (rule cmos_wait.simps, simp_all add: cmos_events_def cmos_read_def)

section \<open>A clock\<close>

text \<open>
  The documented behaviour of the chip, with the register contents \<open>r\<close>: the data port returns
  the register selected by the last write to the index port. Register A may report an
  update in progress any number of times before it does not.
\<close>

fun selected :: "event list \<Rightarrow> u8" where
  "selected es = fold (\<lambda>e a. case e of OutB p v \<Rightarrow> if p = 0x70 then v else a | _ \<Rightarrow> a) es 0"

definition rtc_reads :: "hardware \<Rightarrow> (u8 \<Rightarrow> u8) \<Rightarrow> bool" where
  "rtc_reads h r \<longleftrightarrow> (\<forall>es. selected es \<noteq> 0x0A \<longrightarrow> port8 h es 0x71 = r (selected es))"

declare selected.simps [simp del]

lemma selected_append [simp]:
  "selected (es @ [OutB 0x70 a]) = a" "selected (es @ [InB p v]) = selected es"
  by (simp_all add: selected.simps)

lemma selected_append2 [simp]:
  "selected (es @ [OutB 0x70 a, InB p v]) = a" "selected (es @ [OutB 0x70 a, InB p v, InB q w]) = a"
  by (simp_all add: selected.simps)

lemma cmos_get_reads:
  assumes "rtc_reads (hw s) r" "a \<noteq> 0x0A"
  shows "cmos_get a s = (r a, emit (InB 0x71 (r a)) (emit (OutB 0x70 a) s))"
  using assms by (simp add: cmos_get_def cmos_read_def cmos_select_def io_port_inb_def
      io_port_outb_def rtc_reads_def Let_def)

lemma cmos_century_reads:
  assumes "rtc_reads (hw s) r"
  shows "cmos_bcd2dec_read (cmos_select 0x32 s) = (cmos_bcd2dec (ucast (r 0x32)),
    emit (InB 0x71 (r 0x32)) (emit (InB 0x71 (r 0x32)) (emit (OutB 0x70 0x32) s)))"
  using assms by (simp add: cmos_bcd2dec_read_def cmos_bcd2dec_def cmos_read_def cmos_select_def
      io_port_inb_def io_port_outb_def rtc_reads_def Let_def)

text \<open>What the reading of the registers comes to.\<close>

definition registers :: "(u8 \<Rightarrow> u8) \<Rightarrow> cmos_rtc" where
  "registers r = \<lparr>hours = ucast (r 4), minutes = ucast (r 2), seconds = ucast (r 0),
     date_of_month = ucast (r 7), month = ucast (r 8), year = ucast (r 9),
     century = cmos_bcd2dec (ucast (r 0x32))\<rparr>"

lemma cmos_read_all_registers:
  "rtc_reads (hw s) r \<Longrightarrow> fst (cmos_read_all s) = cmos_decode (r 0x0B) (registers r)"
  by (simp add: cmos_read_all_def cmos_get_reads cmos_century_reads registers_def)

lemma cmos_read_rtc_registers:
  assumes "rtc_reads (hw s) r" and "cmos_idle (cmos.reading n (cmos_select 0x0A s))"
  shows "\<exists>t. cmos_read_rtc s = Some (cmos_decode (r 0x0B) (registers r), t)"
proof -
  obtain t where t: "cmos_wait (cmos_select 0x0A s) = Some t"
    using assms(2) cmos.loop_None by fastforce
  from cmos.loop_trace [OF t] have "hw t = hw s" by (auto simp: cmos_select_def)
  with assms(1) have "fst (cmos_read_all t) = cmos_decode (r 0x0B) (registers r)"
    by (simp add: cmos_read_all_registers)
  then show ?thesis by (cases "cmos_read_all t") (simp add: cmos_read_rtc_def t)
qed

section \<open>Decoding\<close>

text \<open>Two digits in binary-coded decimal, and the same number as the clock keeps it in the format
  register B selects.\<close>

definition bcd :: "nat \<Rightarrow> u8" where
  "bcd n = of_nat (16 * (n div 10) + n mod 10)"

definition keeps :: "u8 \<Rightarrow> nat \<Rightarrow> u8 \<Rightarrow> bool" where
  "keeps regb n b \<longleftrightarrow> n < 100 \<and> b = (if bit regb 2 then of_nat n else bcd n)"

lemma unat_bcd: "n < 100 \<Longrightarrow> unat (bcd n) = 16 * (n div 10) + n mod 10"
  by (simp add: bcd_def unat_of_nat del: of_nat_add of_nat_mult)

lemma cmos_bcd2dec_bcd:
  assumes "n < 100"
  shows "cmos_bcd2dec (ucast (bcd n)) = of_nat n"
proof -
  have b: "(ucast (bcd n) :: u32) = of_nat (16 * (n div 10) + n mod 10)"
    using assms
    by (simp add: word_unat_eq_iff unsigned_ucast_eq unat_bcd unat_of_nat take_bit_eq_mod
        del: of_nat_add of_nat_mult)
  have "cmos_bcd2dec (of_nat (16 * a + b)) = of_nat (a * 10 + b)" if "a < 10" "b < 10" for a b
    using that by (simp add: cmos_bcd2dec_def and_low_mod word_unat_eq_iff unat_word_ariths
        unat_div unat_mod unat_of_nat del: of_nat_add of_nat_mult)
  from this [of "n div 10" "n mod 10"] assms show ?thesis by (simp only: b) simp
qed

lemma keeps_decoded:
  assumes "keeps regb n b"
  shows "(if regb AND 4 = 0 then cmos_bcd2dec (ucast b) else ucast b) = of_nat n"
proof -
  have "(ucast (of_nat n :: u8) :: u32) = of_nat n" if "n < 100"
    using that by (simp add: word_unat_eq_iff unsigned_ucast_eq unat_of_nat take_bit_eq_mod)
  then show ?thesis using assms by (auto simp: keeps_def and_mask_bit cmos_bcd2dec_bcd)
qed

text \<open>The hour register in 12-hour mode: 1 to 12, and bit 7 set in the afternoon.\<close>

definition keeps_hour :: "u8 \<Rightarrow> nat \<Rightarrow> bool \<Rightarrow> u8 \<Rightarrow> bool" where
  "keeps_hour regb h pm b \<longleftrightarrow> 1 \<le> h \<and> h \<le> 12
     \<and> b = (if bit regb 2 then of_nat h else bcd h) + (if pm then 0x80 else 0)"

lemma keeps_hour_decoded:
  assumes "keeps_hour regb h pm b"
  shows "(if regb AND 4 = 0 then cmos_bcd2dec (ucast b) else ucast b)
    = of_nat (h + (if \<not> pm then 0 else if bit regb 2 then 128 else 80))"
proof -
  from assms have range: "1 \<le> h" "h \<le> 12" by (simp_all add: keeps_hour_def)
  have "h \<in> {1, 2, 3, 4, 5, 6, 7, 8, 9, 10, 11, 12}"
    using range by (simp, presburger)
  moreover have "b = (if bit regb 2 then of_nat h else bcd h) + (if pm then 0x80 else 0)"
    using assms by (simp add: keeps_hour_def)
  ultimately show ?thesis
    by (elim insertE emptyE; cases pm; cases "bit regb 2")
      (simp_all add: and_mask_bit bcd_def cmos_bcd2dec_def)
qed

text \<open>C30. On a clock in 24-hour mode, in either number format, \<open>cmos_read_rtc\<close> returns as soon as
  no update is in progress, and returns the time and the date the clock keeps, the year with
  its century (which the code takes in decimal format).\<close>

theorem cmos_read_rtc_24h:
  assumes "rtc_reads (hw s) r" and "cmos_idle (cmos.reading k (cmos_select 0x0A s))"
    and "bit (r 0x0B) 1"
    and "keeps (r 0x0B) h (r 4)" "keeps (r 0x0B) mi (r 2)" "keeps (r 0x0B) se (r 0)"
    and "keeps (r 0x0B) d (r 7)" "keeps (r 0x0B) mo (r 8)" "keeps (r 0x0B) y (r 9)"
    and "r 0x32 = bcd c" "c < 100"
  shows "\<exists>t. cmos_read_rtc s = Some (\<lparr>hours = of_nat h, minutes = of_nat mi, seconds = of_nat se,
      date_of_month = of_nat d, month = of_nat mo, year = of_nat (y + 100 * c),
      century = of_nat c\<rparr>, t)"
proof -
  have "r 0x0B AND 2 \<noteq> 0" using assms(3) and_mask_bit(2) by blast
  moreover note keeps_decoded [OF assms(4)] keeps_decoded [OF assms(5)] keeps_decoded [OF assms(6)]
    keeps_decoded [OF assms(7)] keeps_decoded [OF assms(8)] keeps_decoded [OF assms(9)]
  ultimately have "cmos_decode (r 0x0B) (registers r) = \<lparr>hours = of_nat h, minutes = of_nat mi,
      seconds = of_nat se, date_of_month = of_nat d, month = of_nat mo,
      year = of_nat (y + 100 * c), century = of_nat c\<rparr>"
    using assms(10,11)
    by (auto simp: cmos_decode_def registers_def cmos_bcd2dec_bcd Let_def mult.commute
        split: if_splits)
  then show ?thesis using cmos_read_rtc_registers [OF assms(1,2)] by simp
qed

text \<open>C31. In 12-hour mode, in which the hour register holds 1 to 12 and bit 7 marks the afternoon, no
  hour of the day is read right. The code adds 12 to every hour and takes bit 7 for a part of the
  number: an hour \<open>h\<close> before noon is read as \<open>h + 12\<close> (midnight, kept as 12, as 24), and one after noon
  as \<open>h + 92\<close> from a clock in decimal format (1 PM is kept as 0x81 and read as 93) and as
  \<open>h + 140\<close> from one in binary.\<close>

theorem cmos_read_rtc_12h:
  assumes "rtc_reads (hw s) r" and "cmos_idle (cmos.reading k (cmos_select 0x0A s))"
    and "\<not> bit (r 0x0B) 1" and "keeps_hour (r 0x0B) h pm (r 4)"
  shows "\<exists>rtc t. cmos_read_rtc s = Some (rtc, t)
    \<and> hours rtc = of_nat (h + (if \<not> pm then 12 else if bit (r 0x0B) 2 then 140 else 92))
    \<and> unat (hours rtc) \<noteq> h mod 12 + (if pm then 12 else 0)"
proof -
  let ?d = "if \<not> pm then 12 else if bit (r 0x0B) 2 then 140 else 92"
  have "r 0x0B AND 2 = 0" using assms(3) and_mask_bit(2) by blast
  with keeps_hour_decoded [OF assms(4)]
  have "hours (cmos_decode (r 0x0B) (registers r)) = of_nat (h + ?d)"
    by (auto simp: cmos_decode_def registers_def Let_def split: if_splits)
  moreover have "h \<le> 12" using assms(4) by (simp add: keeps_hour_def)
  then have "unat (of_nat (h + ?d) :: u32) = h + ?d" by (simp add: unat_of_nat del: of_nat_add)
  moreover have "h + ?d \<noteq> h mod 12 + (if pm then 12 else 0)"
    using assms(4) mod_less_divisor [of 12 h] by (auto simp: keeps_hour_def le_less)
  ultimately show ?thesis using cmos_read_rtc_registers [OF assms(1,2)] by auto
qed

text \<open>A clock that shows 23:59:58 on 31 December 2025, and one that keeps twelve hours and shows
  1 in the afternoon.\<close>

definition newyear :: "u8 \<Rightarrow> u8" where
  "newyear a = (if a = 4 then 0x23 else if a = 2 then 0x59 else if a = 0 then 0x58
     else if a = 7 then 0x31 else if a = 8 then 0x12 else if a = 9 then 0x25
     else if a = 0x32 then 0x20 else if a = 0x0B then 0x02 else 0)"

definition one_pm :: "u8 \<Rightarrow> u8" where
  "one_pm a = (if a = 4 then 0x81 else 0)"

definition clock :: "(u8 \<Rightarrow> u8) \<Rightarrow> machine" where
  "clock r = \<lparr>hw = quiet\<lparr>port8 := \<lambda>es p. r (selected es)\<rparr>, trace = []\<rparr>"

lemma clock_reads: "rtc_reads (hw (clock r)) r"
  by (simp add: rtc_reads_def clock_def)

lemma clock_idle: "r 0x0A = 0 \<Longrightarrow> cmos_idle (cmos.reading 0 (cmos_select 0x0A (clock r)))"
  by (simp add: cmos.reading_def cmos_read_def cmos_select_def clock_def quiet_def cmos_idle_def
      selected_append [of "[]", simplified])

lemma cmos_read_rtc_24h_witness:
  "\<exists>t. cmos_read_rtc (clock newyear) = Some (\<lparr>hours = 23, minutes = 59, seconds = 58,
     date_of_month = 31, month = 12, year = 2025, century = 20\<rparr>, t)"
proof -
  note idle = clock_idle [of newyear]
  have "keeps (newyear 0x0B) 23 (newyear 4)" "keeps (newyear 0x0B) 59 (newyear 2)"
    "keeps (newyear 0x0B) 58 (newyear 0)" "keeps (newyear 0x0B) 31 (newyear 7)"
    "keeps (newyear 0x0B) 12 (newyear 8)" "keeps (newyear 0x0B) 25 (newyear 9)"
    "newyear 0x32 = bcd 20" "bit (newyear 0x0B) 1" "newyear 0x0A = 0"
    by (simp_all add: keeps_def bcd_def newyear_def)
  from cmos_read_rtc_24h [OF clock_reads idle [OF this(9)] this(8) this(1-7)] show ?thesis by simp
qed

lemma cmos_read_rtc_12h_witness:
  "\<exists>rtc t. cmos_read_rtc (clock one_pm) = Some (rtc, t) \<and> hours rtc = 93"
proof -
  have "keeps_hour (one_pm 0x0B) 1 True (one_pm 4)" "\<not> bit (one_pm 0x0B) 1" "one_pm 0x0A = 0" "\<not> bit (one_pm 0x0B) 2"
    by (simp_all add: keeps_hour_def bcd_def one_pm_def)
  with cmos_read_rtc_12h [OF clock_reads clock_idle [of one_pm, OF this(3)] this(2,1)] show ?thesis by auto
qed

end
