(* ===== verification/Kmain.thy ===== *)
theory Kmain
  imports Acpi Multiboot Timer CmosMC146818 Interrupts
begin

text \<open>
  The main function of the kernel, ksrc/_kmain.c, and the dispatch of interrupts through the table
  of handlers, ksrc/idt.s. \<open>kmain\<close> is modelled in the order of its calls, as the composition of
  the drivers' models: a stage that may not return, because it polls a device or because it
  faults, gives None. The loop at its end, which halts until the next interrupt, is the step
  relation \<open>idle\<close>.

  The image of the kernel fixes the addresses of its tables, of two string literals, of the
  locals of \<open>cpu_cpuid\<close> and of the buffer of the vendor string. The stack is written only for
  that string and is not part of the memory that is handed on.
\<close>

unbundle bit_operations_syntax

section \<open>The stages\<close>

record image =
  page_directory :: u32
  page_tables :: u32
  rsd_ptr_literal :: u32
  facp_literal :: u32
  cpuid_stack :: cpuid_locals
  vendor_buffer :: u32

text \<open>The bytes of a string argument, when a NUL ends it and all of it can be read.\<close>

definition string_at :: "u32 \<Rightarrow> mem \<Rightarrow> u32 \<Rightarrow> u8 list option" where
  "string_at D m a = do {
     n \<leftarrow> strlen (lin D m) a;
     if legible D m (Suc (unat n)) a then Some (map (\<lambda>i. lin D m (a + of_nat i)) [0..<unat n]) else None }"

definition kmain_prepare :: "'a lapic_scheme \<Rightarrow> 'a lapic_scheme option" where
  "kmain_prepare s = do {
     (rtc, s) \<leftarrow> cmos_read_rtc s;
     let s = print ''KERNEL Init Today at: %u/%u/%u %u:%u:%u !\<newline>'' [Num (date_of_month rtc), Num (month rtc),
       Num (year rtc), Num (hours rtc), Num (minutes rtc), Num (seconds rtc)] s;
     let s = pic_init s;
     let s = pic_mask_all s;
     let s = lapic_init s;
     let s = ioapic_init s;
     Some (emit Sti s) }"

definition kmain_devices :: "image \<Rightarrow> mem \<Rightarrow> 'a acpi_scheme \<Rightarrow> (mem \<times> 'a acpi_scheme) option" where
  "kmain_devices k m s = do {
     s \<leftarrow> lapic_timer_config s;
     (m, s) \<leftarrow> acpi_init (page_directory k) (page_tables k) (rsd_ptr_literal k) (facp_literal k) m s;
     let s = i8042_init s;
     let s = kbd_init s;
     let s = mouse_init s;
     Some (m, s) }"

definition kmain_arguments :: "image \<Rightarrow> u32 \<Rightarrow> u32 \<Rightarrow> mem \<Rightarrow> 'a machine_scheme \<Rightarrow> 'a machine_scheme option" where
  "kmain_arguments k magic mbi m s =
     (let D = page_directory k - KERNEL_CONFIG_VMA
      in if magic = 0x2BADB002 then do {
           flags \<leftarrow> rd32 D m (mbi + of_nat (offsetof multiboot_info_t ''flags''));
           if flags AND push_bit 2 1 \<noteq> 0 then do {
             cmdline \<leftarrow> rd32 D m (mbi + of_nat (offsetof multiboot_info_t ''cmdline''));
             let s = print ''Multiboot Args Found !\<newline>'' [] s;
             args \<leftarrow> string_at D m (cmdline + KERNEL_CONFIG_VMA);
             Some (print ''    Args = %s\<newline>'' [Str args] s)
           } else Some s
         } else Some s)"

definition kmain_vendor :: "image \<Rightarrow> mem \<Rightarrow> 'a machine_scheme \<Rightarrow> 'a machine_scheme option" where
  "kmain_vendor k m s =
     (let (p, stack, s) = cpu_cpuid_manufacturer (cpuid_stack k) (vendor_buffer k)
            (lin (page_directory k - KERNEL_CONFIG_VMA) m) s
      in map_option (\<lambda>n. print ''CPU Vendor: %s\<newline>'' [Str (map (\<lambda>i. stack (p + of_nat i)) [0..<unat n])] s)
           (strlen stack p))"

definition kmain :: "image \<Rightarrow> u32 \<Rightarrow> u32 \<Rightarrow> mem \<Rightarrow> 'a acpi_scheme \<Rightarrow> (mem \<times> 'a acpi_scheme) option" where
  "kmain k magic mbi m s = do {
     s \<leftarrow> kmain_prepare s;
     (m, s) \<leftarrow> kmain_devices k m s;
     s \<leftarrow> kmain_arguments k magic mbi m s;
     s \<leftarrow> kmain_vendor k m s;
     Some (m, s) }"

section \<open>Interrupts\<close>

text \<open>The stub of a vector calls the handler in its slot, and none when the slot is NULL.\<close>

definition dispatch :: "u32 \<Rightarrow> mem \<Rightarrow> u32 \<Rightarrow> idt_registers \<Rightarrow> u32 \<Rightarrow> idt_cpu_frame \<Rightarrow> 'a acpi_scheme \<Rightarrow> 'a acpi_scheme outcome" where
  "dispatch D m v r e f s = (case idt_gate_callback s (unat v) of
     Null \<Rightarrow> Returned s
   | Idt_exception_handler \<Rightarrow> idt_exception_handler v r e f s
   | Idt_interrupt_handler \<Rightarrow> idt_interrupt_handler v r e f s
   | Acpi_interrupt_handler_power \<Rightarrow> acpi_interrupt_handler_power D m v r e f s
   | I8042_irq_handler \<Rightarrow> i8042_irq_handler v r e f s
   | Kbd_irq_handler \<Rightarrow> kbd_irq_handler v r e f s
   | Mouse_irq_handler \<Rightarrow> mouse_irq_handler v r e f s)"

text \<open>The loop of \<open>kmain\<close>: it halts, and every interrupt that returns brings it back. The list
  has the vectors of the interrupts served so far.\<close>

inductive idle :: "u32 \<Rightarrow> mem \<Rightarrow> 'a acpi_scheme \<Rightarrow> u32 list \<Rightarrow> 'a acpi_scheme \<Rightarrow> bool" for D m s where
  start: "idle D m s [] s"
| halt: "idle D m s vs t \<Longrightarrow> idle D m s vs (emit Hlt t)"
| interrupt: "idle D m s vs t \<Longrightarrow> 32 \<le> v \<Longrightarrow> v < 255 \<Longrightarrow> dispatch D m v r e f t = Returned u
    \<Longrightarrow> idle D m s (vs @ [v]) u"

section \<open>Handlers\<close>

text \<open>What an interrupt handler does when it returns: one end of interrupt, and the tables of the
  kernel as they were.\<close>

definition served :: "'a acpi_scheme \<Rightarrow> 'a acpi_scheme \<Rightarrow> bool" where
  "served s t \<longleftrightarrow> eois (lapic_base s) (trace t) = Suc (eois (lapic_base s) (trace s))
     \<and> lapic_base t = lapic_base s \<and> idt_gate_callback t = idt_gate_callback s"

definition is_interrupt_handler :: "handler \<Rightarrow> bool" where
  "is_interrupt_handler h \<longleftrightarrow> h \<noteq> Null \<and> h \<noteq> Idt_exception_handler"

lemma eio_callbacks: "idt_gate_callback (lapic_eio v s) = idt_gate_callback s"
  by (simp add: lapic_eio_emit)

lemma input_callbacks:
  fixes s :: "'a idt_scheme"
  assumes "port_step s t" "port_step (lapic_eio v t) u"
  shows "idt_gate_callback u = idt_gate_callback s"
  using port_step_idt(1) [OF assms(1)] port_step_idt(1) [OF assms(2)] by (simp add: eio_callbacks)

lemma dispatch_served:
  assumes "dispatch D m v r e f s = Returned t" "is_interrupt_handler (idt_gate_callback s (unat v))"
  shows "served s t"
proof (cases "idt_gate_callback s (unat v)")
  case Idt_interrupt_handler
  then have h: "idt_interrupt_handler v r e f s = Returned t" using assms(1) by (simp add: dispatch_def)
  then have "idt_gate_callback t = idt_gate_callback s"
    unfolding default_handler_trace by (auto simp: pic_eio_def io_port_outb_def)
  then show ?thesis using default.one_eoi [OF h] default.same_base [OF h] by (simp add: served_def)
next
  case Acpi_interrupt_handler_power
  then have h: "acpi_interrupt_handler_power D m v r e f s = Returned t" using assms(1) by (simp add: dispatch_def)
  then have "idt_gate_callback t = idt_gate_callback s"
    using power_handler_returns input_callbacks [of s _ v t] port_step_refl by blast
  then show ?thesis using power.one_eoi [OF h] power.same_base [OF h] by (simp add: served_def)
next
  case I8042_irq_handler
  then have h: "i8042_irq_handler v r e f s = Returned t" using assms(1) by (simp add: dispatch_def)
  then have "idt_gate_callback t = idt_gate_callback s"
    by (intro input_callbacks [of s "snd (i8042_read s)" v])
       (auto simp: i8042_irq_handler_def split_beta Let_def port_steps)
  then show ?thesis using i8042.one_eoi [OF h] i8042.same_base [OF h] by (simp add: served_def)
next
  case Kbd_irq_handler
  then have h: "kbd_irq_handler v r e f s = Returned t" using assms(1) by (simp add: dispatch_def)
  have "idt_gate_callback t = idt_gate_callback s"
    by (rule input_callbacks [OF _ handler_returns(1) [OF h]]) (simp add: port_steps)
  then show ?thesis using kbd.one_eoi [OF h] kbd.same_base [OF h] by (simp add: served_def)
next
  case Mouse_irq_handler
  then have h: "mouse_irq_handler v r e f s = Returned t" using assms(1) by (simp add: dispatch_def)
  have "idt_gate_callback t = idt_gate_callback s"
    by (rule input_callbacks [OF _ handler_returns(2) [OF h]]) (simp add: port_steps)
  then show ?thesis using mouse.one_eoi [OF h] mouse.same_base [OF h] by (simp add: served_def)
qed (use assms(2) in \<open>simp_all add: is_interrupt_handler_def\<close>)

text \<open>Only the power button stops the processor.\<close>

lemma dispatch_halts:
  assumes "dispatch D m v r e f s = Halted t" "is_interrupt_handler (idt_gate_callback s (unat v))"
  shows "idt_gate_callback s (unat v) = Acpi_interrupt_handler_power"
  using assms
  by (auto simp: dispatch_def is_interrupt_handler_def idt_interrupt_handler_def i8042_irq_handler_def
      kbd_irq_handler_def mouse_irq_handler_def Let_def split_beta split: handler.splits if_splits)

text \<open>Every vector the devices may deliver has an interrupt handler.\<close>

definition serviced :: "'a idt_scheme \<Rightarrow> bool" where
  "serviced s \<longleftrightarrow> (\<forall>i. 32 \<le> i \<and> i < 255 \<longrightarrow> is_interrupt_handler (idt_gate_callback s i))"

lemma servicedD: "serviced s \<Longrightarrow> 32 \<le> v \<Longrightarrow> v < (255 :: u32) \<Longrightarrow> is_interrupt_handler (idt_gate_callback s (unat v))"
  by (simp add: serviced_def word_le_nat_alt word_less_nat_alt)

inductive_cases idle_interrupted: "idle D m s (vs @ [v]) t"

lemma idle_invariant:
  assumes "idle D m s vs t" "serviced s"
  shows "idt_gate_callback t = idt_gate_callback s \<and> lapic_base t = lapic_base s
    \<and> eois (lapic_base s) (trace t) = length vs + eois (lapic_base s) (trace s)"
  using assms
proof (induction rule: idle.induct)
  case (interrupt vs t v r e f u)
  then have IH: "idt_gate_callback t = idt_gate_callback s" "lapic_base t = lapic_base s"
    "eois (lapic_base s) (trace t) = length vs + eois (lapic_base s) (trace s)" by simp_all
  have "is_interrupt_handler (idt_gate_callback t (unat v))"
    using servicedD [OF interrupt.prems interrupt.hyps(2,3)] by (simp add: IH)
  from dispatch_served [OF interrupt.hyps(4) this] show ?case by (simp add: served_def IH)
qed simp_all

lemma idle_next:
  assumes "idle D m s vs t" "serviced s" "32 \<le> v" "v < 255"
  shows "(\<exists>u. dispatch D m v r e f t = Returned u \<and> served t u \<and> idle D m s (vs @ [v]) u)
    \<or> idt_gate_callback s (unat v) = Acpi_interrupt_handler_power \<and> (\<exists>u. dispatch D m v r e f t = Halted u)"
proof -
  have h: "is_interrupt_handler (idt_gate_callback t (unat v))"
    using idle_invariant [OF assms(1,2)] servicedD [OF assms(2-4)] by simp
  show ?thesis
  proof (cases "dispatch D m v r e f t")
    case (Returned u)
    then show ?thesis using dispatch_served [OF Returned h] interrupt [OF assms(1,3,4) Returned] by blast
  next
    case (Halted u)
    then show ?thesis using dispatch_halts [OF Halted h] idle_invariant [OF assms(1,2)] by auto
  qed
qed

section \<open>The handlers after the initialisation\<close>

lemma lapic_init_more:
  fixes s :: "'a lapic_scheme"
  shows "lapic.more (lapic_init s) = lapic.more s"
  by (simp add: lapic_init_def lapic_get_base_def lapic_enable_def lapic_op_defs Let_def emit_def split_beta)

lemma lapic_more_callbacks:
  fixes s t :: "'a idt_scheme"
  shows "lapic.more t = lapic.more s \<Longrightarrow> idt_gate_callback t = idt_gate_callback s"
  by (cases s; cases t) simp

lemma cmos_more: "cmos_read_rtc s = Some (rtc, t) \<Longrightarrow> port_step s t"
proof -
  assume "cmos_read_rtc s = Some (rtc, t)"
  then obtain u where u: "cmos_wait (cmos_select 0x0A s) = Some u" "t = snd (cmos_read_all u)"
    by (auto simp: cmos_read_rtc_def)
  obtain vs v where "trace u = trace (cmos_select 0x0A s) @ concat (map cmos_events vs) @ cmos_events v"
    "hw u = hw (cmos_select 0x0A s)" "machine.more u = machine.more (cmos_select 0x0A s)"
    using cmos.loop_trace [OF u(1)] by blast
  then have "port_step (cmos_select 0x0A s) u"
    by (auto simp: port_step_def cmos_events_def list_all_iff port_event_def)
  moreover have "port_step s (cmos_select 0x0A s)" by (simp add: cmos_select_def port_steps)
  moreover have "port_step u t"
    by (simp add: u(2) cmos_read_all_def cmos_get_def cmos_bcd2dec_read_def cmos_read_def cmos_select_def
        split_beta Let_def port_steps)
  ultimately show ?thesis using port_step_trans by blast
qed

lemma ioapic_init_more: "machine.more (ioapic_init s) = machine.more s"
  by (simp add: ioapic_init_def split_beta Let_def ioapic_read_def)

lemma stage_callbacks:
  fixes s :: "'a idt_scheme"
  shows "idt_gate_callback (lapic_init s) = idt_gate_callback s"
    "idt_gate_callback (pic_mask_all s) = idt_gate_callback s"
    "idt_gate_callback (pic_init s) = idt_gate_callback s"
    "idt_gate_callback (ioapic_init s) = idt_gate_callback s"
  by (rule lapic_more_callbacks, rule lapic_init_more)
     (rule callback_more, simp add: ioapic_init_more)+

lemma prepare_callbacks:
  fixes s t :: "'a idt_scheme"
  assumes "kmain_prepare s = Some t" shows "idt_gate_callback t = idt_gate_callback s"
proof -
  obtain rtc u where u: "cmos_read_rtc s = Some (rtc, u)"
    using assms by (auto simp: kmain_prepare_def split: bind_splits)
  have "idt_gate_callback t = idt_gate_callback u"
    using assms by (auto simp: kmain_prepare_def u Let_def stage_callbacks print_def)
  also have "\<dots> = idt_gate_callback s" by (rule port_step_idt(1) [OF cmos_more [OF u]])
  finally show ?thesis .
qed

lemma timer_config_callbacks:
  fixes s t :: "'a idt_scheme"
  assumes "lapic_timer_config s = Some t" shows "idt_gate_callback t = idt_gate_callback s"
proof -
  obtain u where u: "lapic_timer_calibrate (print ''LAPIC configure:\<newline>'' [] s) = Some u"
    "idt_gate_callback t = idt_gate_callback u"
    using assms by (auto simp: lapic_timer_config_def lapic_op_defs Let_def)
  then show ?thesis
    using lapic_calibrated [OF u(1)] lapic_more_callbacks [of u "print ''LAPIC configure:\<newline>'' [] s"]
    by (auto simp: print_def)
qed

lemma i8042_callbacks:
  fixes s :: "'a idt_scheme"
  assumes "i \<noteq> 33" "i \<noteq> 44" shows "idt_gate_callback (i8042_init s) i = idt_gate_callback s i"
proof (cases "fst (i8042_self_test s)")
  case True
  then show ?thesis using init_handlers [of s] assms by (auto simp: split_beta)
next
  case False
  then have "port_step s (i8042_init s)" using init_handlers [of s] by (auto simp: split_beta)
  from port_step_idt(1) [OF this] show ?thesis by simp
qed

lemma devices_callbacks:
  fixes s t :: "'a acpi_scheme"
  assumes "kmain_devices k m s = Some (m', t)"
  shows "\<exists>u :: 'a acpi_scheme. power_slots s u \<and> idt_gate_callback t = (idt_gate_callback u)(33 := Kbd_irq_handler, 44 := Mouse_irq_handler)"
proof -
  obtain v u where v: "lapic_timer_config s = Some v"
    and u: "acpi_init (page_directory k) (page_tables k) (rsd_ptr_literal k) (facp_literal k) m v = Some (m', u)"
    and t: "t = mouse_init (kbd_init (i8042_init u))"
    using assms by (auto simp: kmain_devices_def split: bind_splits)
  have "page_directory k = page_directory k - KERNEL_CONFIG_VMA + KERNEL_CONFIG_VMA" by simp
  with u have "power_slots v u" using init_slots by metis
  then have "power_slots s u" by (simp add: power_slots_def timer_config_callbacks [OF v])
  moreover have "idt_gate_callback t = (idt_gate_callback u)(33 := Kbd_irq_handler, 44 := Mouse_irq_handler)"
    by (auto simp: t inits_callbacks i8042_callbacks)
  ultimately show ?thesis by blast
qed

lemma arguments_port: "kmain_arguments k magic mbi m s = Some t \<Longrightarrow> port_step s t"
  by (auto simp: kmain_arguments_def Let_def port_steps split: bind_splits if_splits)

lemma vendor_more: "kmain_vendor k m s = Some t \<Longrightarrow> machine.more t = machine.more s"
  by (auto simp: kmain_vendor_def cpu_cpuid_manufacturer_def cpu_cpuid_def Let_def split_beta)

lemma kmain_callbacks:
  fixes s t :: "'a acpi_scheme"
  assumes "kmain k magic mbi m s = Some (m', t)"
  shows "\<exists>u :: 'a acpi_scheme. power_slots s u \<and> idt_gate_callback t = (idt_gate_callback u)(33 := Kbd_irq_handler, 44 := Mouse_irq_handler)"
proof -
  obtain a b c where a: "kmain_prepare s = Some a" and b: "kmain_devices k m a = Some (m', b)"
    and c: "kmain_arguments k magic mbi m' b = Some c" and t: "kmain_vendor k m' c = Some t"
    using assms by (auto simp: kmain_def split: bind_splits)
  have "idt_gate_callback t = idt_gate_callback b"
    using callback_more [OF vendor_more [OF t]] port_step_idt(1) [OF arguments_port [OF c]] by simp
  with devices_callbacks [OF b] show ?thesis
    by (auto simp: power_slots_def prepare_callbacks [OF a])
qed

lemma idt_init_callback: "32 \<le> i \<Longrightarrow> i < 255 \<Longrightarrow> idt_gate_callback (idt_init addr h s) i = Idt_interrupt_handler"
  by (simp add: idt_init_def Let_def idt_set_table_def callbacks.loop_table print_def callback_for_def reserved_def)

lemma idt_init_exception: "\<not> reserved i \<Longrightarrow> i < 32 \<Longrightarrow> idt_gate_callback (idt_init addr h s) i = Idt_exception_handler"
  by (simp add: idt_init_def Let_def idt_set_table_def callbacks.loop_table print_def callback_for_def)

lemma idt_init_serviced: "serviced (idt_init addr h s)"
  by (simp add: serviced_def is_interrupt_handler_def idt_init_callback)

lemma kmain_serviced:
  assumes "power_slots (idt_init addr h s) u"
    and "idt_gate_callback t = (idt_gate_callback u)(33 := Kbd_irq_handler, 44 := Mouse_irq_handler)"
  shows "serviced t"
proof -
  have "is_interrupt_handler (idt_gate_callback u i)" if "32 \<le> i" "i < 255" for i
    using spec [OF assms(1) [unfolded power_slots_def], of i] idt_init_callback [OF that, of addr h s]
    by (auto simp: is_interrupt_handler_def)
  then show ?thesis by (simp add: serviced_def assms(2) is_interrupt_handler_def)
qed

text \<open>After \<open>idt_init\<close> and \<open>kmain\<close>, and after any sequence of interrupts: keyboard and mouse have
  their handlers, each interrupt served has been acknowledged once at the local APIC, and
  every further interrupt of a device is served, acknowledged once and leaves the tables as
  they are, or it is the power button that stops the processor.\<close>

theorem kernel_serves:
  fixes s t u :: "'a acpi_scheme"
  assumes "kmain k magic mbi m (idt_init addr h s) = Some (m', t)"
    and "idle (page_directory k - KERNEL_CONFIG_VMA) m' t vs u"
  shows "idt_gate_callback u 33 = Kbd_irq_handler \<and> idt_gate_callback u 44 = Mouse_irq_handler
    \<and> eois (lapic_base t) (trace u) = length vs + eois (lapic_base t) (trace t)
    \<and> (\<forall>v r e f. 32 \<le> v \<and> v < 255 \<longrightarrow>
        (\<exists>w. dispatch (page_directory k - KERNEL_CONFIG_VMA) m' v r e f u = Returned w \<and> served u w)
        \<or> idt_gate_callback u (unat v) = Acpi_interrupt_handler_power
          \<and> (\<exists>w. dispatch (page_directory k - KERNEL_CONFIG_VMA) m' v r e f u = Halted w))"
proof -
  obtain w :: "'a acpi_scheme" where w: "power_slots (idt_init addr h s) w"
    "idt_gate_callback t = (idt_gate_callback w)(33 := Kbd_irq_handler, 44 := Mouse_irq_handler)"
    using kmain_callbacks [OF assms(1)] by blast
  note serviced = kmain_serviced [OF w]
  note inv = idle_invariant [OF assms(2) serviced]
  have "idt_gate_callback u 33 = Kbd_irq_handler" "idt_gate_callback u 44 = Mouse_irq_handler"
    using inv w(2) by simp_all
  moreover have "idt_gate_callback u = idt_gate_callback t" using inv by simp
  ultimately show ?thesis using inv idle_next [OF assms(2) serviced] by metis
qed

section \<open>Before the interrupts are enabled\<close>

text \<open>Traffic with the APICs: device registers, model-specific registers and output.\<close>

definition apic_event :: "event \<Rightarrow> bool" where
  "apic_event e = (case e of MmioRead a v \<Rightarrow> True | MmioWrite a v \<Rightarrow> True | RdMsr n d a \<Rightarrow> True
     | WrMsr n d a \<Rightarrow> True | Print f as \<Rightarrow> True | _ \<Rightarrow> False)"

definition apic_step :: "'a machine_scheme \<Rightarrow> 'b machine_scheme \<Rightarrow> bool" where
  "apic_step s t \<longleftrightarrow> (\<exists>es. trace t = trace s @ es \<and> list_all apic_event es) \<and> hw t = hw s"

lemma apic_step_refl: "apic_step s s"
  by (auto simp: apic_step_def intro: exI [of _ "[]"])

lemma apic_step_trans: "apic_step s t \<Longrightarrow> apic_step t u \<Longrightarrow> apic_step s u"
  by (force simp: apic_step_def)

lemma apic_step_emit: "apic_event e \<Longrightarrow> apic_step s t \<Longrightarrow> apic_step s (emit e t)"
  by (force simp: apic_step_def)

lemma apic_step_ops:
  "apic_step s t \<Longrightarrow> apic_step s (print f as t)"
  "apic_step s t \<Longrightarrow> apic_step s (mmio_write a v t)"
  "apic_step s t \<Longrightarrow> apic_step s (snd (mmio_read a t))"
  "apic_step s t \<Longrightarrow> apic_step s (snd (cpu_msr_read n t))"
  "apic_step s t \<Longrightarrow> apic_step s (cpu_msr_write n d x t)"
  by (simp_all add: machine_defs cpu_msr_read_def cpu_msr_write_def Let_def split_beta apic_step_emit apic_event_def)

lemma apic_step_base: "apic_step s t \<Longrightarrow> apic_step s (t\<lparr>lapic_base := b\<rparr>)"
  by (simp add: apic_step_def)

lemma ioapic_steps:
  "apic_step s t \<Longrightarrow> apic_step s (ioapic_write a r v t)"
  "apic_step s t \<Longrightarrow> apic_step s (snd (ioapic_read a r t))"
  by (simp_all add: ioapic_write_def ioapic_read_def Let_def split_beta apic_step_ops)

lemma ioapic_loop_step: "apic_step s t \<Longrightarrow> apic_step s (ioapic_loop i n t)"
proof (induction i n t rule: ioapic_loop.induct)
  case (1 i n t)
  then show ?case by (subst ioapic_loop.simps) (simp add: Let_def ioapic_steps)
qed

lemma apic_inits: "apic_step s (lapic_init s)" "apic_step s (ioapic_init s)"
  by (simp_all add: lapic_init_def lapic_get_base_def lapic_enable_def lapic_write_def lapic_read_def ioapic_init_def
      Let_def split_beta apic_step_ops apic_step_base ioapic_steps ioapic_loop_step apic_step_refl)

lemma apic_hw: "hw (lapic_init s) = hw s" "hw (ioapic_init s) = hw s"
  using apic_inits(1) [of s] apic_inits(2) [of s] by (simp_all add: apic_step_def)

lemma chip_after_apic: "list_all apic_event es \<Longrightarrow> chip_after cmd dat es c = c"
  by (induction es arbitrary: c) (auto simp: apic_event_def split: event.splits)

lemma no_sti: "list_all apic_event es \<Longrightarrow> Sti \<notin> set es" "list_all port_event es \<Longrightarrow> Sti \<notin> set es"
  by (auto simp: list_all_iff apic_event_def port_event_def)

lemma pic_steps: "port_step s t \<Longrightarrow> port_step s (pic_mask_all (pic_init t))"
  by (simp add: pic_mask_all_def pic_init_def pic_unmask_all_def Let_def port_steps)

lemma lapic_init_ioapic:
  fixes s :: "'a lapic_scheme"
  assumes "\<And>es. rdmsr (hw s) es MSR_IA32_APIC_BASE = (hi, lo)" "lo AND 0xFFFFF000 = 0xFEE00000"
  shows "ioapic_regs r (lapic_init s) = ioapic_regs r s" "lapic_base (lapic_init s) = 0xFEE00000"
proof -
  obtain i v where "trace (lapic_init s) = trace s @ [Print ''Initializing LAPIC 82489DX !\<newline>'' [],
      RdMsr MSR_IA32_APIC_BASE hi lo, MmioRead (0xFEE00000 OR LAPIC_ID) i, MmioRead (0xFEE00000 OR LAPIC_VER) v,
      MmioWrite (0xFEE00000 OR LAPIC_LVTLINT0) 0x10000, MmioWrite (0xFEE00000 OR LAPIC_LVTLINT1) 0x400,
      RdMsr MSR_IA32_APIC_BASE hi lo, WrMsr MSR_IA32_APIC_BASE hi (lo OR 0x800)]"
    and b: "lapic_base (lapic_init s) = 0xFEE00000"
    using lapic_init_effect [OF assms(1)] assms(2) by auto
  then show "ioapic_regs r (lapic_init s) = ioapic_regs r s"
    by (simp add: ioapic_regs_def ioapic_after_def ioapic_event_def)
  show "lapic_base (lapic_init s) = 0xFEE00000" by (rule b)
qed

lemma prepare_split:
  assumes "kmain_prepare s = Some t"
  obtains v where "port_step s v" "t = emit Sti (ioapic_init (lapic_init (pic_mask_all (pic_init v))))"
proof -
  obtain rtc u where u: "cmos_read_rtc s = Some (rtc, u)"
    using assms by (auto simp: kmain_prepare_def split: bind_splits)
  let ?v = "print ''KERNEL Init Today at: %u/%u/%u %u:%u:%u !\<newline>'' [Num (date_of_month rtc), Num (month rtc),
    Num (year rtc), Num (hours rtc), Num (minutes rtc), Num (seconds rtc)] u"
  have "port_step s ?v" by (intro port_steps cmos_more [OF u])
  moreover have "t = emit Sti (ioapic_init (lapic_init (pic_mask_all (pic_init ?v))))"
    using assms by (auto simp: kmain_prepare_def u Let_def)
  ultimately show ?thesis by (rule that)
qed

lemma prepare_base:
  fixes s t :: "'a lapic_scheme"
  assumes "kmain_prepare s = Some t"
    and "\<And>es. rdmsr (hw s) es MSR_IA32_APIC_BASE = (hi, lo)" "lo AND 0xFFFFF000 = 0xFEE00000"
  shows "lapic_base t = 0xFEE00000"
proof -
  obtain v where v: "port_step s v" "t = emit Sti (ioapic_init (lapic_init (pic_mask_all (pic_init v))))"
    using prepare_split [OF assms(1)] .
  have "rdmsr (hw (pic_mask_all (pic_init v))) es MSR_IA32_APIC_BASE = (hi, lo)" for es
    using port_step_hw [OF pic_steps [OF v(1)]] assms(2) by simp
  from lapic_init_ioapic(2) [OF this assms(3)] show ?thesis
    using lapic_more [OF ioapic_init_more, of "lapic_init (pic_mask_all (pic_init v))"] by (simp add: v(2))
qed

text \<open>C6. When \<open>kmain\<close> enables interrupts, for the first time, every line of the legacy controllers is
  masked and they run on the vectors 32 to 47, the base of the local APIC is known, and the I/O
  APIC delivers each of its lines below the last on its vector, the cascade masked.\<close>

theorem kmain_ready:
  fixes s t :: "'a lapic_scheme"
  assumes "kmain_prepare s = Some t"
    and msr: "\<And>es. rdmsr (hw s) es MSR_IA32_APIC_BASE = (hi, lo)" "lo AND 0xFFFFF000 = 0xFEE00000"
    and io: "ioapic_answers r s" "unat (get_field ioapic_ver_t ''mre'' (ioapic_regs r s 1)) = n" "n < 120"
  shows "(\<exists>es. trace t = trace s @ es @ [Sti] \<and> Sti \<notin> set es)
    \<and> remapped 32 4 (chip_after PIC_MC PIC_MD (trace t) c) \<and> remapped 40 2 (chip_after PIC_SC PIC_SD (trace t) c)
    \<and> lapic_base t = 0xFEE00000
    \<and> (\<forall>i < n. ioapic_regs r t (index_L i) = (if i = 2 then 0x10022 else of_nat (i + 32)))"
proof -
  obtain v where v: "port_step s v" "t = emit Sti (ioapic_init (lapic_init (pic_mask_all (pic_init v))))"
    using prepare_split [OF assms(1)] .
  define p where "p = pic_mask_all (pic_init v)"
  have t: "t = emit Sti (ioapic_init (lapic_init p))" by (simp add: v(2) p_def)
  have p: "port_step s p" unfolding p_def by (rule pic_steps [OF v(1)])
  have a: "apic_step p (ioapic_init (lapic_init p))" using apic_step_trans apic_inits by blast
  obtain es where es: "trace (ioapic_init (lapic_init p)) = trace p @ es" "list_all apic_event es"
    using a by (auto simp: apic_step_def)
  obtain fs where fs: "trace p = trace s @ fs" "list_all port_event fs" using p by (auto simp: port_step_def)
  have "trace t = trace s @ (fs @ es) @ [Sti]" "Sti \<notin> set (fs @ es)"
    using es fs no_sti by (auto simp: t)
  then have order: "\<exists>es. trace t = trace s @ es @ [Sti] \<and> Sti \<notin> set es" by blast
  have "chip_after cmd dat (trace t) c = chip_after cmd dat (trace p) c" for cmd dat
    by (simp add: t es(1) chip_after_apic [OF es(2)])
  then have chips: "remapped 32 4 (chip_after PIC_MC PIC_MD (trace t) c)" "remapped 40 2 (chip_after PIC_SC PIC_SD (trace t) c)"
    unfolding p_def by (simp_all only: remapped_chips)
  have hw: "hw p = hw s" "hw (lapic_init p) = hw s"
    using port_step_hw [OF p] apic_inits(1) [of p] by (simp_all add: apic_step_def)
  have msr': "\<And>es. rdmsr (hw p) es MSR_IA32_APIC_BASE = (hi, lo)" by (simp add: hw msr(1))
  note l = lapic_init_ioapic [OF msr' msr(2)]
  have "ioapic_answers r (lapic_init p)" using io(1) by (simp add: ioapic_answers_def hw)
  moreover have "ioapic_regs r (lapic_init p) = ioapic_regs r s" using l(1) port_step_ioapic [OF p] by simp
  moreover have "ioapic_regs r t = ioapic_regs r (ioapic_init (lapic_init p))"
    by (simp add: t ioapic_regs_def ioapic_after_snoc ioapic_event_other)
  ultimately have table: "\<forall>i < n. ioapic_regs r t (index_L i) = (if i = 2 then 0x10022 else of_nat (i + 32))"
    using init_table [of r "lapic_init p" n] io(2,3) by simp
  with order chips prepare_base [OF assms(1) msr] show ?thesis by blast
qed

section \<open>Reaching the idle loop\<close>

lemma prepare_returns:
  fixes s :: "'a lapic_scheme"
  assumes "\<And>es. cmos_idle (port8 (hw s) es 0x71)"
  shows "\<exists>t. kmain_prepare s = Some t \<and> hw t = hw s"
proof -
  have "cmos_idle (cmos.reading 0 (cmos_select 0x0A s))"
    by (simp add: cmos.reading_def cmos_read_def cmos_select_def assms)
  then have "cmos_wait (cmos_select 0x0A s) \<noteq> None" using cmos.loop_None by blast
  then have "cmos_read_rtc s \<noteq> None" by (simp add: cmos_read_rtc_def)
  then obtain rtc u where u: "cmos_read_rtc s = Some (rtc, u)" by force
  moreover have "hw u = hw s" by (rule port_step_hw [OF cmos_more [OF u]])
  ultimately show ?thesis
    by (simp add: kmain_prepare_def apic_hw Let_def)
qed

lemma timer_returns:
  assumes "\<And>es. pit_done (port8 (hw s) es 0x40)"
  shows "\<exists>t. lapic_timer_config s = Some t"
proof -
  have "\<exists>t. pit_wait_ms 10 u = Some t" if "hw u = hw s" for u :: "'a lapic_scheme"
  proof -
    have "pit_done (pit.reading 0 (pit_load 10 u))" by (simp add: pit.reading_def pit_probe_def assms that)
    then have "pit_loop (pit_load 10 u) \<noteq> None" using pit.loop_None by blast
    then show ?thesis by (simp add: pit_wait_ms_def)
  qed
  from this [of "lapic_write LAPIC_ICR 0xFFFFFFFF (lapic_write LAPIC_LVTTR
      (LAPIC_LVTTR_ONESHOT OR LAPIC_LVTTR_MASK) (lapic_write LAPIC_DCR LAPIC_DCR_DIV16 (print ''LAPIC configure:\<newline>'' [] s)))"]
  show ?thesis by (auto simp: lapic_timer_config_def lapic_timer_calibrate_def lapic_write_def Let_def)
qed

lemma strlen_stops: "m (a + of_nat n) = 0 \<Longrightarrow> \<exists>p. strlen_loop m a = Some p"
proof (induction n arbitrary: a)
  case 0
  then show ?case by (subst strlen_loop.simps) simp
next
  case (Suc n)
  then show ?case using Suc.IH [of "a + 1"] by (subst strlen_loop.simps) (simp add: add.assoc)
qed

lemma vendor_returns:
  assumes "locals_ok (cpuid_stack k) (vendor_buffer k)"
  shows "\<exists>t. kmain_vendor k m s = Some t"
proof -
  obtain a b c d where r: "cpuid (hw s) (trace s) 0 = (a, b, c, d)" by (rule prod_cases4)
  let ?b = "vendor_buffer k"
  let ?m = "put_bytes ((store_locals (cpuid_stack k) (a, b, c, d) (lin (page_directory k - KERNEL_CONFIG_VMA) m))(?b + 12 := 0)) ?b
     (bytes32 b @ bytes32 d @ bytes32 c)"
  have "?m (?b + 12) = 0" by (subst put_bytes_other) (auto simp: in_range_def)
  then obtain p where "strlen_loop ?m ?b = Some p" using strlen_stops [of ?m ?b 12] by auto
  then show ?thesis using cpu_cpuid_manufacturer_stores [OF assms r, of "lin (page_directory k - KERNEL_CONFIG_VMA) m"]
    by (auto simp: kmain_vendor_def strlen_def)
qed

lemma arguments_return:
  assumes "magic = 0x2BADB002 \<Longrightarrow> legible (page_directory k - KERNEL_CONFIG_VMA) m 20 mbi"
    and "magic = 0x2BADB002 \<Longrightarrow> bit (load32 (lin (page_directory k - KERNEL_CONFIG_VMA) m) mbi) 2 \<Longrightarrow>
      string_at (page_directory k - KERNEL_CONFIG_VMA) m
        (load32 (lin (page_directory k - KERNEL_CONFIG_VMA) m) (mbi + 16) + KERNEL_CONFIG_VMA) \<noteq> None"
  shows "\<exists>t. kmain_arguments k magic mbi m s = Some t"
proof (cases "magic = 0x2BADB002")
  case True
  have o: "offsetof multiboot_info_t ''flags'' = 0" "offsetof multiboot_info_t ''cmdline'' = 16" by code_simp+
  note rd = legible_reads(3) [OF assms(1) [OF True], of 0] legible_reads(3) [OF assms(1) [OF True], of 16]
  have "x AND 4 = 0 \<longleftrightarrow> \<not> bit x 2" for x :: u32 using and_bit [of x 2] by simp
  then show ?thesis using rd assms(2) [OF True] True
    by (auto simp: kmain_arguments_def o Let_def)
qed (simp add: kmain_arguments_def)

lemma reaches_idle:
  fixes s :: "'a acpi_scheme"
  assumes devices: "\<And>es. cmos_idle (port8 (hw s) es 0x71)" "\<And>es. pit_done (port8 (hw s) es 0x40)"
    and k: "page_directory k = D + KERNEL_CONFIG_VMA" "locals_ok (cpuid_stack k) (vendor_buffer k)"
    and rsdp: "acpi_find_rsdp D m (rsd_ptr_literal k) = Some rsdp" "rd32 D m (rsdp + 16) = Some rsdt"
    and m': "m' = fst (rsdt_mapped (page_directory k) (page_tables k) rsdt m s)"
    and n: "rd32 D m' (rsdt + KERNEL_CONFIG_VMA + 4) = Some (of_nat (36 + 4 * n))" "n < 2 ^ 29"
    and tables: "legible D m' (4 * n) (rsdt + KERNEL_CONFIG_VMA + 36)" "legible D m' 4 (facp_literal k)"
      "list_all (legible D m' 116) (listed D m' (rsdt + KERNEL_CONFIG_VMA + 36) n)"
    and mbi: "magic = 0x2BADB002 \<Longrightarrow> legible D m' 20 mbi"
      "magic = 0x2BADB002 \<Longrightarrow> bit (load32 (lin D m') mbi) 2 \<Longrightarrow>
        string_at D m' (load32 (lin D m') (mbi + 16) + KERNEL_CONFIG_VMA) \<noteq> None"
  shows "\<exists>t. kmain k magic mbi m s = Some (m', t) \<and> (\<forall>i. idt_gate_callback t i = (if i = 33 then Kbd_irq_handler
      else if i = 44 then Mouse_irq_handler
      else if list_ex (claims_slot D m' i) (fadts D m' (facp_literal k) (rsdt + KERNEL_CONFIG_VMA + 36) n) then Acpi_interrupt_handler_power
      else idt_gate_callback s i))"
proof -
  have D: "page_directory k - KERNEL_CONFIG_VMA = D" by (simp add: k(1))
  obtain a where a: "kmain_prepare s = Some a" "hw a = hw s" using prepare_returns devices(1) by blast
  obtain b where b: "lapic_timer_config a = Some b" using timer_returns [of a] devices(2) a(2) by auto
  have "m' = fst (rsdt_mapped (D + KERNEL_CONFIG_VMA) (page_tables k) rsdt m b)"
    unfolding m' k(1) by (rule rsdt_mapped_memory)
  from init_installs [OF rsdp this n tables refl]
  obtain c where c: "acpi_init (page_directory k) (page_tables k) (rsd_ptr_literal k) (facp_literal k) m b = Some (m', c)"
      "\<And>i. idt_gate_callback c i = (if list_ex (claims_slot D m' i) (fadts D m' (facp_literal k) (rsdt + KERNEL_CONFIG_VMA + 36) n)
        then Acpi_interrupt_handler_power else idt_gate_callback b i)"
    unfolding k(1) by blast
  let ?d = "mouse_init (kbd_init (i8042_init c))"
  obtain e where e: "kmain_arguments k magic mbi m' ?d = Some e"
    using arguments_return [of magic k m' mbi ?d] mbi unfolding D by blast
  obtain t where t: "kmain_vendor k m' e = Some t" using vendor_returns [OF k(2)] by blast
  then have "kmain k magic mbi m s = Some (m', t)"
    by (simp add: kmain_def kmain_devices_def a(1) b c(1) e Let_def)
  moreover have "idt_gate_callback t = (idt_gate_callback c)(33 := Kbd_irq_handler, 44 := Mouse_irq_handler)"
    using callback_more [OF vendor_more [OF t]] port_step_idt(1) [OF arguments_port [OF e]]
    by (auto simp: inits_callbacks i8042_callbacks)
  moreover have "idt_gate_callback b = idt_gate_callback s"
    by (simp add: timer_config_callbacks [OF b] prepare_callbacks [OF a(1)])
  ultimately show ?thesis by (simp add: c(2))
qed

text \<open>C20. \<open>kmain\<close> reaches its idle loop, with the memory the mapping of the ACPI tables leaves, when
  the clock is not updating, the timer's output is set, the ACPI tables are readable, so are
  the boot arguments if there are any, and the locals of \<open>cpu_cpuid\<close> lie apart. It leaves keyboard
  and mouse with their handlers, the slots of the listed description tables with that of the power
  button, and every other slot as it was.\<close>

theorem kmain_returns:
  fixes s :: "'a acpi_scheme"
  assumes devices: "\<And>es. cmos_idle (port8 (hw s) es 0x71)" "\<And>es. pit_done (port8 (hw s) es 0x40)"
    and k: "page_directory k = D + KERNEL_CONFIG_VMA" "locals_ok (cpuid_stack k) (vendor_buffer k)"
    and rsdp: "acpi_find_rsdp D m (rsd_ptr_literal k) = Some rsdp" "rd32 D m (rsdp + 16) = Some rsdt"
    and m': "m' = fst (rsdt_mapped (page_directory k) (page_tables k) rsdt m s)"
    and n: "rd32 D m' (rsdt + KERNEL_CONFIG_VMA + 4) = Some (of_nat (36 + 4 * n))" "n < 2 ^ 29"
    and tables: "legible D m' (4 * n) (rsdt + KERNEL_CONFIG_VMA + 36)" "legible D m' 4 (facp_literal k)"
      "list_all (legible D m' 116) (listed D m' (rsdt + KERNEL_CONFIG_VMA + 36) n)"
    and mbi: "magic = 0x2BADB002 \<Longrightarrow> legible D m' 20 mbi"
      "magic = 0x2BADB002 \<Longrightarrow> bit (load32 (lin D m') mbi) 2 \<Longrightarrow>
        string_at D m' (load32 (lin D m') (mbi + 16) + KERNEL_CONFIG_VMA) \<noteq> None"
  shows "\<exists>t. kmain k magic mbi m s = Some (m', t) \<and> (\<forall>i. idt_gate_callback t i = (if i = 33 then Kbd_irq_handler
      else if i = 44 then Mouse_irq_handler
      else if list_ex (claims_slot D m' i) (fadts D m' (facp_literal k) (rsdt + KERNEL_CONFIG_VMA + 36) n) then Acpi_interrupt_handler_power
      else idt_gate_callback s i))"
  by (rule reaches_idle) (use assms in auto)

section \<open>Examples\<close>

definition example_image :: image where
  "example_image = \<lparr>page_directory = 0x1000 + KERNEL_CONFIG_VMA, page_tables = 0xC0010000,
     rsd_ptr_literal = 0xC0200000, facp_literal = 0xC0200010,
     cpuid_stack = \<lparr>at_eax = 0xC0300100, at_ebx = 0xC0300104, at_ecx = 0xC0300108, at_edx = 0xC030010C\<rparr>,
     vendor_buffer = 0xC0300200\<rparr>"

definition example_machine :: acpi where
  "example_machine = example_acpi\<lparr>hw := hw ioapic_machine
     \<lparr>port8 := \<lambda>es p. if p = 0x40 then 0x80 else 0, rdmsr := \<lambda>es n. (0, 0xFEE00900)\<rparr>\<rparr>"

lemma example_machine_simps [simp]:
  "cmos_idle (port8 (hw example_machine) es 0x71)" "pit_done (port8 (hw example_machine) es 0x40)"
  "rdmsr (hw example_machine) es n = (0, 0xFEE00900)"
  by (simp_all add: example_machine_def cmos_idle_def pit_done_def)

lemma example_image_simps [simp]:
  "page_directory example_image = 0x1000 + KERNEL_CONFIG_VMA" "rsd_ptr_literal example_image = 0xC0200000"
  "facp_literal example_image = 0xC0200010"
  "locals_ok (cpuid_stack example_image) (vendor_buffer example_image)"
  by (simp_all add: example_image_def locals_ok_def apart_def)

lemmas example_hyps = example_root example_fadt example_remapped [simplified]

lemma kmain_returns_witness:
  "\<exists>t. kmain example_image 0 0 tables example_machine = Some (tables, t) \<and> idt_gate_callback t 33 = Kbd_irq_handler"
proof -
  have "\<exists>t. kmain example_image 0 0 tables example_machine = Some (tables, t) \<and> (\<forall>i. idt_gate_callback t i = (if i = 33 then Kbd_irq_handler
      else if i = 44 then Mouse_irq_handler
      else if list_ex (claims_slot 0x1000 tables i) (fadts 0x1000 tables (facp_literal example_image) (0x7FE0000 + KERNEL_CONFIG_VMA + 36) 1)
        then Acpi_interrupt_handler_power else idt_gate_callback example_machine i))"
    by (rule kmain_returns [where rsdp = "0xC00E0010" and rsdt = "0x7FE0000" and n = 1 and D = "0x1000"])
       (simp_all add: example_hyps del: One_nat_def listed.simps)
  then obtain t where "kmain example_image 0 0 tables example_machine = Some (tables, t)" "idt_gate_callback t 33 = Kbd_irq_handler"
    by (elim exE conjE allE [where x = 33]) simp
  then show ?thesis by blast
qed

lemma kmain_ready_witness:
  "\<exists>t. kmain_prepare example_machine = Some t \<and> ioapic_regs lines24 t (index_L 1) = 33
     \<and> imr (chip_after PIC_MC PIC_MD (trace t) \<lparr>phase = Icw3, single = True, wants_icw4 = False,
         vector_base = 8, wiring = 0, mode = 0, imr = 0, eois = 0\<rparr>) = 0xFF"
proof -
  obtain t where t: "kmain_prepare example_machine = Some t"
    using prepare_returns [of example_machine] by auto
  have "ioapic_answers lines24 example_machine"
    using ioapic_machine_ok(1) by (simp add: ioapic_answers_def example_machine_def)
  moreover have "ioapic_regs lines24 example_machine = lines24"
    by (simp add: ioapic_regs_def ioapic_after_def example_machine_def example_acpi_def)
  then have "unat (get_field ioapic_ver_t ''mre'' (ioapic_regs lines24 example_machine 1)) = 23"
    by (simp add: lines24_def ioapic_ver_t_def layout_eval)
  ultimately show ?thesis
    using kmain_ready [OF t, where hi = 0 and lo = "0xFEE00900" and r = lines24 and n = 23] t
    by (auto simp: remapped_def)
qed

lemma kernel_serves_witness:
  "\<exists>t w. kmain example_image 0 0 tables (idt_init 0xC0020000 (\<lambda>i. 0xC0030000) example_machine) = Some (tables, t)
     \<and> dispatch 0x1000 tables 33 (idt_registers.make 0 0 0 0 0 0 0 0) 0 (idt_cpu_frame.make 0 8 0x202) t = Returned w
     \<and> served t w"
proof -
  let ?s = "idt_init 0xC0020000 (\<lambda>i. 0xC0030000) example_machine"
  have hw: "hw ?s = hw example_machine"
    by (simp add: idt_init_def Let_def idt_set_table_def idt_init_loop_facts)
  obtain t where t: "kmain example_image 0 0 tables ?s = Some (tables, t)"
    using reaches_idle [where s = ?s and m = tables and m' = tables and magic = 0 and mbi = 0 and k = example_image
      and rsdp = "0xC00E0010" and rsdt = "0x7FE0000" and n = 1 and D = "0x1000"]
    by (auto simp: hw example_hyps simp del: One_nat_def listed.simps)
  have D: "page_directory example_image - KERNEL_CONFIG_VMA = 0x1000" by simp
  note serves = kernel_serves [OF t idle.start, unfolded D]
  have "32 \<le> (33 :: u32) \<and> (33 :: u32) < 255" by simp
  then have "(\<exists>w. dispatch 0x1000 tables 33 (idt_registers.make 0 0 0 0 0 0 0 0) 0 (idt_cpu_frame.make 0 8 0x202) t = Returned w
      \<and> served t w) \<or> idt_gate_callback t (unat (33 :: u32)) = Acpi_interrupt_handler_power"
    using serves by blast
  moreover have "idt_gate_callback t (unat (33 :: u32)) = Kbd_irq_handler" using serves by simp
  ultimately show ?thesis using t by auto
qed

end
