(* ===== verification/Gdt.thy ===== *)
theory Gdt
  imports Machine Memory KlibMem Layout
begin

text \<open>
  The global descriptor table (ksrc/gdt.h, gdt.c): the packing of descriptors, the flat
  table \<open>gdt_init\<close> builds in memory and loads, the reload of the segment registers, and the
  two functions that read a segment's base back through \<open>sgdt\<close>.

  The addresses of the two global variables \<open>gdt\<close> and \<open>gdtl\<close> are parameters, and so is the
  content of the register that \<open>sgdt\<close> is given as its destination, which the code never sets.
\<close>

unbundle bit_operations_syntax

section \<open>Descriptors\<close>

abbreviation (input) GDT_LIMIT :: nat where "GDT_LIMIT \<equiv> 10"

definition GDT_TYPE_DATA_RW :: u32 where "GDT_TYPE_DATA_RW = push_bit 8 2"
definition GDT_TYPE_CODE_ER :: u32 where "GDT_TYPE_CODE_ER = push_bit 8 10"
definition GDT_FLAG_S :: u32 where "GDT_FLAG_S = push_bit 12 1"
definition GDT_FLAG_DPL0 :: u32 where "GDT_FLAG_DPL0 = push_bit 13 0"
definition GDT_FLAG_P :: u32 where "GDT_FLAG_P = push_bit 15 1"
definition GDT_FLAG_DB :: u32 where "GDT_FLAG_DB = push_bit 22 1"
definition GDT_FLAG_G :: u32 where "GDT_FLAG_G = push_bit 23 1"

lemmas gdt_words = GDT_TYPE_DATA_RW_def GDT_TYPE_CODE_ER_def GDT_FLAG_S_def GDT_FLAG_DPL0_def
  GDT_FLAG_P_def GDT_FLAG_DB_def GDT_FLAG_G_def

definition gdt_entry_t :: layout where
  "gdt_entry_t = [(''limit_low'', 16), (''base_low'', 16), (''base_middle'', 8),
     (''ac'', 1), (''rw'', 1), (''dc'', 1), (''ex'', 1), (''_r1'', 1), (''privilege'', 2),
     (''present'', 1), (''limit_high'', 4), (''_r2'', 1), (''_r3'', 1), (''size'', 1),
     (''granularity'', 1), (''base_high'', 8)]"

definition gdt_lgdt_t :: layout where
  "gdt_lgdt_t = [(''limit'', 16), (''base'', 32)]"

definition gdt_segment_t :: layout where
  "gdt_segment_t = [(''privilege'', 2), (''table'', 1), (''index'', 13)]"

definition gdt_low :: "u32 \<Rightarrow> u32 \<Rightarrow> u32" where
  "gdt_low limit base = (limit AND 0xFFFF) OR push_bit 16 (base AND 0xFFFF)"

definition gdt_high :: "u32 \<Rightarrow> u32 \<Rightarrow> u32 \<Rightarrow> u32 \<Rightarrow> u32" where
  "gdt_high limit base type flags = (drop_bit 16 base AND 0xFF) OR type
     OR push_bit 16 (drop_bit 16 limit AND 0x0F) OR flags OR (base AND 0xFF000000)"

definition gdt_set_gate :: "u32 \<Rightarrow> u32 \<Rightarrow> u32 \<Rightarrow> u32 \<Rightarrow> u32 \<Rightarrow> mem \<Rightarrow> mem" where
  "gdt_set_gate entry limit base type flags m =
     (let m = store32 m entry (gdt_low limit base)
      in store32 m (entry + 4) (gdt_high limit base type flags))"

text \<open>A descriptor in memory as the CPU reads it: eight bytes, lowest first.\<close>

definition descriptor :: "mem \<Rightarrow> u32 \<Rightarrow> u64" where
  "descriptor m a = ucast (load32 m a) OR push_bit 32 (ucast (load32 m (a + 4)))"

definition descriptor_base :: "u64 \<Rightarrow> u32" where
  "descriptor_base d = ucast (get_field gdt_entry_t ''base_low'' d)
     OR push_bit 16 (ucast (get_field gdt_entry_t ''base_middle'' d))
     OR push_bit 24 (ucast (get_field gdt_entry_t ''base_high'' d))"

definition descriptor_limit :: "u64 \<Rightarrow> u32" where
  "descriptor_limit d = ucast (get_field gdt_entry_t ''limit_low'' d)
     OR push_bit 16 (ucast (get_field gdt_entry_t ''limit_high'' d))"

section \<open>Loading the table\<close>

definition gdt_set_table :: "u32 \<Rightarrow> mem \<Rightarrow> 'a machine_scheme \<Rightarrow> 'a machine_scheme" where
  "gdt_set_table lgdt m s = emit (Lgdt (load16 m lgdt) (load32 m (lgdt + 2))) s"

text \<open>The selector for CS is put together from two of its three fields.\<close>

definition cs_selector :: "u16 \<Rightarrow> u32" where
  "cs_selector cs = push_bit 3 (ucast (get_field gdt_segment_t ''index'' cs))
     OR ucast (get_field gdt_segment_t ''privilege'' cs)"

definition gdt_flush ::
  "u16 \<Rightarrow> u16 \<Rightarrow> u16 \<Rightarrow> u16 \<Rightarrow> u16 \<Rightarrow> u16 \<Rightarrow> 'a machine_scheme \<Rightarrow> 'a machine_scheme" where
  "gdt_flush cs ss ds es fs gs s =
     (let s = emit (LoadSegment FS fs) s;
          s = emit (LoadSegment GS gs) s;
          s = emit (LoadSegment ES es) s;
          s = emit (LoadSegment DS ds) s;
          s = emit (LoadSegment SS ss) s
      in emit (LoadSegment CS (ucast (cs_selector cs))) s)"

definition gdt_init :: "u32 \<Rightarrow> u32 \<Rightarrow> mem \<Rightarrow> 'a machine_scheme \<Rightarrow> mem \<times> 'a machine_scheme" where
  "gdt_init gdt gdtl m s =
     (let s = print ''Initializing GDT !\<newline>'' [] s;
          m = fst (memset m gdt 0 (of_nat (GDT_LIMIT * sizeof gdt_entry_t)));
          m = gdt_set_gate (gdt + 8) 0xFFFFF 0 GDT_TYPE_CODE_ER
                (GDT_FLAG_S OR GDT_FLAG_P OR GDT_FLAG_DB OR GDT_FLAG_G OR GDT_FLAG_DPL0) m;
          m = gdt_set_gate (gdt + 16) 0xFFFFF 0 GDT_TYPE_DATA_RW
                (GDT_FLAG_S OR GDT_FLAG_P OR GDT_FLAG_DB OR GDT_FLAG_G OR GDT_FLAG_DPL0) m;
          m = store16 m gdtl (8 * of_nat GDT_LIMIT);
          m = store32 m (gdtl + 2) gdt;
          s = gdt_set_table gdtl m s;
          code = 0x08; data = 0x10
      in (m, gdt_flush code data data data data data s))"

section \<open>Reading a base back\<close>

text \<open>The table register and a segment register hold what was loaded last.\<close>

definition gdtr :: "event list \<Rightarrow> u16 \<times> u32" where
  "gdtr es = fold (\<lambda>e r. case e of Lgdt l b \<Rightarrow> (l, b) | _ \<Rightarrow> r) es (0, 0)"

definition ds_register :: "event list \<Rightarrow> u16" where
  "ds_register es = fold (\<lambda>e r. case e of LoadSegment DS v \<Rightarrow> v | _ \<Rightarrow> r) es 0"

definition sgdt :: "u32 \<Rightarrow> mem \<Rightarrow> 'a machine_scheme \<Rightarrow> mem" where
  "sgdt p m s = (case gdtr (trace s) of (limit, base) \<Rightarrow> store32 (store16 m p limit) (p + 2) base)"

definition gdt_entry_base :: "u32 \<Rightarrow> mem \<Rightarrow> u32" where
  "gdt_entry_base e m = (ucast (load16 m (e + 2)) AND 0xFFFF)
     OR push_bit 16 (ucast (m (e + 4)) AND 0xFF) OR push_bit 24 (ucast (m (e + 7)) AND 0xFF)"

definition gdt_get_segment_vma ::
  "u32 \<Rightarrow> u16 \<Rightarrow> mem \<Rightarrow> 'a machine_scheme \<Rightarrow> u32 \<times> mem \<times> 'a machine_scheme" where
  "gdt_get_segment_vma gdtl_p seg m s =
     (let m = sgdt gdtl_p m s;
          entry = load32 m (gdtl_p + 2);
          base = gdt_entry_base (entry + 8 * ucast (get_field gdt_segment_t ''index'' seg)) m;
          s = print ''GDT Segment Base Address: 0X%x 0X%x\<newline>'' [Num base, Num (base + KERNEL_CONFIG_VMA)] s
      in (base + KERNEL_CONFIG_VMA, m, s))"

definition gdt_get_current_segment_vma ::
  "u32 \<Rightarrow> mem \<Rightarrow> 'a machine_scheme \<Rightarrow> u32 \<times> mem \<times> 'a machine_scheme" where
  "gdt_get_current_segment_vma gdtl_p m s =
     (let index = drop_bit 3 (ds_register (trace s));
          m = sgdt gdtl_p m s;
          entry = load32 m (gdtl_p + 2);
          base = gdt_entry_base (entry + 8 * ucast (index AND mask 13)) m;
          s = print ''GDT Segment Base Address: 0X%x 0X%x\<newline>'' [Num base, Num (base + KERNEL_CONFIG_VMA)] s
      in (base + KERNEL_CONFIG_VMA, m, s))"

section \<open>Packing\<close>

lemma gdt_masks:
  "(0xFFFF :: u32) = mask 16" "(0xFF :: u32) = mask 8" "(0x0F :: u32) = mask 4"
  "(0xFF000000 :: u32) = push_bit 24 (mask 8)" "(0xFFFFF :: u32) = mask 20"
  "(0xFF0F00FF :: u32) = mask 8 OR push_bit 16 (mask 4) OR push_bit 24 (mask 8)"
  "(0x00F0FF00 :: u32) = push_bit 8 (mask 8) OR push_bit 20 (mask 4)"
  by (simp_all add: mask_eq_exp_minus_1 push_bit_eq_mult)

lemma apart_words: "apart (a + 4) 4 a 4" "apart a 4 (a + 4) 4"
proof -
  have "a - (a + 4) = (- 4 :: u32)" by simp
  then have "unat (a - (a + 4)) = 2 ^ 32 - 4" by simp
  then show "apart (a + 4) 4 a 4" by (simp add: apart_def)
  then show "apart a 4 (a + 4) 4" by (simp add: apart_commute)
qed

lemma descriptor_set_gate:
  "descriptor (gdt_set_gate a limit base type flags m) a
     = ucast (gdt_low limit base) OR push_bit 32 (ucast (gdt_high limit base type flags))"
  by (simp add: descriptor_def gdt_set_gate_def Let_def quad.ld_st quad.ld_st_apart apart_words)

text \<open>The fields of a descriptor as parts of its two words.\<close>

lemma get_bits_pair:
  fixes l h :: u32
  assumes "i + n \<le> 32"
  shows "ucast (get_bits i n (ucast l OR push_bit 32 (ucast h) :: u64)) = get_bits i n l"
    and "ucast (get_bits (32 + i) n (ucast l OR push_bit 32 (ucast h) :: u64)) = get_bits i n h"
  using assms
  by (rule_tac [!] bit_word_eqI) (auto simp: get_bits_def bit_simps dest: bit_imp_le_length)

lemma descriptor_fields:
  fixes l h :: u32
  defines "d \<equiv> (ucast l OR push_bit 32 (ucast h) :: u64)"
  shows "descriptor_base d
      = get_bits 16 16 l OR push_bit 16 (get_bits 0 8 h) OR push_bit 24 (get_bits 24 8 h)"
    and "descriptor_limit d = get_bits 0 16 l OR push_bit 16 (get_bits 16 4 h)"
    and "ucast (drop_bit 32 d) = h"
proof -
  show "descriptor_base d
      = get_bits 16 16 l OR push_bit 16 (get_bits 0 8 h) OR push_bit 24 (get_bits 24 8 h)"
    "descriptor_limit d = get_bits 0 16 l OR push_bit 16 (get_bits 16 4 h)"
    using get_bits_pair(1) [of 16 16 l h] get_bits_pair(2) [of 0 8 l h]
      get_bits_pair(2) [of 24 8 l h] get_bits_pair(1) [of 0 16 l h] get_bits_pair(2) [of 16 4 l h]
    by (simp_all add: d_def descriptor_base_def descriptor_limit_def get_field_def gdt_entry_t_def)
  show "ucast (drop_bit 32 d) = h"
    unfolding d_def by (rule bit_word_eqI) (auto simp: bit_simps dest: bit_imp_le_length)
qed

lemma attribute_bits:
  assumes "x AND 0xFF0F00FF = 0" "bit (x :: u32) n"
  shows "8 \<le> n \<and> (n < 16 \<or> 20 \<le> n \<and> n < 24)"
proof -
  have "n < 32" using assms(2) bit_imp_le_length by fastforce
  moreover have "\<not> bit (x AND 0xFF0F00FF) n" using assms(1) by simp
  ultimately show ?thesis using assms(2) unfolding gdt_masks by (auto simp: bit_simps)
qed

lemma gdt_low_fields:
  "get_bits 16 16 (gdt_low limit base) = get_bits 0 16 base"
  "get_bits 0 16 (gdt_low limit base) = get_bits 0 16 limit"
  unfolding gdt_low_def gdt_masks by (rule bit_word_eqI; auto simp: get_bits_def bit_simps)+

lemma gdt_high_fields:
  fixes base limit type flags :: u32
  assumes "(type OR flags) AND 0xFF0F00FF = 0"
  defines "h \<equiv> gdt_high limit base type flags"
  shows "get_bits 0 8 h = get_bits 16 8 base"
    and "get_bits 24 8 h = get_bits 24 8 base"
    and "get_bits 16 4 h = get_bits 16 4 limit"
    and "get_bits 8 8 h = get_bits 8 8 (type OR flags)"
    and "get_bits 20 4 h = get_bits 20 4 (type OR flags)"
proof -
  have at: "bit type n \<or> bit flags n \<Longrightarrow> 8 \<le> n \<and> (n < 16 \<or> 20 \<le> n \<and> n < 24)" for n
    using attribute_bits [OF assms(1), of n] by (auto simp: bit_or_iff)
  note defs = h_def gdt_high_def gdt_masks get_bits_def
  show "get_bits 0 8 h = get_bits 16 8 base"
    unfolding defs by (rule bit_word_eqI) (use at in \<open>fastforce simp: bit_simps\<close>)
  show "get_bits 24 8 h = get_bits 24 8 base"
    unfolding defs by (rule bit_word_eqI) (use at in \<open>fastforce simp: bit_simps\<close>)
  show "get_bits 16 4 h = get_bits 16 4 limit"
    unfolding defs by (rule bit_word_eqI) (use at in \<open>fastforce simp: bit_simps\<close>)
  show "get_bits 8 8 h = get_bits 8 8 (type OR flags)"
    unfolding defs by (rule bit_word_eqI) (auto simp: bit_simps)
  show "get_bits 20 4 h = get_bits 20 4 (type OR flags)"
    unfolding defs by (rule bit_word_eqI) (auto simp: bit_simps)
qed

text \<open>Words put together from their parts.\<close>

lemma word_parts:
  fixes x :: u32
  shows "get_bits 0 16 x OR push_bit 16 (get_bits 16 8 x) OR push_bit 24 (get_bits 24 8 x) = x"
    and "get_bits 0 16 x OR push_bit 16 (get_bits 16 4 x) = x AND 0xFFFFF"
    and "x AND 0x00F0FF00 = push_bit 8 (get_bits 8 8 x) OR push_bit 20 (get_bits 20 4 x)"
proof -
  show "get_bits 0 16 x OR push_bit 16 (get_bits 16 8 x) OR push_bit 24 (get_bits 24 8 x) = x"
  proof (rule bit_word_eqI)
    fix n assume "n < LENGTH(32)"
    then consider "n < 16" | "16 \<le> n" "n < 24" | "24 \<le> n" "n < 32" by fastforce
    then show "bit (get_bits 0 16 x OR push_bit 16 (get_bits 16 8 x) OR push_bit 24 (get_bits 24 8 x)) n
        = bit x n"
      by cases (auto simp: get_bits_def bit_simps)
  qed
  show "get_bits 0 16 x OR push_bit 16 (get_bits 16 4 x) = x AND 0xFFFFF"
    "x AND 0x00F0FF00 = push_bit 8 (get_bits 8 8 x) OR push_bit 20 (get_bits 20 4 x)"
    unfolding gdt_masks get_bits_def by (rule bit_word_eqI; auto simp: bit_simps)+
qed

lemma attributes_only:
  assumes "x AND 0xFF0F00FF = (0 :: u32)"
  shows "x AND 0x00F0FF00 = x"
  unfolding gdt_masks
  by (rule bit_word_eqI) (use attribute_bits [OF assms] in \<open>fastforce simp: bit_simps\<close>)

text \<open>A descriptor packed by \<open>gdt_set_gate\<close> gives the CPU the base and the low 20 bits of the
  limit it was given, and exactly the attributes, whenever the type and flag words stay
  within the attribute bits (as every \<open>GDT_TYPE\<close> and \<open>GDT_FLAG\<close> constant does).\<close>

theorem gdt_set_gate_packs:
  fixes a base limit type flags :: u32 and m :: mem
  assumes "(type OR flags) AND 0xFF0F00FF = 0"
  defines "d \<equiv> descriptor (gdt_set_gate a limit base type flags m) a"
  shows "descriptor_base d = base \<and> descriptor_limit d = limit AND 0xFFFFF
    \<and> ucast (drop_bit 32 d) AND 0x00F0FF00 = type OR flags"
proof -
  note high = gdt_high_fields [OF assms(1), of limit base]
  have "gdt_high limit base type flags AND 0x00F0FF00 = type OR flags"
    by (subst word_parts(3)) (simp only: high word_parts(3) [symmetric] attributes_only [OF assms(1)])
  then show ?thesis
    unfolding d_def descriptor_set_gate descriptor_fields gdt_low_fields high word_parts(1,2) by simp
qed

lemma gdt_set_gate_packs_witness:
  "descriptor_base (descriptor (gdt_set_gate 0x1000 0xFFFFF 0x12345678 GDT_TYPE_CODE_ER
     (GDT_FLAG_S OR GDT_FLAG_P OR GDT_FLAG_DB OR GDT_FLAG_G) (\<lambda>x. 0)) 0x1000) = 0x12345678"
  using gdt_set_gate_packs [of GDT_TYPE_CODE_ER "GDT_FLAG_S OR GDT_FLAG_P OR GDT_FLAG_DB OR GDT_FLAG_G"
      "0x1000" "0xFFFFF" "0x12345678" "\<lambda>x. 0"]
  by (simp add: gdt_words)

section \<open>The flat table\<close>

text \<open>A descriptor depends on its eight bytes, and setting one changes no other byte.\<close>

lemma in_range_8_word: "in_range a 4 x \<or> in_range (a + 4) 4 x \<Longrightarrow> in_range a 8 x"
  using in_range_mono [of a 4 x 8] in_range_part [of a 4 4 x 8] by auto

lemma descriptor_cong:
  assumes "\<And>x. in_range a 8 x \<Longrightarrow> m x = m' x"
  shows "descriptor m a = descriptor m' a"
  unfolding descriptor_def
  using quad.ld_cong [of a m m'] quad.ld_cong [of "a + 4" m m'] assms in_range_8_word by metis

lemma gdt_set_gate_other:
  "\<not> in_range a 8 x \<Longrightarrow> gdt_set_gate a limit base type flags m x = m x"
  by (simp only: gdt_set_gate_def Let_def)
     (metis in_range_8_word quad.st_other)

lemma descriptor_other:
  assumes "\<And>x. \<not> in_range b n x \<Longrightarrow> m' x = m x" and "apart b n a 8"
  shows "descriptor m' a = descriptor m a"
  by (rule descriptor_cong) (use assms apartD in \<open>metis\<close>)

lemma descriptor_zero:
  assumes "\<And>x. in_range a 8 x \<Longrightarrow> m x = 0"
  shows "descriptor m a = 0"
proof -
  have "descriptor m a = descriptor (\<lambda>x. 0) a" by (rule descriptor_cong) (simp add: assms)
  also have "\<dots> = 0" by (simp add: descriptor_def load32_def)
  finally show ?thesis .
qed

text \<open>The memory \<open>gdt_init\<close> leaves.\<close>

definition flat_flags :: u32 where
  "flat_flags = GDT_FLAG_S OR GDT_FLAG_P OR GDT_FLAG_DB OR GDT_FLAG_G OR GDT_FLAG_DPL0"

lemma gdt_init_memory:
  "fst (gdt_init gdt gdtl m s) = store32 (store16
     (gdt_set_gate (gdt + 16) 0xFFFFF 0 GDT_TYPE_DATA_RW flat_flags
       (gdt_set_gate (gdt + 8) 0xFFFFF 0 GDT_TYPE_CODE_ER flat_flags (filled m gdt 80 0)))
     gdtl 80) (gdtl + 2) gdt"
proof -
  have "sizeof gdt_entry_t = 8" by (simp add: sizeof_def gdt_entry_t_def)
  then show ?thesis by (simp add: gdt_init_def Let_def memset_filled flat_flags_def)
qed

lemma flat_descriptors:
  "descriptor (gdt_set_gate a 0xFFFFF 0 GDT_TYPE_CODE_ER flat_flags m) a = 0x00CF9A000000FFFF"
  "descriptor (gdt_set_gate a 0xFFFFF 0 GDT_TYPE_DATA_RW flat_flags m) a = 0x00CF92000000FFFF"
  unfolding descriptor_set_gate by (simp_all add: gdt_low_def gdt_high_def flat_flags_def gdt_words)

lemma table_pointer_bytes:
  "\<not> in_range p 6 x \<Longrightarrow> store32 (store16 m p v) (p + 2) w x = m x"
proof -
  assume x: "\<not> in_range p 6 x"
  have "\<not> in_range p 2 x" using x in_range_mono [of p 2 x 6] by auto
  moreover have "\<not> in_range (p + 2) 4 x" using x in_range_part [of p 2 4 x 6] by auto
  ultimately show ?thesis by (simp add: quad.st_other half.st_other)
qed

lemma table_pointer_reads:
  "load16 (store32 (store16 m p v) (p + 2) w) p = v"
  "load32 (store32 (store16 m p v) (p + 2) w) (p + 2) = w"
proof -
  have "apart p 2 (p + 2) 4" using apart_offsets [of 0 2 2 4 p] by simp
  then have "load16 (store32 (store16 m p v) (p + 2) w) p = load16 (store16 m p v) p"
    by (intro half.ld_outside [of "p + 2" 4]) (auto simp: quad.st_other)
  then show "load16 (store32 (store16 m p v) (p + 2) w) p = v" by (simp add: half.ld_st)
qed (rule quad.ld_st)

lemma gdt_init_table:
  fixes gdt gdtl :: u32 and m :: mem and s :: "'a machine_scheme"
  assumes "apart gdtl 6 gdt 80"
  defines "m' \<equiv> fst (gdt_init gdt gdtl m s)"
  shows "(\<forall>k < 10. descriptor m' (gdt + of_nat (8 * k)) =
        (if k = 1 then 0x00CF9A000000FFFF else if k = 2 then 0x00CF92000000FFFF else 0))
    \<and> (\<forall>x. \<not> in_range gdt 80 x \<and> \<not> in_range gdtl 6 x \<longrightarrow> m' x = m x)
    \<and> trace (snd (gdt_init gdt gdtl m s)) = trace s @ [Print ''Initializing GDT !\<newline>'' [],
        Lgdt 80 gdt, LoadSegment FS 0x10, LoadSegment GS 0x10, LoadSegment ES 0x10,
        LoadSegment DS 0x10, LoadSegment SS 0x10, LoadSegment CS 0x08]"
proof (intro conjI allI impI)
  let ?m0 = "filled m gdt 80 0"
  let ?m1 = "gdt_set_gate (gdt + 8) 0xFFFFF 0 GDT_TYPE_CODE_ER flat_flags ?m0"
  let ?m2 = "gdt_set_gate (gdt + 16) 0xFFFFF 0 GDT_TYPE_DATA_RW flat_flags ?m1"
  have m': "m' = store32 (store16 ?m2 gdtl 80) (gdtl + 2) gdt"
    unfolding m'_def by (rule gdt_init_memory)
  have slots: "apart (gdt + of_nat (8 * j)) 8 (gdt + of_nat (8 * k)) 8" if "j < k" "k < 10" for j k
    using that by (intro apart_offsets) simp_all
  have other: "descriptor (gdt_set_gate (gdt + of_nat (8 * j)) l b t f n) (gdt + of_nat (8 * k))
      = descriptor n (gdt + of_nat (8 * k))" if "j \<noteq> k" "j < 10" "k < 10" for j k l b t f n
    using slots [of j k] slots [of k j] that apart_commute
    by (intro descriptor_other [of "gdt + of_nat (8 * j)" 8]) (auto simp: gdt_set_gate_other neq_iff)
  fix k :: nat assume k: "k < 10"
  let ?a = "gdt + of_nat (8 * k)"
  have "apart ?a 8 gdtl 6"
    using assms(1) k by (intro apart_shift [of gdt 80]) (simp_all add: apart_commute)
  then have "descriptor m' ?a = descriptor ?m2 ?a"
    unfolding m' by (intro descriptor_other [of gdtl 6]) (simp_all add: table_pointer_bytes apart_commute)
  moreover have "descriptor ?m0 ?a = 0"
  proof (rule descriptor_zero)
    fix x assume "in_range ?a 8 x"
    then have "in_range gdt 80 x" by (rule in_range_part) (use k in simp_all)
    then show "?m0 x = 0" by (simp add: filled_def)
  qed
  moreover have "descriptor ?m2 ?a = (if k = 2 then 0x00CF92000000FFFF else descriptor ?m1 ?a)"
    using other [of 2 k] k flat_descriptors(2) by auto
  moreover have "descriptor ?m1 ?a = (if k = 1 then 0x00CF9A000000FFFF else descriptor ?m0 ?a)"
    using other [of 1 k] k flat_descriptors(1) by auto
  ultimately show "descriptor m' ?a
      = (if k = 1 then 0x00CF9A000000FFFF else if k = 2 then 0x00CF92000000FFFF else 0)" by auto
next
  fix x assume x: "\<not> in_range gdt 80 x \<and> \<not> in_range gdtl 6 x"
  have "\<not> in_range (gdt + of_nat j) 8 x" if "j + 8 \<le> 80" for j
    using x in_range_part [of gdt j 8 x 80] that by auto
  from this [of 8] this [of 16] x show "m' x = m x"
    unfolding m'_def gdt_init_memory by (simp add: table_pointer_bytes gdt_set_gate_other filled_def)
next
  show "trace (snd (gdt_init gdt gdtl m s)) = trace s @ [Print ''Initializing GDT !\<newline>'' [],
        Lgdt 80 gdt, LoadSegment FS 0x10, LoadSegment GS 0x10, LoadSegment ES 0x10,
        LoadSegment DS 0x10, LoadSegment SS 0x10, LoadSegment CS 0x08]"
    by (simp add: gdt_init_def Let_def gdt_set_table_def gdt_flush_def table_pointer_reads
        cs_selector_def gdt_segment_t_def layout_eval)
qed

text \<open>C39. \<open>gdt_init\<close> fills the ten entries of the table with the null descriptor, a flat code
  and a flat data descriptor of 4 GB for ring 0, and seven null descriptors, writes the
  pointer with the table's address, and touches no other byte. The CPU is given that table
  with a limit of 80, one more than its last byte, then every segment register is loaded.\<close>

theorem gdt_init_flat:
  fixes gdt gdtl :: u32 and m :: mem and s :: "'a machine_scheme"
  assumes "apart gdtl 6 gdt 80"
  defines "m' \<equiv> fst (gdt_init gdt gdtl m s)"
  shows "(\<forall>k < 10. descriptor m' (gdt + of_nat (8 * k)) =
        (if k = 1 then 0x00CF9A000000FFFF else if k = 2 then 0x00CF92000000FFFF else 0))
    \<and> (\<forall>x. \<not> in_range gdt 80 x \<and> \<not> in_range gdtl 6 x \<longrightarrow> m' x = m x)
    \<and> trace (snd (gdt_init gdt gdtl m s)) = trace s @ [Print ''Initializing GDT !\<newline>'' [],
        Lgdt 80 gdt, LoadSegment FS 0x10, LoadSegment GS 0x10, LoadSegment ES 0x10,
        LoadSegment DS 0x10, LoadSegment SS 0x10, LoadSegment CS 0x08]"
  using assms(1) unfolding m'_def by (rule gdt_init_table)

lemma gdt_init_flat_witness:
  "descriptor (fst (gdt_init 0x1000 0x2000 (\<lambda>x. 0xFF) (machine.make quiet []))) 0x1008 = 0x00CF9A000000FFFF"
proof -
  have "apart 0x2000 6 0x1000 80" by (simp add: apart_def)
  then have "\<forall>k < 10. descriptor (fst (gdt_init 0x1000 0x2000 (\<lambda>x. 0xFF) (machine.make quiet [])))
      (0x1000 + of_nat (8 * k)) = (if k = 1 then 0x00CF9A000000FFFF
        else if k = 2 then 0x00CF92000000FFFF else 0)"
    using gdt_init_flat [of "0x2000" "0x1000" "\<lambda>x. 0xFF" "machine.make quiet []"] by blast
  from this [rule_format, of 1] show ?thesis by simp
qed

text \<open>\<open>gdt_flush\<close> loads the data segment registers in the order the code gives and CS last,
  with the selector it was asked for except that the table indicator (bit 2) is cleared: a
  selector into a local table is loaded as one into the global table.\<close>

theorem gdt_flush_selectors:
  "trace (gdt_flush cs ss ds es fs gs s) = trace s @ [LoadSegment FS fs, LoadSegment GS gs,
     LoadSegment ES es, LoadSegment DS ds, LoadSegment SS ss, LoadSegment CS (unset_bit 2 cs)]"
proof -
  have "ucast (cs_selector cs) = unset_bit 2 cs"
  proof (rule bit_word_eqI)
    fix n assume "n < LENGTH(16)"
    then consider "n < 2" | "n = 2" | "3 \<le> n" "n < 16" by fastforce
    then show "bit (ucast (cs_selector cs) :: u16) n = bit (unset_bit 2 cs) n"
      by cases (auto simp: cs_selector_def get_field_eval gdt_segment_t_def bit_simps)
  qed
  then show ?thesis by (simp add: gdt_flush_def Let_def)
qed

section \<open>The base of a segment\<close>

lemma load32_parts:
  "get_bits 16 16 (load32 m a) = ucast (load16 m (a + 2))"
  "get_bits 0 8 (load32 m a) = ucast (m a)" "get_bits 24 8 (load32 m a) = ucast (m (a + 3))"
  unfolding get_bits_def load32_def load16_def
  by (rule bit_word_eqI; auto simp: bit_simps add.assoc dest: bit_imp_le_length)+

lemma gdt_entry_base_descriptor: "gdt_entry_base e m = descriptor_base (descriptor m e)"
proof -
  have c: "ucast b AND (0xFF :: u32) = ucast b" for b :: u8
    unfolding gdt_masks by (rule bit_word_eqI) (auto simp: bit_simps dest: bit_imp_le_length)
  have h: "ucast b AND (0xFFFF :: u32) = ucast b" for b :: u16
    unfolding gdt_masks by (rule bit_word_eqI) (auto simp: bit_simps dest: bit_imp_le_length)
  show ?thesis
    unfolding descriptor_def descriptor_fields load32_parts gdt_entry_base_def c h
    by (simp add: add.assoc)
qed

text \<open>\<open>gdt_get_segment_vma\<close> returns the base in the descriptor its selector points to, moved
  into the kernel's half: in particular the base a descriptor was packed with. The table
  pointer that \<open>sgdt\<close> stores overwrites six bytes at an address the code never chose; the
  result is right when those lie apart from the descriptor.\<close>

theorem gdt_segment_base:
  fixes p :: u32 and seg :: u16 and m :: mem and s :: "'a machine_scheme"
  assumes "gdtr (trace s) = (limit, table)"
  defines "a \<equiv> table + 8 * ucast (get_field gdt_segment_t ''index'' seg)"
  assumes "apart p 6 a 8"
  shows "fst (gdt_get_segment_vma p seg m s) = descriptor_base (descriptor m a) + KERNEL_CONFIG_VMA
    \<and> (\<forall>x. \<not> in_range p 6 x \<longrightarrow> fst (snd (gdt_get_segment_vma p seg m s)) x = m x)
    \<and> (m = gdt_set_gate a l b t f m0 \<and> (t OR f) AND 0xFF0F00FF = 0 \<longrightarrow>
        fst (gdt_get_segment_vma p seg m s) = b + KERNEL_CONFIG_VMA)"
proof -
  let ?m = "sgdt p m s"
  have m: "?m = store32 (store16 m p limit) (p + 2) table" by (simp add: sgdt_def assms(1))
  have "load32 ?m (p + 2) = table" by (simp only: m table_pointer_reads)
  moreover have "descriptor ?m a = descriptor m a"
    using assms(3) by (intro descriptor_other [of p 6]) (simp_all add: m table_pointer_bytes)
  ultimately have base: "fst (gdt_get_segment_vma p seg m s)
      = descriptor_base (descriptor m a) + KERNEL_CONFIG_VMA"
    by (simp add: gdt_get_segment_vma_def Let_def gdt_entry_base_descriptor a_def)
  have rest: "fst (snd (gdt_get_segment_vma p seg m s)) = ?m"
    by (simp add: gdt_get_segment_vma_def Let_def)
  show ?thesis
  proof (intro conjI allI impI)
    fix x assume "\<not> in_range p 6 x"
    then show "fst (snd (gdt_get_segment_vma p seg m s)) x = m x"
      by (simp add: rest m table_pointer_bytes)
  next
    assume h: "m = gdt_set_gate a l b t f m0 \<and> (t OR f) AND 0xFF0F00FF = 0"
    then have at: "(t OR f) AND 0xFF0F00FF = 0" by simp
    note low = gdt_low_fields [of l b] and high = gdt_high_fields [OF at, of l b]
    have "descriptor_base (descriptor m a) = b"
      by (simp only: h descriptor_set_gate descriptor_fields low high word_parts)
    then show "fst (gdt_get_segment_vma p seg m s) = b + KERNEL_CONFIG_VMA" by (simp add: base)
  qed (rule base)
qed

lemma gdt_segment_base_witness:
  fixes m :: mem and s :: machine
  defines "m \<equiv> gdt_set_gate 0x1010 0xFFFFF 0x400000 GDT_TYPE_DATA_RW GDT_FLAG_P (\<lambda>x. 0)"
    and "s \<equiv> machine.make quiet [Lgdt 80 0x1000]"
  shows "fst (gdt_get_segment_vma 0x3000 0x10 m s) = 0xC0400000"
proof -
  have r: "gdtr (trace s) = (80, 0x1000)" by (simp add: s_def machine.make_def gdtr_def)
  have i: "(0x1000 :: u32) + 8 * ucast (get_field gdt_segment_t ''index'' (0x10 :: u16)) = 0x1010"
    by (simp add: gdt_segment_t_def layout_eval)
  have "apart 0x3000 6 (0x1010 :: u32) 8" by (simp add: apart_def)
  then have "apart 0x3000 6 (0x1000 + 8 * ucast (get_field gdt_segment_t ''index'' (0x10 :: u16))) 8"
    by (simp only: i)
  from gdt_segment_base [OF r this, of m "0xFFFFF" "0x400000" GDT_TYPE_DATA_RW GDT_FLAG_P "\<lambda>x. 0"]
  have "m = gdt_set_gate 0x1010 0xFFFFF 0x400000 GDT_TYPE_DATA_RW GDT_FLAG_P (\<lambda>x. 0)
      \<and> (GDT_TYPE_DATA_RW OR GDT_FLAG_P) AND 0xFF0F00FF = 0 \<longrightarrow>
    fst (gdt_get_segment_vma 0x3000 0x10 m s) = 0x400000 + KERNEL_CONFIG_VMA"
    unfolding i by blast
  then show ?thesis by (simp add: m_def gdt_words)
qed

end
