(* ===== verification/Interleaving.thy ===== *)
theory Interleaving
  imports Kmain
begin

text \<open>
  Interrupts during the initialisation. From \<open>sti\<close> on, the calls of \<open>kmain\<close> (ksrc/_kmain.c) and the
  interrupts of the devices alternate: between two calls, and in the idle loop, any number of
  interrupts may be served, each by the handler its slot has at that moment. An interrupt in the
  middle of a call is not modelled.
\<close>

unbundle bit_operations_syntax

section \<open>The calls as steps\<close>

text \<open>The next call of \<open>kmain\<close> after \<open>sti\<close>.\<close>

datatype stage = Lapic_timer_config | Acpi_init | I8042_init | Kbd_init | Mouse_init | Arguments | Vendor | Idle

type_synonym 'a config = "stage \<times> mem \<times> 'a acpi_scheme"

fun advance :: "image \<Rightarrow> u32 \<Rightarrow> u32 \<Rightarrow> 'a config \<Rightarrow> 'a config option" where
  "advance k magic mbi (Lapic_timer_config, m, s) = map_option (\<lambda>s. (Acpi_init, m, s)) (lapic_timer_config s)"
| "advance k magic mbi (Acpi_init, m, s) = map_option (Pair I8042_init)
     (acpi_init (page_directory k) (page_tables k) (rsd_ptr_literal k) (facp_literal k) m s)"
| "advance k magic mbi (I8042_init, m, s) = Some (Kbd_init, m, i8042_init s)"
| "advance k magic mbi (Kbd_init, m, s) = Some (Mouse_init, m, kbd_init s)"
| "advance k magic mbi (Mouse_init, m, s) = Some (Arguments, m, mouse_init s)"
| "advance k magic mbi (Arguments, m, s) = map_option (\<lambda>s. (Vendor, m, s)) (kmain_arguments k magic mbi m s)"
| "advance k magic mbi (Vendor, m, s) = map_option (\<lambda>s. (Idle, m, s)) (kmain_vendor k m s)"
| "advance k magic mbi (Idle, m, s) = Some (Idle, m, emit Hlt s)"

text \<open>The calls without interrupts.\<close>

fun advances :: "nat \<Rightarrow> image \<Rightarrow> u32 \<Rightarrow> u32 \<Rightarrow> 'a config \<Rightarrow> 'a config option" where
  "advances 0 k magic mbi c = Some c"
| "advances (Suc n) k magic mbi c = Option.bind (advance k magic mbi c) (advances n k magic mbi)"

text \<open>The calls with interrupts; the list has the vectors served.\<close>

inductive executes :: "image \<Rightarrow> u32 \<Rightarrow> u32 \<Rightarrow> 'a config \<Rightarrow> u32 list \<Rightarrow> 'a config \<Rightarrow> bool" for k magic mbi c where
  begins: "executes k magic mbi c [] c"
| calls: "executes k magic mbi c vs c' \<Longrightarrow> advance k magic mbi c' = Some c'' \<Longrightarrow> executes k magic mbi c vs c''"
| interrupted: "executes k magic mbi c vs (g, m, s) \<Longrightarrow> 32 \<le> v \<Longrightarrow> v < 255
    \<Longrightarrow> dispatch (page_directory k - KERNEL_CONFIG_VMA) m v r e f s = Returned t
    \<Longrightarrow> executes k magic mbi c (vs @ [v]) (g, m, t)"

lemma kmain_advances:
  "kmain k magic mbi m s = Option.bind (kmain_prepare s) (\<lambda>u.
     map_option snd (advances 7 k magic mbi (Lapic_timer_config, m, u)))"
  by (simp add: kmain_def kmain_devices_def eval_nat_numeral Let_def split: bind_split option.split prod.split)

section \<open>Calls write no end of interrupt\<close>

text \<open>A part of a call acknowledges nothing and keeps the base of the local APIC.\<close>

definition silent :: "'a lapic_scheme \<Rightarrow> 'a lapic_scheme \<Rightarrow> bool" where
  "silent s t \<longleftrightarrow> eois 0xFEE00000 (trace t) = eois 0xFEE00000 (trace s) \<and> lapic_base t = lapic_base s"

lemma silent_refl [simp]: "silent s s"
  by (simp add: silent_def)

lemma silent_trans: "silent s t \<Longrightarrow> silent t u \<Longrightarrow> silent s u"
  by (simp add: silent_def)

lemma silent_port: "port_step s t \<Longrightarrow> silent s t"
  by (simp add: silent_def port_step_eois port_step_lapic)

lemma eois_other: "(\<And>v. e \<noteq> MmioWrite 0xFEE000B0 v) \<Longrightarrow> eois 0xFEE00000 [e] = 0"
  by (auto simp: eois_def)

lemma silent_emit: "silent s t \<Longrightarrow> (\<And>v. e \<noteq> MmioWrite 0xFEE000B0 v) \<Longrightarrow> silent s (emit e t)"
  by (simp add: silent_def eois_other)

lemma silent_ops:
  "silent s t \<Longrightarrow> silent s (print f as t)"
  "silent s t \<Longrightarrow> a \<noteq> 0xFEE000B0 \<Longrightarrow> silent s (mmio_write a v t)"
  "silent s t \<Longrightarrow> silent s (snd (mmio_read a t))"
  "silent s t \<Longrightarrow> silent s (io_port_outw p h t)"
  "silent s t \<Longrightarrow> silent s (snd (io_port_inw p t))"
  "silent s t \<Longrightarrow> silent s (snd (io_port_indw p t))"
  by (simp_all add: machine_defs Let_def silent_emit)

lemma silent_ioapic:
  "silent s t \<Longrightarrow> silent s (idt_mask_interrupt v t)" "silent s t \<Longrightarrow> silent s (idt_unmask_interrupt v t)"
  by (simp_all add: idt_mask_interrupt_def idt_unmask_interrupt_def ioapic_read_def ioapic_write_def Let_def
      split_beta silent_ops)

lemma silent_handler:
  fixes s t :: "'a idt_scheme"
  shows "silent s (idt_set_interrupt_handler v h t) = silent s t"
  by (simp add: silent_def idt_set_interrupt_handler_def)

lemma silent_finish:
  fixes s :: "'a idt_scheme"
  assumes "port_step (idt_set_interrupt_handler v h (idt_mask_interrupt v s)) u"
  shows "silent s (finish msg v (kbd_wait 0xFA 512 u))"
proof -
  have "silent s (idt_set_interrupt_handler v h (idt_mask_interrupt v s))"
    by (simp add: silent_handler silent_ioapic)
  from silent_trans [OF this silent_port [OF port_step_trans [OF assms port_step_wait [OF port_step_refl]]]]
  show ?thesis by (simp add: finish_def silent_ioapic silent_ops del: kbd_wait.simps)
qed

lemma silent_inputs:
  fixes s :: "'a idt_scheme"
  shows "silent s (kbd_init s)" "silent s (mouse_init s)"
  using inits_split [of s] silent_finish by (metis (no_types))+

lemma silent_i8042:
  "silent s t \<Longrightarrow> silent s (i8042_command c t)" "silent s t \<Longrightarrow> silent s (i8042_command_set c b t)"
  "silent s t \<Longrightarrow> silent s (snd (i8042_command_get c t))" "silent s t \<Longrightarrow> silent s (snd (i8042_read t))"
  by (erule silent_trans, rule silent_port, simp add: port_steps)+

lemma silent_tests:
  fixes s :: "'a idt_scheme"
  shows "silent s (snd (i8042_keyboard_test cb s))" "silent s (snd (i8042_mouse_test dual cb s))"
  by (simp_all add: i8042_keyboard_test_def i8042_mouse_test_def Let_def split_beta silent_ops silent_i8042 silent_handler)

lemma silent_i8042_init:
  fixes s :: "'a idt_scheme"
  shows "silent s (i8042_init s)"
proof -
  obtain passed dual cb u where self: "i8042_self_test s = (passed, dual, cb, u)" by (rule prod_cases4)
  let ?k = "i8042_keyboard_test cb u" and ?m = "i8042_mouse_test dual (fst (i8042_keyboard_test cb u)) (snd (i8042_keyboard_test cb u))"
  have "i8042_init s = (if passed then i8042_enable (fst ?m) (snd ?m) else u)"
    by (simp add: i8042_init_def self split_beta)
  moreover have "silent s u" by (rule silent_port [OF self_test_result(1) [OF self]])
  moreover have "silent u (i8042_enable (fst ?m) (snd ?m))"
    using silent_tests silent_trans silent_port [OF enable_port] by blast
  ultimately show ?thesis using silent_trans by auto
qed

lemma silent_pit:
  fixes s :: "'a lapic_scheme"
  assumes "pit_wait_ms n s = Some t" shows "silent s t"
proof -
  obtain vs v where "trace t = trace (pit_load n s) @ concat (map pit_events vs) @ pit_events v"
    "hw t = hw (pit_load n s)" "machine.more t = machine.more (pit_load n s)"
    using pit.loop_trace assms unfolding pit_wait_ms_def by blast
  then have "port_step s t"
    by (auto simp: port_step_def pit_events_def list_all_iff port_event_def)
  then show ?thesis by (rule silent_port)
qed

lemma silent_lapic:
  assumes "silent s t" "lapic_base s = 0xFEE00000"
  shows "reg \<in> {LAPIC_LVTTR, LAPIC_ICR, LAPIC_DCR} \<Longrightarrow> silent s (lapic_write reg v t)"
    "silent s (snd (lapic_read reg t))"
proof -
  have "lapic_base t = 0xFEE00000" using assms by (simp add: silent_def)
  then show "reg \<in> {LAPIC_LVTTR, LAPIC_ICR, LAPIC_DCR} \<Longrightarrow> silent s (lapic_write reg v t)"
    "silent s (snd (lapic_read reg t))"
    using assms(1) by (auto simp: lapic_write_def lapic_read_def intro: silent_ops)
qed

lemma silent_ticks:
  "silent s (t\<lparr>lapic_ticks_per_ms := x\<rparr>) = silent s t" "silent s (t\<lparr>lapic_ticks_per_us := x\<rparr>) = silent s t"
  by (simp_all add: silent_def)

lemma silent_timer:
  assumes "lapic_timer_config s = Some t" and b: "lapic_base s = 0xFEE00000" shows "silent s t"
proof -
  obtain u where u: "lapic_timer_calibrate (print ''LAPIC configure:\<newline>'' [] s) = Some u"
    using assms(1) by (auto simp: lapic_timer_config_def)
  let ?w = "lapic_write LAPIC_ICR 0xFFFFFFFF (lapic_write LAPIC_LVTTR (LAPIC_LVTTR_ONESHOT OR LAPIC_LVTTR_MASK)
    (lapic_write LAPIC_DCR LAPIC_DCR_DIV16 (print ''LAPIC configure:\<newline>'' [] s)))"
  obtain w where w: "pit_wait_ms 10 ?w = Some w" using u by (auto simp: lapic_timer_calibrate_def Let_def)
  have "silent s ?w" by (simp add: silent_lapic b silent_ops)
  from silent_trans [OF this silent_pit [OF w]] have sw: "silent s w" .
  then have "silent s u"
    using u w by (auto simp: lapic_timer_calibrate_def Let_def split_beta silent_lapic b silent_ops silent_ticks)
  then show ?thesis
    using assms(1) u by (auto simp: lapic_timer_config_def Let_def split_beta silent_lapic b)
qed

lemma silent_paging:
  fixes s t :: "'a lapic_scheme"
  assumes "silent s t" shows "silent s (snd (paging_map_4kb d tb p l fl m t))"
  using assms
  by (simp add: paging_map_4kb_def paging_get_page_table_def paging_flush_ptbl_entry_def Let_def split_beta
      silent_emit silent_ops)

lemma silent_button: "init_acpi_power_button D m h s = Some t \<Longrightarrow> silent s t"
proof -
  have fadt: "silent s (u\<lparr>global_fadt := x\<rparr>) = silent s u" for s u :: "'a acpi_scheme" and x
    by (simp add: silent_def)
  assume "init_acpi_power_button D m h s = Some t"
  then show "silent s t"
    by (auto simp: init_acpi_power_button_def Let_def split_beta fadt silent_ops silent_handler
        split: bind_splits if_splits)
qed

lemma silent_tables: "acpi_tables D m facp n p s = Some t \<Longrightarrow> silent s t"
proof (induction n arbitrary: p s)
  case (Suc n)
  then obtain u where "acpi_tables D m facp n (p + 4) u = Some t" "u = s \<or> (\<exists>h. init_acpi_power_button D m h s = Some u)"
    by (auto simp: Let_def split: bind_splits if_splits)
  then show ?case using Suc.IH silent_button silent_trans by blast
qed simp

lemma silent_acpi:
  fixes s :: "'a acpi_scheme"
  assumes "acpi_init pgdir pgtbls lit facp m s = Some (m', t)"
  shows "silent s t"
proof -
  have pg: "pgdir = (pgdir - KERNEL_CONFIG_VMA) + KERNEL_CONFIG_VMA" by simp
  obtain rsdt n p where t: "acpi_tables (pgdir - KERNEL_CONFIG_VMA) m' facp n p (snd (rsdt_mapped pgdir pgtbls rsdt m
      (print ''Initializing ACPI !\<newline>'' [] s))) = Some t"
    using init_tables [of "pgdir - KERNEL_CONFIG_VMA" pgtbls lit facp m s m' t] assms pg by metis
  have "silent s (snd (rsdt_mapped pgdir pgtbls rsdt m (print ''Initializing ACPI !\<newline>'' [] s)))"
    by (simp add: rsdt_mapped_def Let_def split_beta silent_paging silent_ops)
  then show ?thesis using silent_tables [OF t] silent_trans by blast
qed

lemma silent_vendor:
  fixes s t :: "'a lapic_scheme"
  shows "kmain_vendor k m s = Some t \<Longrightarrow> silent s t"
  by (auto simp: kmain_vendor_def cpu_cpuid_manufacturer_def cpu_cpuid_def Let_def split_beta silent_emit silent_ops)

section \<open>The invariant\<close>

lemma serviced_callbacks:
  "serviced s \<Longrightarrow> (\<And>i. idt_gate_callback t i = idt_gate_callback s i \<or> is_interrupt_handler (idt_gate_callback t i))
     \<Longrightarrow> serviced t"
  unfolding serviced_def by metis

lemma i8042_init_callbacks:
  fixes s :: "'a idt_scheme"
  shows "idt_gate_callback (i8042_init s) i = idt_gate_callback s i \<or> idt_gate_callback (i8042_init s) i = I8042_irq_handler"
proof (cases "fst (i8042_self_test s)")
  case True
  then show ?thesis using init_handlers [of s] by (auto simp: split_beta)
next
  case False
  then have "port_step s (i8042_init s)" using init_handlers [of s] by (auto simp: split_beta)
  from port_step_idt(1) [OF this] show ?thesis by simp
qed

lemma advance_invariant:
  fixes s t :: "'a acpi_scheme"
  assumes "advance k magic mbi (g, m, s) = Some (g', m', t)" "serviced s" "lapic_base s = 0xFEE00000"
  shows "serviced t \<and> silent s t"
proof (cases g)
  case Lapic_timer_config
  then have t: "lapic_timer_config s = Some t" using assms(1) by auto
  show ?thesis using silent_timer [OF t assms(3)] timer_config_callbacks [OF t] assms(2) by (simp add: serviced_def)
next
  case Acpi_init
  then have t: "acpi_init (page_directory k) (page_tables k) (rsd_ptr_literal k) (facp_literal k) m s = Some (m', t)"
    using assms(1) by auto
  moreover have "page_directory k = page_directory k - KERNEL_CONFIG_VMA + KERNEL_CONFIG_VMA" by simp
  ultimately have "power_slots s t" using init_slots by metis
  then have "serviced t"
    using assms(2) by (elim serviced_callbacks) (auto simp: power_slots_def is_interrupt_handler_def)
  then show ?thesis using silent_acpi [OF t] by blast
next
  case I8042_init
  then have t: "t = i8042_init s" using assms(1) by simp
  have "idt_gate_callback t i = idt_gate_callback s i \<or> is_interrupt_handler (idt_gate_callback t i)" for i
    unfolding t using i8042_init_callbacks [of s i] by (rule disj_forward) (simp_all add: is_interrupt_handler_def)
  then have "serviced t" using serviced_callbacks [OF assms(2)] by blast
  then show ?thesis using silent_i8042_init [of s] by (simp add: t)
next
  case Kbd_init
  then have t: "t = kbd_init s" using assms(1) by simp
  have "serviced t"
    using assms(2) by (elim serviced_callbacks) (auto simp: t inits_callbacks is_interrupt_handler_def)
  then show ?thesis using silent_inputs(1) [of s] by (simp add: t)
next
  case Mouse_init
  then have t: "t = mouse_init s" using assms(1) by simp
  have "serviced t"
    using assms(2) by (elim serviced_callbacks) (auto simp: t inits_callbacks is_interrupt_handler_def)
  then show ?thesis using silent_inputs(2) [of s] by (simp add: t)
next
  case Arguments
  then have step: "port_step s t" using assms(1) arguments_port by auto
  show ?thesis using silent_port [OF step] port_step_idt(1) [OF step] assms(2) by (simp add: serviced_def)
next
  case Vendor
  then have t: "kmain_vendor k m s = Some t" using assms(1) by auto
  show ?thesis using silent_vendor [OF t] callback_more [OF vendor_more [OF t]] assms(2) by (simp add: serviced_def)
next
  case Idle
  then show ?thesis using assms by (auto simp: serviced_def silent_emit)
qed

lemma executes_invariant:
  fixes s :: "'a acpi_scheme"
  assumes "executes k magic mbi (g, m, s) vs c" "serviced s" "lapic_base s = 0xFEE00000"
  shows "case c of (g', m', t) \<Rightarrow> serviced t \<and> lapic_base t = 0xFEE00000
    \<and> eois 0xFEE00000 (trace t) = length vs + eois 0xFEE00000 (trace s)"
  using assms
proof (induction rule: executes.induct)
  case (calls vs c' c'')
  obtain g1 m1 u g2 m2 t where c: "c' = (g1, m1, u)" "c'' = (g2, m2, t)" by (cases c'; cases c'') auto
  then have "serviced u" "lapic_base u = 0xFEE00000" "advance k magic mbi (g1, m1, u) = Some (g2, m2, t)"
    using calls by auto
  from advance_invariant [OF this(3,1,2)] show ?case using calls c by (auto simp: silent_def)
next
  case (interrupted vs g m t v r e f u)
  then have "is_interrupt_handler (idt_gate_callback t (unat v))" using servicedD by auto
  from dispatch_served [OF interrupted.hyps(4) this] interrupted show ?case
    by (auto simp: served_def serviced_def)
qed auto

text \<open>C3. From the moment interrupts are enabled, with interrupts between any two calls of \<open>kmain\<close>
  and in its idle loop: as many ends of interrupt have been written as interrupts were served, and
  whatever call is next, an interrupt of a device is served and acknowledged once, or it is the
  power button that stops the processor. Without interrupts the calls are those of \<open>kmain\<close>.\<close>

theorem interrupts_any_time:
  fixes s u t :: "'a acpi_scheme"
  assumes "kmain_prepare (idt_init addr h s) = Some u" "lapic_base u = 0xFEE00000"
    and "executes k magic mbi (Lapic_timer_config, m, u) vs (g, m', t)"
  shows "eois 0xFEE00000 (trace t) = length vs + eois 0xFEE00000 (trace u)
    \<and> (\<forall>v r e f. 32 \<le> v \<and> v < 255 \<longrightarrow>
        (\<exists>w. dispatch (page_directory k - KERNEL_CONFIG_VMA) m' v r e f t = Returned w \<and> served t w
          \<and> executes k magic mbi (Lapic_timer_config, m, u) (vs @ [v]) (g, m', w))
        \<or> idt_gate_callback t (unat v) = Acpi_interrupt_handler_power
          \<and> (\<exists>w. dispatch (page_directory k - KERNEL_CONFIG_VMA) m' v r e f t = Halted w))
    \<and> kmain k magic mbi m (idt_init addr h s)
      = map_option snd (advances 7 k magic mbi (Lapic_timer_config, m, u))"
proof -
  let ?D = "page_directory k - KERNEL_CONFIG_VMA"
  have "serviced (idt_init addr h s)" by (rule idt_init_serviced)
  then have "serviced u" by (simp add: serviced_def prepare_callbacks [OF assms(1)])
  note inv = executes_invariant [OF assms(3) this assms(2), simplified]
  have "(\<exists>w. dispatch ?D m' v r e f t = Returned w \<and> served t w
          \<and> executes k magic mbi (Lapic_timer_config, m, u) (vs @ [v]) (g, m', w))
        \<or> idt_gate_callback t (unat v) = Acpi_interrupt_handler_power \<and> (\<exists>w. dispatch ?D m' v r e f t = Halted w)"
    if v: "32 \<le> v" "v < 255" for v r e f
  proof -
    have h: "is_interrupt_handler (idt_gate_callback t (unat v))" using servicedD [OF _ v] inv by blast
    show ?thesis
    proof (cases "dispatch ?D m' v r e f t")
      case (Returned w)
      then show ?thesis using dispatch_served [OF Returned h] interrupted [OF assms(3) v Returned] by blast
    next
      case (Halted w)
      then show ?thesis using dispatch_halts [OF Halted h] by blast
    qed
  qed
  moreover have "kmain k magic mbi m (idt_init addr h s) = map_option snd (advances 7 k magic mbi (Lapic_timer_config, m, u))"
    by (simp add: kmain_advances assms(1) del: advances.simps)
  ultimately show ?thesis using inv by blast
qed

lemma interrupts_any_time_witness:
  "\<exists>u w. kmain_prepare (idt_init 0xC0020000 (\<lambda>i. 0xC0030000) example_machine) = Some u
     \<and> executes example_image 0 0 (Lapic_timer_config, tables, u) [40] (Lapic_timer_config, tables, w)
     \<and> eois 0xFEE00000 (trace w) = 1 + eois 0xFEE00000 (trace u)"
proof -
  let ?s = "idt_init 0xC0020000 (\<lambda>i. 0xC0030000) example_machine"
  have hw: "hw ?s = hw example_machine"
    by (simp add: idt_init_def Let_def idt_set_table_def idt_init_loop_facts)
  obtain u where u: "kmain_prepare ?s = Some u" using prepare_returns [of ?s] by (auto simp: hw)
  have base: "lapic_base u = 0xFEE00000"
    by (rule prepare_base [OF u, where hi = 0 and lo = "0xFEE00900"]) (simp_all add: hw)
  have "idt_gate_callback u 40 = Idt_interrupt_handler"
    by (simp add: prepare_callbacks [OF u] idt_init_callback)
  then obtain w where w: "dispatch 0x1000 tables 40 (idt_registers.make 0 0 0 0 0 0 0 0) 0 (idt_cpu_frame.make 0 8 0x202) u = Returned w"
    by (simp add: dispatch_def idt_interrupt_handler_def)
  have run: "executes example_image 0 0 (Lapic_timer_config, tables, u) ([] @ [40]) (Lapic_timer_config, tables, w)"
    by (rule interrupted [OF begins, where v = 40]) (use w in simp_all)
  from interrupts_any_time [OF u base this] show ?thesis using u run by auto
qed

end
