(* ===== verification/Entry.thy ===== *)
theory Entry
  imports Kmain Gdt Paging
begin

text \<open>
  The entry code, ksrc/_entry.s: from the state the boot loader leaves to the call of \<open>kmain\<close>. It
  puts a stack in place, saves the loader's two registers on it, enables paging with a directory
  that maps the first memory twice, calls \<open>gdt_init\<close> and \<open>idt_init\<close>, jumps into the higher half
  and calls \<open>paging_init\<close>.

  The processor is the registers that \<open>pusha\<close> saves, physical memory and the machine; pushes and
  pops go through the translation of the moment. What a callee pushes below the stack pointer it
  pops again, and that part of the stack is not modelled. A C function may change \<open>eax\<close>, \<open>ecx\<close>
  and \<open>edx\<close>: the values it leaves are an argument.
\<close>

unbundle bit_operations_syntax

section \<open>The processor\<close>

record boot =
  kernel_image :: image
  stack_top :: u32
  entry_page_directory :: u32
  gdt_table :: u32
  gdt_pointer :: u32
  idt_table :: u32
  stubs :: "nat \<Rightarrow> u32"
  kernel_end :: u32
  column_at :: u32
  row_at :: u32

type_synonym 'a cpu = "idt_registers \<times> mem \<times> 'a acpi_scheme"

text \<open>The value last moved into a control register, None when there was none.\<close>

definition loaded :: "nat \<Rightarrow> event list \<Rightarrow> u32 option" where
  "loaded n es = fold (\<lambda>e r. case e of MovCr k v \<Rightarrow> if k = n then Some v else r | _ \<Rightarrow> r) es None"

text \<open>The translation of linear addresses: the page walk once bit 31 of CR0 is set.\<close>

definition translate :: "mem \<Rightarrow> event list \<Rightarrow> u32 \<Rightarrow> u32 option" where
  "translate m es x = (case (loaded 0 es, loaded 3 es) of
     (Some cr0, Some cr3) \<Rightarrow> if bit cr0 31 then walk cr3 m x else Some x
   | _ \<Rightarrow> Some x)"

definition push :: "u32 \<Rightarrow> 'a cpu \<Rightarrow> 'a cpu option" where
  "push v c = (case c of (r, m, s) \<Rightarrow>
     map_option (\<lambda>a. (r\<lparr>esp := esp r - 4\<rparr>, store32 m a v, s)) (translate m (trace s) (esp r - 4)))"

definition pop :: "'a cpu \<Rightarrow> (u32 \<times> 'a cpu) option" where
  "pop c = (case c of (r, m, s) \<Rightarrow>
     map_option (\<lambda>a. (load32 m a, r\<lparr>esp := esp r + 4\<rparr>, m, s)) (translate m (trace s) (esp r)))"

text \<open>Return from a C function.\<close>

definition called :: "u32 \<times> u32 \<times> u32 \<Rightarrow> idt_registers \<Rightarrow> idt_registers" where
  "called scratch r = (case scratch of (a, c, d) \<Rightarrow> r\<lparr>eax := a, ecx := c, edx := d\<rparr>)"

text \<open>The kernel's half of the linear addresses, and the memory behind it.\<close>

definition upper :: "mem \<Rightarrow> mem" where
  "upper m x = m (x - KERNEL_CONFIG_VMA)"

definition lower :: "mem \<Rightarrow> mem" where
  "lower v x = v (x + KERNEL_CONFIG_VMA)"

section \<open>The code\<close>

definition entry_init_paging :: "u32 \<Rightarrow> 'a cpu \<Rightarrow> 'a cpu" where
  "entry_init_paging dir c = (case c of (r, m, s) \<Rightarrow>
     let s = emit (MovCr 3 (read_cr 3 s OR (dir - KERNEL_CONFIG_VMA))) s;
         s = emit (MovCr 4 (read_cr 4 s OR 0x10)) s;
         cr0 = read_cr 0 s OR 0x80000000
     in (r\<lparr>eax := cr0\<rparr>, m, emit (MovCr 0 cr0) s))"

definition entry_low :: "boot \<Rightarrow> u32 \<times> u32 \<times> u32 \<Rightarrow> 'a cpu \<Rightarrow> 'a cpu option" where
  "entry_low k scratch c = (case c of (r, m, s) \<Rightarrow> do {
     let r = r\<lparr>esp := stack_top k - KERNEL_CONFIG_VMA\<rparr>;
     (r, m, s) \<leftarrow> push (ebp r) (r, m, s);
     let r = r\<lparr>ebp := esp r\<rparr>;
     let r = r\<lparr>ebx := ebx r + KERNEL_CONFIG_VMA\<rparr>;
     (r, m, s) \<leftarrow> push (ebx r) (r, m, s);
     (r, m, s) \<leftarrow> push (eax r) (r, m, s);
     let (r, m, s) = entry_init_paging (entry_page_directory k) (r, m, s);
     let (v, s) = gdt_init (gdt_table k) (gdt_pointer k) (upper m) s;
     let m = lower v;
     let s = idt_init (idt_table k) (stubs k) s;
     let r = called scratch r;
     (v, r, m, s) \<leftarrow> pop (r, m, s);
     let r = r\<lparr>eax := v\<rparr>;
     (v, r, m, s) \<leftarrow> pop (r, m, s);
     let r = r\<lparr>ebx := v\<rparr>;
     Some (r, m, emit (LoadSegment CS 0x08) s) })"

definition entry_higher_half :: "boot \<Rightarrow> u32 \<times> u32 \<times> u32 \<Rightarrow> 'a cpu \<Rightarrow> 'a cpu option" where
  "entry_higher_half k scratch c = (case c of (r, m, s) \<Rightarrow> do {
     let r = r\<lparr>esp := esp r + KERNEL_CONFIG_VMA\<rparr>;
     (m, s) \<leftarrow> paging_init (page_directory (kernel_image k)) (page_tables (kernel_image k)) (kernel_end k) m s;
     let r = called scratch r;
     (r, m, s) \<leftarrow> push (ebx r) (r, m, s);
     push (eax r) (r, m, s) })"

text \<open>Argument \<open>n\<close> of the function that is called next.\<close>

definition argument :: "nat \<Rightarrow> 'a cpu \<Rightarrow> u32 option" where
  "argument n c = (case c of (r, m, s) \<Rightarrow>
     map_option (load32 m) (translate m (trace s) (esp r + 4 * of_nat n)))"

text \<open>The code up to the call of \<open>kmain\<close>, with its two arguments, memory and machine; and all of it.\<close>

definition calls_kmain :: "boot \<Rightarrow> u32 \<times> u32 \<times> u32 \<Rightarrow> u32 \<times> u32 \<times> u32 \<Rightarrow> 'a cpu \<Rightarrow> (u32 \<times> u32 \<times> mem \<times> 'a acpi_scheme) option" where
  "calls_kmain k scratch scratch' c = do {
     c \<leftarrow> entry_low k scratch c;
     (r, m, s) \<leftarrow> entry_higher_half k scratch' c;
     magic \<leftarrow> argument 0 (r, m, s);
     mbi \<leftarrow> argument 1 (r, m, s);
     Some (magic, mbi, m, s) }"

definition start :: "boot \<Rightarrow> u32 \<times> u32 \<times> u32 \<Rightarrow> u32 \<times> u32 \<times> u32 \<Rightarrow> 'a cpu \<Rightarrow> (mem \<times> 'a acpi_scheme) option" where
  "start k scratch scratch' c = do {
     (magic, mbi, m, s) \<leftarrow> calls_kmain k scratch scratch' c;
     kmain (kernel_image k) magic mbi m s }"

section \<open>Translation\<close>

lemma loaded_simps [simp]:
  "loaded n [] = None" "loaded n (es @ [MovCr k v]) = (if k = n then Some v else loaded n es)"
  by (simp_all add: loaded_def)

lemma loaded_other: "list_all (\<lambda>e. \<forall>k v. e \<noteq> MovCr k v) fs \<Longrightarrow> loaded n (es @ fs) = loaded n es"
proof (induction fs rule: rev_induct)
  case (snoc e fs)
  then show ?case by (cases e) (auto simp: loaded_def simp flip: append_assoc)
qed simp

lemma translate_other:
  "list_all (\<lambda>e. \<forall>k v. e \<noteq> MovCr k v) fs \<Longrightarrow> translate m (es @ fs) = translate m es"
  by (rule ext) (simp add: translate_def loaded_other)

lemma translate_unpaged: "loaded 0 es = None \<Longrightarrow> translate m es x = Some x"
  by (simp add: translate_def)

lemma translate_paged:
  "bit cr0 31 \<Longrightarrow> translate m (es @ [MovCr 3 d, MovCr 4 cr4, MovCr 0 cr0]) x = walk d m x"
  using loaded_simps(2) [of _ "es @ [MovCr 3 d, MovCr 4 cr4]" 0 cr0] loaded_simps(2) [of _ "es @ [MovCr 3 d]" 4 cr4]
  by (simp add: translate_def)

text \<open>The boot directory maps the first gigabyte twice and the rest below the kernel onto itself.\<close>

lemma entry_page:
  fixes x :: u32
  assumes "e = (push_bit 22 (drop_bit 22 x)) OR 0x87"
  shows "bit e 0" "bit e 7" "(e AND 0xFFC00000) OR (x AND 0x3FFFFF) = x"
proof -
  let ?p = "push_bit 22 (drop_bit 22 x)"
  have p: "?p AND 0xFFC00000 = ?p" unfolding paging_masks by (rule bit_word_eqI) (auto simp: bit_simps)
  have e: "e = (?p AND 0xFFC00000) OR 0x80 OR 7" unfolding p by (simp add: assms or.assoc)
  note frame_word(3,4,5) [of 7 ?p, folded e]
  then show "bit e 0" "bit e 7" by simp_all
  have "e AND 0xFFC00000 = ?p" using frame_word(3) [of 7 ?p, folded e] p by simp
  moreover have "?p OR (x AND 0x3FFFFF) = x" unfolding paging_masks by (rule bit_word_eqI) (auto simp: bit_simps)
  ultimately show "(e AND 0xFFC00000) OR (x AND 0x3FFFFF) = x" by simp
qed

lemma entry_pde_page:
  fixes x :: u32
  shows "x < KERNEL_CONFIG_VMA \<Longrightarrow> entry_pde (di x) = (push_bit 22 (drop_bit 22 x)) OR 0x87"
    and "KERNEL_CONFIG_VMA \<le> x \<Longrightarrow> entry_pde (di x) = (push_bit 22 (drop_bit 22 (x - KERNEL_CONFIG_VMA))) OR 0x87"
proof -
  have d: "di y = unat y div 0x400000" for y by (simp add: di_def unat_drop_bit_eq drop_bit_eq_div unat_div)
  have w: "of_nat (di y) * 0x400000 = push_bit 22 (drop_bit 22 y)" for y
    by (simp add: di_def push_bit_eq_mult mult.commute)
  show "entry_pde (di x) = (push_bit 22 (drop_bit 22 x)) OR 0x87" if "x < KERNEL_CONFIG_VMA"
  proof -
    have "di x < 768" using that unfolding d by (simp add: word_less_nat_alt div_less_iff_less_mult)
    then show ?thesis unfolding entry_pde_def by (simp add: w)
  qed
  assume x: "KERNEL_CONFIG_VMA \<le> x"
  then have "unat (x - KERNEL_CONFIG_VMA) = unat x - 0xC0000000" by (simp add: unat_sub word_le_nat_alt)
  moreover have "0xC0000000 \<le> unat x" using x by (simp add: word_le_nat_alt)
  then obtain n where "unat x = n + 0xC0000000" using le_Suc_ex [of "0xC0000000" "unat x"] by auto
  ultimately have "di x = 768 + di (x - KERNEL_CONFIG_VMA)" unfolding d by simp
  then show "entry_pde (di x) = (push_bit 22 (drop_bit 22 (x - KERNEL_CONFIG_VMA))) OR 0x87"
    unfolding entry_pde_def by (simp add: w)
qed


text \<open>A directory in memory that holds the entries of the boot code.\<close>

lemma entry_walk:
  assumes "aligned E" "\<And>i. i < 1024 \<Longrightarrow> pde E m i = entry_pde i"
  shows "walk E m x = Some (if x < KERNEL_CONFIG_VMA then x else x - KERNEL_CONFIG_VMA)"
proof -
  have "E AND 0xFFFFF000 = E" by (rule aligned_frame [OF assms(1)])
  then have pde: "load32 m ((E AND 0xFFFFF000) + 4 * drop_bit 22 x) = entry_pde (di x)"
    using assms(2) [OF di_less, of x] by (simp add: pde_def index_words)
  let ?y = "if x < KERNEL_CONFIG_VMA then x else x - KERNEL_CONFIG_VMA"
  have "entry_pde (di x) = (push_bit 22 (drop_bit 22 ?y)) OR 0x87"
    using entry_pde_page [of x] by (simp add: not_less)
  note page = entry_page [OF this]
  have "x AND 0x3FFFFF = ?y AND 0x3FFFFF"
  proof -
    have "take_bit 22 (z + KERNEL_CONFIG_VMA) = take_bit 22 z" for z :: u32
    proof -
      have "(unat z + 0xC0000000) mod 0x400000 = unat z mod 0x400000"
        using mod_mult_self2 [of "unat z" "0x400000" 768] by simp
      then show ?thesis
        by (simp add: word_unat_eq_iff unsigned_take_bit_eq take_bit_eq_mod unat_word_ariths mod_mod_cancel)
    qed
    from this [of "x - KERNEL_CONFIG_VMA"] show ?thesis
      unfolding paging_masks by (simp flip: take_bit_eq_mask)
  qed
  then show ?thesis unfolding walk_def by (simp only: pde Let_def page if_True not_True_eq_False if_False)
qed


section \<open>What the C functions leave alone\<close>

text \<open>Stores outside the directory and the tables keep the translation.\<close>

lemma directory_kept:
  assumes "placed D T" "tables_ok D T m"
    and "\<And>x. in_range D 4096 x \<or> in_range T 40960 x \<Longrightarrow> m' x = m x"
  shows "walk D m' x = walk D m x" "tables_ok D T m'" "i < 1024 \<Longrightarrow> pde D m' i = pde D m i"
    "used_tables T m' = used_tables T m" "apic_table D T m' = apic_table D T m"
proof -
  show pdes: "pde D m' i = pde D m i" if "i < 1024" for i
    unfolding pde_def using that
    by (intro quad.ld_cong assms(3)) (auto simp del: of_nat_mult dest!: in_range_part [where k = 4096])
  have ptes: "pte T m' t j = pte T m t j" if "t < 10" "j < 1024" for t j
    unfolding pte_def pte_index using that
    by (intro quad.ld_cong assms(3)) (auto simp del: of_nat_mult of_nat_add dest!: in_range_part [where k = 40960])
  show "walk D m' x = walk D m x"
    by (rule walk_keeps [OF assms(1,2)]) (simp_all add: pdes ptes di_less ti_less)
  have own: "owns D T m' i t = owns D T m i t" if "i < 1024" for i t
    using that by (simp add: owns_def pdes)
  have used: "in_use T m' t = in_use T m t" if "t < 10" for t
    using that by (auto simp: in_use_def ptes)
  show "tables_ok D T m'" using assms(2) by (simp add: tables_ok_def pdes own used cong: conj_cong)
  show used': "used_tables T m' = used_tables T m" using used by (auto simp: used_tables_def)
  show "apic_table D T m' = apic_table D T m" by (simp add: apic_table_def used' own)
qed

text \<open>\<open>paging_init\<close>, up to the moves into the control registers, writes the directory and the
  tables only, prints, and flushes pages.\<close>

definition paging_event :: "event \<Rightarrow> bool" where
  "paging_event e = (case e of Print f as \<Rightarrow> True | Invlpg a \<Rightarrow> True | _ \<Rightarrow> False)"

definition paging_step :: "u32 \<Rightarrow> u32 \<Rightarrow> mem \<times> 'a machine_scheme \<Rightarrow> mem \<times> 'a machine_scheme \<Rightarrow> bool" where
  "paging_step D T c c' \<longleftrightarrow> (\<forall>x. \<not> in_range D 4096 x \<and> \<not> in_range T 40960 x \<longrightarrow> fst c' x = fst c x)
     \<and> hw (snd c') = hw (snd c) \<and> machine.more (snd c') = machine.more (snd c)
     \<and> (\<exists>es. trace (snd c') = trace (snd c) @ es \<and> list_all paging_event es)"

lemma paging_step_refl [simp]: "paging_step D T c c"
  by (simp add: paging_step_def)

lemma paging_step_trans:
  assumes "paging_step D T c c'" "paging_step D T c' c''" shows "paging_step D T c c''"
proof -
  obtain es where es: "trace (snd c') = trace (snd c) @ es" "list_all paging_event es"
    using assms(1) by (auto simp: paging_step_def)
  obtain fs where fs: "trace (snd c'') = trace (snd c') @ fs" "list_all paging_event fs"
    using assms(2) by (auto simp: paging_step_def)
  have "trace (snd c'') = trace (snd c) @ (es @ fs) \<and> list_all paging_event (es @ fs)" using es fs by simp
  then show ?thesis using assms unfolding paging_step_def by metis
qed

lemma paging_step_event: "paging_event e \<Longrightarrow> paging_step D T (m, s) (m, emit e s)"
  by (simp add: paging_step_def)

lemma paging_step_memory:
  "(\<And>x. \<not> in_range D 4096 x \<Longrightarrow> \<not> in_range T 40960 x \<Longrightarrow> m' x = m x) \<Longrightarrow> paging_step D T (m, s) (m', s)"
  by (simp add: paging_step_def)

text \<open>The stores lie in the directory and the tables.\<close>

lemma directory_store:
  "i < 1024 \<Longrightarrow> paging_step D T (m, s) (store32 m (D + of_nat (4 * i)) v, s)"
  by (rule paging_step_memory, rule quad.st_other)
     (auto simp del: of_nat_mult dest!: in_range_part [where k = 4096])

lemma table_store:
  "t < 10 \<Longrightarrow> j < 1024 \<Longrightarrow> paging_step D T (m, s) (store32 m (T + of_nat (4096 * t + 4 * j)) v, s)"
  unfolding pte_index
  by (rule paging_step_memory, rule quad.st_other)
     (auto simp del: of_nat_mult of_nat_add dest!: in_range_part [where k = 40960])

lemma map_4mb_step:
  "paging_step D T (m, s) (paging_map_4mb (D + KERNEL_CONFIG_VMA) p y f m s)"
  unfolding paging_map_4mb_def Let_def kstore_linear index_words paging_flush_ptbl_entry_def
  by (rule paging_step_trans [OF directory_store [OF di_less] paging_step_event]) (simp add: paging_event_def)

lemma paging_step_parts:
  "paging_step D T (m, s) (m', s) \<Longrightarrow> paging_step D T (m, s) (m, s') \<Longrightarrow> paging_step D T (m, s) (m', s')"
  by (simp add: paging_step_def)

lemma map_4kb_step:
  assumes "placed D T" "tables_ok D T m"
    and free: "if bit (pde D m (di y)) 0 then \<not> bit (pde D m (di y)) 7 else \<exists>t < 10. \<not> in_use T m t"
  shows "paging_step D T (m, s) (paging_map_4kb (D + KERNEL_CONFIG_VMA) (T + KERNEL_CONFIG_VMA) p y f m s)"
proof -
  let ?r = "paging_map_4kb (D + KERNEL_CONFIG_VMA) (T + KERNEL_CONFIG_VMA) p y f m s"
  have "paging_step D T (m, s) (m, snd ?r)"
    by (auto simp: paging_step_def paging_map_4kb_def paging_get_page_table_def paging_flush_ptbl_entry_def
        print_def paging_event_def Let_def)
  moreover have "paging_step D T (m, s) (fst ?r, s)"
  proof (cases "bit (pde D m (di y)) 0")
    case True
    then obtain t where "t < 10" "owns D T m (di y) t" using assms(2) free di_less by (auto elim: tables_okD)
    then show ?thesis unfolding map_4kb_present [OF \<open>owns D T m (di y) t\<close>] by (simp add: table_store ti_less del: of_nat_add)
  next
    case False
    obtain t where t: "t < 10" "free_table m (T + KERNEL_CONFIG_VMA) 0 = T + of_nat (4096 * t)"
      using free_table_from [of 0 T m] free False by auto
    have sum: "T + of_nat (4096 * t) + of_nat (4 * ti y) = T + of_nat (4096 * t + 4 * ti y)" by simp
    show ?thesis unfolding map_4kb_absent [OF False] t(2) Let_def sum
      by (rule paging_step_trans [OF directory_store [OF di_less] table_store [OF t(1) ti_less]])
  qed
  ultimately show ?thesis using paging_step_parts by (cases ?r) auto
qed

lemma map_loop_step:
  assumes "paging_map_loop L ke a m s = Some r" "L = D + KERNEL_CONFIG_VMA"
  shows "paging_step D T (m, s) r"
proof -
  have "L = D + KERNEL_CONFIG_VMA \<longrightarrow> paging_step D T (m, s) r"
  proof (rule paging_map_loop.raw_induct [where P = "\<lambda>L ke a m s r. L = D + KERNEL_CONFIG_VMA \<longrightarrow> paging_step D T (m, s) r",
        OF _ assms(1)], intro impI)
    fix loop L ke a m s r
    assume IH: "\<And>L ke a m s r. loop L ke a m s = Some r \<Longrightarrow> L = D + KERNEL_CONFIG_VMA \<longrightarrow> paging_step D T (m, s) r"
      and run: "(if a \<le> load32 m ke then
        let s = print ''    mapping 4MiB from phyaddr 0x%x to virtaddr 0x%x\<newline>'' [Num a, Num (a + KERNEL_CONFIG_VMA)] s;
            (x, y) = paging_map_4mb L a (a + KERNEL_CONFIG_VMA)
              (PAGING_PDE_PRESENT OR PAGING_PDE_READWRITE OR PAGING_PDE_SUPERVISOR) m s
        in loop L ke (a + 0x400000) x y else Some (m, s)) = Some r"
      and L: "L = D + KERNEL_CONFIG_VMA"
    show "paging_step D T (m, s) r"
    proof (cases "a \<le> load32 m ke")
      case True
      let ?s = "print ''    mapping 4MiB from phyaddr 0x%x to virtaddr 0x%x\<newline>'' [Num a, Num (a + KERNEL_CONFIG_VMA)] s"
      let ?c = "paging_map_4mb L a (a + KERNEL_CONFIG_VMA) (PAGING_PDE_PRESENT OR PAGING_PDE_READWRITE OR PAGING_PDE_SUPERVISOR) m ?s"
      have "loop L ke (a + 0x400000) (fst ?c) (snd ?c) = Some r" using True run by (simp add: Let_def split_beta)
      from IH [OF this] L have "paging_step D T ?c r" by simp
      moreover have "paging_step D T (m, ?s) ?c" unfolding L by (rule map_4mb_step)
      moreover have "paging_step D T (m, s) (m, ?s)"
        unfolding print_def by (rule paging_step_event) (simp add: paging_event_def)
      ultimately show ?thesis using paging_step_trans by blast
    qed (use run in simp)
  qed
  with assms(2) show ?thesis by blast
qed

lemma init_step:
  assumes "placed D T" "apart ke 4 D 4096" "apart ke 4 T 40960" "unat (load32 m ke) < 0x3EC00000"
    and "paging_init (D + KERNEL_CONFIG_VMA) (T + KERNEL_CONFIG_VMA) ke m s = Some (m', s')"
  shows "\<exists>u. paging_step D T (m, s) (m', u) \<and> s' = paging_enable (paging_set_page_directory D u)"
proof -
  let ?D = "D + KERNEL_CONFIG_VMA" and ?T = "T + KERNEL_CONFIG_VMA"
  define s1 where "s1 = print ''Initializing PAGING !\<newline>'' [] s"
  define m2 where "m2 = fst (memset (fst (memset m D 0 4096)) T 0 (4096 * of_nat 10))"
  obtain m3 s3 where three: "paging_map_loop ?D ke 0 m2 s1 = Some (m3, s3)"
    "tables_ok D T m3" "\<forall>t < 10. \<not> in_use T m3 t" "\<not> bit (pde D m3 1019) 0"
    using init_directory [OF assms(1-4) m2_def, of s1] by blast
  let ?c4 = "paging_map_4kb ?D ?T 0xFEC00000 0xFEC00000 apic_flags m3 s3"
  let ?c5 = "paging_map_4kb ?D ?T 0xFEE00000 0xFEE00000 apic_flags (fst ?c4) (snd ?c4)"
  have idx: "di 0xFEC00000 = 1019" "di 0xFEE00000 = 1019" by (simp_all add: di_def)
  have flags: "apic_flags AND 0xFFFFF000 = 0" "bit apic_flags 0" by (simp_all add: apic_flags_def)
  have free: "if bit (pde D m3 (di 0xFEC00000)) 0 then \<not> bit (pde D m3 (di 0xFEC00000)) 7
      else \<exists>t < 10. \<not> in_use T m3 t" using three(3,4) by (auto simp: idx intro: exI [of _ 0])
  note w = map_4kb_walk [OF assms(1) three(2) flags free, where phyaddr = "0xFEC00000" and s = s3, unfolded Let_def]
  then have free': "if bit (pde D (fst ?c4) (di 0xFEE00000)) 0 then \<not> bit (pde D (fst ?c4) (di 0xFEE00000)) 7
      else \<exists>t < 10. \<not> in_use T (fst ?c4) t" by (auto simp: idx owns_def)
  have "paging_step D T (m, s) (m2, s)"
    by (rule paging_step_memory) (simp add: m2_def memset_filled filled_def)
  then have "paging_step D T (m, s) (m2, s1)"
    by (rule paging_step_trans) (simp add: s1_def print_def paging_step_event paging_event_def)
  moreover have "paging_step D T (m2, s1) (m3, s3)" by (rule map_loop_step [OF three(1) refl])
  moreover have "paging_step D T (m3, s3) ?c4" by (rule map_4kb_step [OF assms(1) three(2) free])
  moreover have "paging_step D T ?c4 ?c5"
    using map_4kb_step [OF assms(1) conjunct1 [OF w] free', where s = "snd ?c4"] by simp
  ultimately have "paging_step D T (m, s) ?c5" using paging_step_trans by blast
  moreover have "m' = fst ?c5" "s' = paging_enable (paging_set_page_directory D (snd ?c5))"
    using assms(5) three(1) by (auto simp: paging_init_def s1_def [symmetric] m2_def [symmetric] split_beta Let_def
        simp del: of_nat_numeral)
  ultimately show ?thesis by (cases ?c5) auto
qed

section \<open>From the loader to the jump\<close>

text \<open>The physical regions of the boot: three words of the stack, the boot directory, the page
  directory and tables, the descriptor table and its pointer, the marker at the end of the
  kernel.\<close>

definition regions :: "boot \<Rightarrow> (u32 \<times> nat) list" where
  "regions k = map (\<lambda>(a, n). (a - KERNEL_CONFIG_VMA, n))
     [(stack_top k - 12, 12), (entry_page_directory k, 4096), (page_directory (kernel_image k), 4096),
      (page_tables (kernel_image k), 40960), (gdt_table k, 80), (gdt_pointer k, 6),
      (kernel_end k + KERNEL_CONFIG_VMA, 4)]"

primrec spaced :: "(u32 \<times> nat) list \<Rightarrow> bool" where
  "spaced [] \<longleftrightarrow> True"
| "spaced (r # rs) \<longleftrightarrow> list_all (\<lambda>q. apart (fst r) (snd r) (fst q) (snd q)) rs \<and> spaced rs"

definition boot_ok :: "boot \<Rightarrow> mem \<Rightarrow> bool" where
  "boot_ok k m \<longleftrightarrow> spaced (regions k)
     \<and> placed (page_directory (kernel_image k) - KERNEL_CONFIG_VMA) (page_tables (kernel_image k) - KERNEL_CONFIG_VMA)
     \<and> aligned (entry_page_directory k - KERNEL_CONFIG_VMA)
     \<and> list_all (\<lambda>i. pde (entry_page_directory k - KERNEL_CONFIG_VMA) m i = entry_pde i) [0..<1024]
     \<and> 12 \<le> stack_top k - KERNEL_CONFIG_VMA \<and> stack_top k - KERNEL_CONFIG_VMA \<le> 0x400000
     \<and> load32 m (kernel_end k) < 0x3EC00000"

text \<open>The state the loader leaves: paging is off, and CR3 holds 0.\<close>

definition loader_state :: "'a machine_scheme \<Rightarrow> bool" where
  "loader_state s \<longleftrightarrow> loaded 0 (trace s) = None \<and> read_cr 3 s = 0"

lemma upper_lower [simp]: "upper (lower v) = v" "lower (upper m) = m"
  by (simp_all add: upper_def lower_def fun_eq_iff)

lemma in_range_moved: "in_range a n (x + c) \<longleftrightarrow> in_range (a - c) n x"
  by (simp add: in_range_def diff_diff_eq2)

lemma apart_moved: "apart (a - c) n (b - c) k \<longleftrightarrow> apart a n b k"
  by (simp add: apart_def)

lemma gdt_init_machine:
  "hw (snd (gdt_init g gl v s)) = hw s" "machine.more (snd (gdt_init g gl v s)) = machine.more s"
  by (simp_all add: gdt_init_def Let_def gdt_set_table_def gdt_flush_def)

lemma idt_init_trace:
  "trace (idt_init a h s) = trace s @ [Print ''Initializing IDT !\<newline>'' [], Lidt 2039 a]"
  "hw (idt_init a h s) = hw s"
  by (simp_all add: idt_init_def Let_def idt_set_table_def idt_init_loop_facts print_def sizeof_idt_gate_t)

text \<open>The three words on the stack, below \<open>b + 12\<close>.\<close>

lemma stack_words:
  fixes b :: u32
  assumes "\<And>x. in_range b 12 x \<Longrightarrow> m' x = store32 (store32 (store32 m (b + 8) u) (b + 4) v) b w x"
  shows "load32 m' b = w" "load32 m' (b + 4) = v"
proof -
  let ?m = "store32 (store32 (store32 m (b + 8) u) (b + 4) v) b w"
  have parts: "in_range b 12 x" if "in_range b 4 x \<or> in_range (b + 4) 4 x" for x
    using that in_range_mono [of b 4 x 12] in_range_part [of b 4 4 x 12] by auto
  have "load32 m' b = load32 ?m b" "load32 m' (b + 4) = load32 ?m (b + 4)"
    using assms parts by (auto intro!: quad.ld_cong)
  moreover have "apart b 4 (b + 4) 4" using apart_offsets [of 0 4 4 4 b] by simp
  then have "load32 ?m (b + 4) = v" by (simp add: quad.ld_st_apart quad.ld_st)
  ultimately show "load32 m' b = w" "load32 m' (b + 4) = v" by (simp_all add: quad.ld_st)
qed

lemma stack_other:
  fixes b :: u32
  assumes "\<not> in_range b 12 x"
  shows "store32 (store32 (store32 m (b + 8) u) (b + 4) v) b w x = m x"
proof -
  have "\<not> in_range b 4 x" "\<not> in_range (b + 4) 4 x" "\<not> in_range (b + 8) 4 x"
    using assms in_range_mono [of b 4 x 12] in_range_part [of b 4 4 x 12] in_range_part [of b 8 4 x 12] by auto
  then show ?thesis by (simp add: quad.st_other)
qed

lemma push_unpaged: "loaded 0 (trace s) = None \<Longrightarrow> push v (r, m, s) = Some (r\<lparr>esp := esp r - 4\<rparr>, store32 m (esp r - 4) v, s)"
  by (simp add: push_def translate_unpaged)

lemma entry_pushes:
  assumes "loaded 0 (trace s) = None" "b = stack_top k - 12 - KERNEL_CONFIG_VMA"
  shows "entry_low k scratch (r, m, s) = do {
     let (r, m, s) = entry_init_paging (entry_page_directory k)
       (r\<lparr>ebp := b + 8, ebx := ebx r + KERNEL_CONFIG_VMA, esp := b\<rparr>,
        store32 (store32 (store32 m (b + 8) (ebp r)) (b + 4) (ebx r + KERNEL_CONFIG_VMA)) b (eax r), s);
     let (v, s) = gdt_init (gdt_table k) (gdt_pointer k) (upper m) s;
     let m = lower v;
     let s = idt_init (idt_table k) (stubs k) s;
     let r = called scratch r;
     (v, r, m, s) \<leftarrow> pop (r, m, s);
     let r = r\<lparr>eax := v\<rparr>;
     (v, r, m, s) \<leftarrow> pop (r, m, s);
     let r = r\<lparr>ebx := v\<rparr>;
     Some (r, m, emit (LoadSegment CS 0x08) s) }"
  unfolding entry_low_def assms(2) by (simp add: push_unpaged [OF assms(1)] Let_def)

lemma entry_control:
  assumes "read_cr 3 s = 0"
  shows "\<exists>cr4 cr0 u. entry_init_paging dir (r, m, s) = (r\<lparr>eax := cr0\<rparr>, m, u) \<and> hw u = hw s \<and> machine.more u = machine.more s
    \<and> trace u = trace s @ [MovCr 3 (dir - KERNEL_CONFIG_VMA), MovCr 4 cr4, MovCr 0 cr0] \<and> bit cr4 4 \<and> bit cr0 31"
proof -
  have "bit (a OR 0x10 :: u32) 4" "bit (a OR 0x80000000 :: u32) 31" for a by (simp_all add: bit_simps)
  then show ?thesis by (simp add: entry_init_paging_def Let_def assms)
qed

definition gdt_flat :: "boot \<Rightarrow> mem \<Rightarrow> bool" where
  "gdt_flat k m \<longleftrightarrow> (\<forall>i < 10. descriptor (upper m) (gdt_table k + of_nat (8 * i)) =
     (if i = 1 then 0x00CF9A000000FFFF else if i = 2 then 0x00CF92000000FFFF else 0))"

lemma entry_gdt:
  fixes s :: "'a machine_scheme" and m :: mem and k :: boot
  assumes "apart (gdt_pointer k) 6 (gdt_table k) 80"
  defines "m' \<equiv> lower (fst (gdt_init (gdt_table k) (gdt_pointer k) (upper m) s))"
  shows "gdt_flat k m'"
    "\<not> in_range (gdt_table k - KERNEL_CONFIG_VMA) 80 x \<Longrightarrow> \<not> in_range (gdt_pointer k - KERNEL_CONFIG_VMA) 6 x \<Longrightarrow> m' x = m x"
    "trace (snd (gdt_init (gdt_table k) (gdt_pointer k) (upper m) s)) = trace s @ [Print ''Initializing GDT !\<newline>'' [],
        Lgdt 80 (gdt_table k), LoadSegment FS 0x10, LoadSegment GS 0x10, LoadSegment ES 0x10,
        LoadSegment DS 0x10, LoadSegment SS 0x10, LoadSegment CS 0x08]"
proof -
  note gdt = gdt_init_table [OF assms(1), of "upper m" s]
  show "gdt_flat k m'" using gdt unfolding gdt_flat_def m'_def by simp
  show "m' x = m x" if "\<not> in_range (gdt_table k - KERNEL_CONFIG_VMA) 80 x" "\<not> in_range (gdt_pointer k - KERNEL_CONFIG_VMA) 6 x"
    using gdt that by (simp add: m'_def lower_def upper_def in_range_moved)
qed (use gdt_init_table [OF assms(1), of "upper m" s] in simp)


lemma boot_okD:
  assumes "boot_ok k m"
  defines "b \<equiv> stack_top k - 12 - KERNEL_CONFIG_VMA" and "E \<equiv> entry_page_directory k - KERNEL_CONFIG_VMA"
    and "D \<equiv> page_directory (kernel_image k) - KERNEL_CONFIG_VMA" and "T \<equiv> page_tables (kernel_image k) - KERNEL_CONFIG_VMA"
    and "g \<equiv> gdt_table k - KERNEL_CONFIG_VMA" and "p \<equiv> gdt_pointer k - KERNEL_CONFIG_VMA"
  shows "apart b 12 E 4096" "apart b 12 g 80" "apart b 12 p 6" "apart b 12 (kernel_end k) 4" "apart b 12 D 4096" "apart b 12 T 40960"
    "apart g 80 E 4096" "apart p 6 E 4096" "apart (gdt_pointer k) 6 (gdt_table k) 80"
    "apart g 80 D 4096" "apart g 80 T 40960" "apart g 80 (kernel_end k) 4" "apart p 6 (kernel_end k) 4"
    "apart (kernel_end k) 4 D 4096" "apart (kernel_end k) 4 T 40960"
    "placed D T" "aligned E" "i < 1024 \<Longrightarrow> pde E m i = entry_pde i"
    "b \<le> 0x3FFFF4" "unat (load32 m (kernel_end k)) < 0x3EC00000"
proof -
  have s: "spaced [(b, 12), (E, 4096), (D, 4096), (T, 40960), (g, 80), (p, 6), (kernel_end k, 4)]"
    using assms(1) by (simp add: boot_ok_def regions_def b_def E_def D_def T_def g_def p_def)
  then show "apart b 12 E 4096" "apart b 12 g 80" "apart b 12 p 6" "apart b 12 (kernel_end k) 4" "apart b 12 D 4096" "apart b 12 T 40960"
    "apart g 80 E 4096" "apart p 6 E 4096" "apart g 80 D 4096" "apart g 80 T 40960" "apart g 80 (kernel_end k) 4" "apart p 6 (kernel_end k) 4"
    "apart (kernel_end k) 4 D 4096" "apart (kernel_end k) 4 T 40960"
    using apart_commute by (simp_all add: apart_commute)
  from s have "apart g 80 p 6" by simp
  then show "apart (gdt_pointer k) 6 (gdt_table k) 80" by (simp add: g_def p_def apart_moved apart_commute)
  show "placed D T" "aligned E" "i < 1024 \<Longrightarrow> pde E m i = entry_pde i" "unat (load32 m (kernel_end k)) < 0x3EC00000"
    using assms(1) by (auto simp: boot_ok_def D_def T_def E_def list_all_iff word_less_nat_alt)
  define S where "S = stack_top k - KERNEL_CONFIG_VMA"
  have "12 \<le> S" "S \<le> 0x400000" using assms(1) by (simp_all add: boot_ok_def S_def)
  then have "unat (S - 12) \<le> 0x3FFFF4" by (simp add: unat_sub word_le_nat_alt)
  moreover have "b = S - 12" by (simp add: b_def S_def)
  ultimately show "b \<le> 0x3FFFF4" by (simp add: word_le_nat_alt)
qed

text \<open>The boot directory stays in force while nothing is written to it.\<close>

lemma boot_walk_kept:
  assumes "aligned E" "\<And>i. i < 1024 \<Longrightarrow> pde E m i = entry_pde i" "\<And>x. in_range E 4096 x \<Longrightarrow> m' x = m x"
  shows "walk E m' x = Some (if x < KERNEL_CONFIG_VMA then x else x - KERNEL_CONFIG_VMA)"
proof (rule entry_walk [OF assms(1)])
  fix i :: nat assume i: "i < 1024"
  have "in_range E 4096 x" if "in_range (E + of_nat (4 * i)) 4 x" for x
    using that i in_range_part [of E "4 * i" 4 x 4096] by (simp del: of_nat_mult)
  then have "pde E m' i = pde E m i" unfolding pde_def by (intro quad.ld_cong assms(3))
  then show "pde E m' i = entry_pde i" using assms(2) i by simp
qed

lemma entry_low_effect:
  fixes s :: "'a acpi_scheme" and r :: idt_registers
  assumes ok: "boot_ok k m" and ld: "loader_state s"
  defines "b \<equiv> stack_top k - 12 - KERNEL_CONFIG_VMA" and "E \<equiv> entry_page_directory k - KERNEL_CONFIG_VMA"
    and "g \<equiv> gdt_table k - KERNEL_CONFIG_VMA" and "p \<equiv> gdt_pointer k - KERNEL_CONFIG_VMA"
  shows "\<exists>r' m' s' (u :: 'a acpi_scheme) es. entry_low k scratch (r, m, s) = Some (r', m', s')
    \<and> eax r' = eax r \<and> ebx r' = ebx r + KERNEL_CONFIG_VMA \<and> esp r' = b + 8
    \<and> (\<forall>x. \<not> in_range b 12 x \<and> \<not> in_range g 80 x \<and> \<not> in_range p 6 x \<longrightarrow> m' x = m x) \<and> gdt_flat k m'
    \<and> hw s' = hw s \<and> machine.more u = machine.more s \<and> machine.more s' = machine.more (idt_init (idt_table k) (stubs k) u)
    \<and> trace s' = es @ [Lgdt 80 (gdt_table k), LoadSegment FS 0x10, LoadSegment GS 0x10, LoadSegment ES 0x10,
        LoadSegment DS 0x10, LoadSegment SS 0x10, LoadSegment CS 0x08, Print ''Initializing IDT !\<newline>'' [], Lidt 2039 (idt_table k),
        LoadSegment CS 0x08]"
proof -
  note ok = boot_okD [OF ok, folded b_def E_def g_def p_def]
  let ?ebx = "ebx r + KERNEL_CONFIG_VMA"
  define m3 where "m3 = store32 (store32 (store32 m (b + 8) (ebp r)) (b + 4) ?ebx) b (eax r)"
  define r3 where "r3 = r\<lparr>ebp := b + 8, ebx := ?ebx, esp := b\<rparr>"
  have "loaded 0 (trace s) = None" "read_cr 3 s = 0" using ld by (simp_all add: loader_state_def)
  note pushes = entry_pushes [OF this(1) meta_eq_to_obj_eq [OF b_def], of scratch r m, folded m3_def r3_def]
  obtain cr4 cr0 u where paging: "entry_init_paging (entry_page_directory k) (r3, m3, s) = (r3\<lparr>eax := cr0\<rparr>, m3, u)"
    "machine.more u = machine.more s" "trace u = trace s @ [MovCr 3 E, MovCr 4 cr4, MovCr 0 cr0]" "bit cr0 31" "hw u = hw s"
    using entry_control [OF \<open>read_cr 3 s = 0\<close>, of "entry_page_directory k" r3 m3] unfolding E_def by auto
  define m4 where "m4 = lower (fst (gdt_init (gdt_table k) (gdt_pointer k) (upper m3) u))"
  define v where "v = snd (gdt_init (gdt_table k) (gdt_pointer k) (upper m3) u)"
  define w where "w = idt_init (idt_table k) (stubs k) v"
  note gdt = entry_gdt [OF ok(9), where m = m3 and s = u, folded m4_def v_def g_def p_def]
  have outside: "m4 x = m x" if "\<not> in_range b 12 x" "\<not> in_range g 80 x" "\<not> in_range p 6 x" for x
    using gdt(2) that stack_other [of b x] by (simp add: m3_def)
  have "m4 x = m x" if "in_range E 4096 x" for x using that ok(1,7,8) by (intro outside) (auto simp: apart_iff)
  note walk = boot_walk_kept [OF ok(17,18) this]
  have tr: "translate m4 (trace w) x = Some (if x < KERNEL_CONFIG_VMA then x else x - KERNEL_CONFIG_VMA)" for x
  proof -
    have "trace w = (trace s @ [MovCr 3 E, MovCr 4 cr4, MovCr 0 cr0]) @ [Print ''Initializing GDT !\<newline>'' [],
        Lgdt 80 (gdt_table k), LoadSegment FS 0x10, LoadSegment GS 0x10, LoadSegment ES 0x10,
        LoadSegment DS 0x10, LoadSegment SS 0x10, LoadSegment CS 0x08, Print ''Initializing IDT !\<newline>'' [], Lidt 2039 (idt_table k)]"
      by (simp add: w_def idt_init_trace gdt(3) paging(3))
    then show ?thesis by (simp only:) (subst translate_other, simp, simp add: translate_paged [OF paging(4)] walk)
  qed
  have "m4 x = m3 x" if "in_range b 12 x" for x using gdt(2) that ok(2,3) by (auto simp: apart_iff)
  note words = stack_words [of b m4, OF this [unfolded m3_def]]
  have low: "b < KERNEL_CONFIG_VMA" "b + 4 < KERNEL_CONFIG_VMA"
    using ok(19) by (simp_all add: word_less_nat_alt word_le_nat_alt unat_word_ariths)
  have pops: "pop (q, m4, w) = Some (load32 m4 (esp q), q\<lparr>esp := esp q + 4\<rparr>, m4, w)" if "esp q < KERNEL_CONFIG_VMA" for q
    using that by (simp add: pop_def tr)
  have "esp (called scratch (r3\<lparr>eax := cr0\<rparr>)) = b" by (simp add: called_def r3_def split: prod.split)
  define q where "q = (called scratch (r3\<lparr>eax := cr0\<rparr>))\<lparr>esp := b + 8, eax := eax r, ebx := ?ebx\<rparr>"
  have "entry_low k scratch (r, m, s) = Some (q, m4, emit (LoadSegment CS 8) w)"
    using low \<open>esp (called scratch (r3\<lparr>eax := cr0\<rparr>)) = b\<close>
    by (simp add: pushes paging(1) Let_def split_beta flip: m4_def v_def w_def) (simp add: pops words q_def)
  moreover have "machine.more v = machine.more s" "hw w = hw s" by (simp_all add: v_def w_def idt_init_trace gdt_init_machine paging(2,5))
  ultimately show ?thesis
    using gdt(1) outside
    by (intro exI [of _ q] exI [of _ m4] exI [of _ "emit (LoadSegment CS 8) w"] exI [of _ v]
        exI [of _ "trace u @ [Print ''Initializing GDT !\<newline>'' []]"]) (simp add: q_def w_def idt_init_trace gdt(3))
qed


section \<open>In the higher half\<close>

text \<open>The table registers hold what was loaded last.\<close>

definition idtr :: "event list \<Rightarrow> u16 \<times> u32" where
  "idtr es = fold (\<lambda>e r. case e of Lidt l b \<Rightarrow> (l, b) | _ \<Rightarrow> r) es (0, 0)"

lemma table_registers_kept:
  assumes "list_all paging_event es"
  shows "gdtr (fs @ es @ [MovCr i a, MovCr j b, MovCr n c]) = gdtr fs" "idtr (fs @ es @ [MovCr i a, MovCr j b, MovCr n c]) = idtr fs"
proof -
  have "gdtr (fs @ es) = gdtr fs \<and> idtr (fs @ es) = idtr fs"
    using assms
  proof (induction es rule: rev_induct)
    case (snoc e es)
    then show ?case by (cases e) (auto simp: gdtr_def idtr_def paging_event_def simp flip: append_assoc)
  qed simp
  then show "gdtr (fs @ es @ [MovCr i a, MovCr j b, MovCr n c]) = gdtr fs" "idtr (fs @ es @ [MovCr i a, MovCr j b, MovCr n c]) = idtr fs"
    by (simp_all add: gdtr_def idtr_def)
qed

text \<open>The translation after \<open>paging_init\<close>: the two APIC pages, and the kernel's half as far as the
  4 MB region of the bound.\<close>

definition kernel_view :: "u32 \<Rightarrow> u32 \<Rightarrow> u32 option" where
  "kernel_view bound x =
     (if drop_bit 12 x = 0xFEC00 \<or> drop_bit 12 x = 0xFEE00 then Some x
      else if KERNEL_CONFIG_VMA \<le> x \<and> unat x < 0xC0000000 + (unat bound div 0x400000 + 1) * 0x400000
      then Some (x - KERNEL_CONFIG_VMA) else None)"

lemma kernel_view_stack:
  assumes "y < 0x400000" shows "kernel_view bound (y + KERNEL_CONFIG_VMA) = Some y"
proof -
  have u: "unat (y + KERNEL_CONFIG_VMA) = unat y + 0xC0000000"
    using assms by (simp add: word_less_nat_alt unat_word_ariths)
  have "unat (drop_bit 12 (y + KERNEL_CONFIG_VMA)) < 0xC0400"
    using assms u by (simp add: unat_drop_bit_eq drop_bit_eq_div unat_div word_less_nat_alt)
  then have "drop_bit 12 (y + KERNEL_CONFIG_VMA) \<noteq> 0xFEC00" "drop_bit 12 (y + KERNEL_CONFIG_VMA) \<noteq> 0xFEE00" by auto
  moreover have "KERNEL_CONFIG_VMA \<le> y + KERNEL_CONFIG_VMA" by (simp add: word_le_nat_alt u)
  moreover have "unat (y + KERNEL_CONFIG_VMA) < 0xC0000000 + (unat bound div 0x400000 + 1) * 0x400000"
    using assms unfolding u by (simp add: word_less_nat_alt)
  ultimately show ?thesis by (simp add: kernel_view_def)
qed

text \<open>The entries of the directory.\<close>

definition kernel_pde :: "u32 \<Rightarrow> nat \<Rightarrow> u32" where
  "kernel_pde bound i = (if 768 \<le> i \<and> i < 769 + unat bound div 0x400000 then of_nat ((i - 768) * 0x400000) OR 0x83 else 0)"

text \<open>Pushes below the kernel's stack keep the translation.\<close>

lemma stack_view:
  assumes "placed D T" "tables_ok D T m1" "apart b 12 D 4096" "apart b 12 T 40960" "\<And>x. walk D m1 x = V x"
    and "es' = es @ [MovCr 3 D, MovCr 4 cr4, MovCr 0 cr0]" "bit cr0 31" "\<And>x. \<not> in_range b 12 x \<Longrightarrow> n x = m1 x"
  shows "translate n es' x = V x" "tables_ok D T n" "translate n es' = walk D n" "walk D n x = V x"
    "i < 1024 \<Longrightarrow> pde D n i = pde D m1 i" "apic_table D T n = apic_table D T m1"
proof -
  have "n x = m1 x" if "in_range D 4096 x \<or> in_range T 40960 x" for x
    using that assms(3,4,8) by (auto simp: apart_iff)
  note kept = directory_kept [OF assms(1,2) this]
  show "tables_ok D T n" by (rule kept(2))
  show "apic_table D T n = apic_table D T m1" by (rule kept(5))
  show "pde D n i = pde D m1 i" if "i < 1024" using kept(3) that by blast
  show w: "walk D n x = V x" by (simp only: kept(1) assms(5))
  show "translate n es' = walk D n" by (rule ext) (simp only: assms(6) translate_paged [OF assms(7)])
  then show "translate n es' x = V x" by (simp only: w)
qed

lemma high_pushes:
  assumes view: "\<And>n x. (\<And>x. \<not> in_range b 12 x \<Longrightarrow> n x = m x) \<Longrightarrow> translate n (trace s) x = kernel_view bound x"
    and b: "b \<le> 0x3FFFF4" and q: "esp q = b + 8 + KERNEL_CONFIG_VMA"
  shows "\<exists>m' q'. Option.bind (push (ebx q) (q, m, s)) (\<lambda>(r, m, s). push (eax r) (r, m, s)) = Some (q', m', s)
    \<and> argument 0 (q', m', s) = Some (eax q) \<and> argument 1 (q', m', s) = Some (ebx q) \<and> (\<forall>x. \<not> in_range b 12 x \<longrightarrow> m' x = m x)"
proof -
  define m2 where "m2 = store32 m (b + 4) (ebx q)"
  define m3 where "m3 = store32 m2 b (eax q)"
  have parts: "\<not> in_range b 4 x" "\<not> in_range (b + 4) 4 x" if "\<not> in_range b 12 x" for x
    using that in_range_mono [of b 4 x 12] in_range_part [of b 4 4 x 12] by auto
  have m2: "m2 x = m x" and m3: "m3 x = m x" if "\<not> in_range b 12 x" for x
    using parts [OF that] by (simp_all add: m2_def m3_def quad.st_other)
  have small: "b < 0x400000" "b + 4 < 0x400000"
    using b by (simp_all add: word_less_nat_alt word_le_nat_alt unat_word_ariths)
  note at = kernel_view_stack [OF small(1)] kernel_view_stack [OF small(2)]
    kernel_view_stack [OF small(1), unfolded add.commute [of b]] kernel_view_stack [OF small(2), simplified]
  define e4 where "e4 = b + 4 + KERNEL_CONFIG_VMA"
  have e4: "esp q - 4 = e4" "e4 - 4 = b + KERNEL_CONFIG_VMA" "kernel_view bound e4 = Some (b + 4)" for bound
    using kernel_view_stack [OF small(2)] by (simp_all add: q e4_def)
  let ?q = "q\<lparr>esp := b + KERNEL_CONFIG_VMA\<rparr>"
  have push1: "push (ebx q) (q, m, s) = Some (q\<lparr>esp := e4\<rparr>, m2, s)"
    unfolding push_def m2_def by (simp only: split_conv view [of m] e4 option.map)
  have push2: "push (eax q) (q\<lparr>esp := e4\<rparr>, m2, s) = Some (?q, m3, s)"
    unfolding push_def m3_def by (simp add: e4 view [of m2] m2 at)
  have "load32 m3 b = eax q" by (simp add: m3_def quad.ld_st)
  then have "argument 0 (?q, m3, s) = Some (eax q)" by (simp add: argument_def view [of m3] m3 at)
  moreover have "apart b 4 (b + 4) 4" using apart_offsets [of 0 4 4 4 b] by simp
  then have "load32 m3 (b + 4) = ebx q" by (simp add: m3_def m2_def quad.ld_st_apart quad.ld_st)
  then have "argument 1 (?q, m3, s) = Some (ebx q)" by (simp add: argument_def view [of m3] m3 at)
  ultimately show ?thesis using m3
    by (intro exI [of _ m3] exI [of _ ?q]) (simp add: push1 push2)
qed

lemma entry_high_effect:
  fixes s :: "'a acpi_scheme" and r :: idt_registers and b :: u32 and k :: boot
  defines "D \<equiv> page_directory (kernel_image k) - KERNEL_CONFIG_VMA" and "T \<equiv> page_tables (kernel_image k) - KERNEL_CONFIG_VMA"
  assumes ok: "placed D T" "apart (kernel_end k) 4 D 4096" "apart (kernel_end k) 4 T 40960"
      "unat (load32 m (kernel_end k)) < 0x3EC00000"
    and stack: "apart b 12 D 4096" "apart b 12 T 40960" "b \<le> 0x3FFFF4" "esp r = b + 8"
  shows "\<exists>r' m' s' es cr4 cr0. entry_higher_half k scratch (r, m, s) = Some (r', m', s')
    \<and> argument 0 (r', m', s') = Some (fst scratch) \<and> argument 1 (r', m', s') = Some (ebx r)
    \<and> (\<forall>x. walk D m' x = kernel_view (load32 m (kernel_end k)) x) \<and> (\<forall>n. translate n (trace s') = walk D n) \<and> tables_ok D T m' \<and> apic_table D T m'
    \<and> (\<forall>i < 1024. i \<noteq> 1019 \<longrightarrow> pde D m' i = kernel_pde (load32 m (kernel_end k)) i)
    \<and> (\<forall>x. \<not> in_range b 12 x \<and> \<not> in_range D 4096 x \<and> \<not> in_range T 40960 x \<longrightarrow> m' x = m x)
    \<and> hw s' = hw s \<and> machine.more s' = machine.more s
    \<and> trace s' = trace s @ es @ [MovCr 3 D, MovCr 4 cr4, MovCr 0 cr0] \<and> list_all paging_event es"
proof -
  have D: "page_directory (kernel_image k) = D + KERNEL_CONFIG_VMA" "page_tables (kernel_image k) = T + KERNEL_CONFIG_VMA"
    by (simp_all add: D_def T_def)
  obtain m1 s1 es1 cr4 cr0 where one: "paging_init (D + KERNEL_CONFIG_VMA) (T + KERNEL_CONFIG_VMA) (kernel_end k) m s = Some (m1, s1)"
    "\<And>x. walk D m1 x = kernel_view (load32 m (kernel_end k)) x" "tables_ok D T m1" "bit cr0 31"
    "trace s1 = es1 @ [MovCr 3 D, MovCr 4 cr4, MovCr 0 cr0]"
    "\<And>i. i < 1024 \<Longrightarrow> i \<noteq> 1019 \<Longrightarrow> pde D m1 i = kernel_pde (load32 m (kernel_end k)) i" "apic_table D T m1"
    using init_translation [OF ok, of s] unfolding kernel_view_def kernel_pde_def by blast
  obtain u where u: "paging_step D T (m, s) (m1, u)" "s1 = paging_enable (paging_set_page_directory D u)"
    using init_step [OF ok one(1)] by blast
  then obtain es where es: "trace u = trace s @ es" "list_all paging_event es" by (auto simp: paging_step_def)
  have more: "machine.more s1 = machine.more s" "hw s1 = hw s"
    using u by (simp_all add: paging_step_def paging_enable_def paging_set_page_directory_def Let_def)
  obtain a c where "trace s1 = trace s @ es @ [MovCr 3 D, MovCr 4 a, MovCr 0 c]"
    by (simp add: u(2) paging_enable_def paging_set_page_directory_def Let_def es(1))
  with one(5) have tr1: "trace s1 = trace s @ es @ [MovCr 3 D, MovCr 4 cr4, MovCr 0 cr0]" by simp
  note view = stack_view [OF ok(1) one(3) stack(1,2) one(2) one(5,4)]
  define q where "q = called scratch (r\<lparr>esp := b + 8 + KERNEL_CONFIG_VMA\<rparr>)"
  have q': "called scratch (r\<lparr>esp := esp r + KERNEL_CONFIG_VMA\<rparr>) = q" by (simp only: q_def stack(4))
  have q: "esp q = b + 8 + KERNEL_CONFIG_VMA" "ebx q = ebx r" "eax q = fst scratch"
    by (simp_all add: q_def called_def split: prod.split)
  obtain m3 q3 where p: "Option.bind (push (ebx q) (q, m1, s1)) (\<lambda>(r, m, s). push (eax r) (r, m, s)) = Some (q3, m3, s1)"
    "argument 0 (q3, m3, s1) = Some (fst scratch)" "argument 1 (q3, m3, s1) = Some (ebx r)" "\<And>x. \<not> in_range b 12 x \<Longrightarrow> m3 x = m1 x"
    using high_pushes [OF view(1) stack(3) q(1)] unfolding q(2,3) by blast
  have "entry_higher_half k scratch (r, m, s) = Some (q3, m3, s1)"
    unfolding entry_higher_half_def D using p(1) by (simp add: one(1) Let_def q')
  moreover have "m3 x = m x" if "\<not> in_range b 12 x" "\<not> in_range D 4096 x" "\<not> in_range T 40960 x" for x
    using u(1) p(4) that by (simp add: paging_step_def)
  moreover have "pde D m3 i = kernel_pde (load32 m (kernel_end k)) i" if "i < 1024" "i \<noteq> 1019" for i
    using view(5) [OF p(4)] one(6) that by metis
  moreover have "translate n (trace s1) = walk D n" for n
    by (rule ext) (simp only: one(5) translate_paged [OF one(4)])
  ultimately show ?thesis using view [OF p(4)] p(2,3) more tr1 es(2) one(7)
    by (intro exI [of _ q3] exI [of _ m3] exI [of _ s1] exI [of _ es] exI [of _ cr4] exI [of _ cr0]) simp
qed


section \<open>The boot\<close>

lemma gdt_flat_kept:
  assumes "gdt_flat k m" "\<And>x. in_range (gdt_table k - KERNEL_CONFIG_VMA) 80 x \<Longrightarrow> m' x = m x"
  shows "gdt_flat k m'"
proof -
  have "descriptor (upper m') (gdt_table k + of_nat (8 * i)) = descriptor (upper m) (gdt_table k + of_nat (8 * i))" if "i < 10" for i
  proof (rule descriptor_cong)
    fix x assume "in_range (gdt_table k + of_nat (8 * i)) 8 x"
    then have "in_range (gdt_table k) 80 x" by (rule in_range_part) (use that in simp_all)
    then have "in_range (gdt_table k - KERNEL_CONFIG_VMA) 80 (x - KERNEL_CONFIG_VMA)"
      using in_range_moved [of "gdt_table k" 80 "x - KERNEL_CONFIG_VMA" KERNEL_CONFIG_VMA] by simp
    then show "upper m' x = upper m x" by (simp add: upper_def assms(2))
  qed
  then show ?thesis using assms(1) by (simp add: gdt_flat_def)
qed

lemma boot_effect:
  fixes r :: idt_registers and m :: mem and s :: "'a acpi_scheme" and k :: boot
  defines "D \<equiv> page_directory (kernel_image k) - KERNEL_CONFIG_VMA" and "T \<equiv> page_tables (kernel_image k) - KERNEL_CONFIG_VMA"
  assumes "boot_ok k m" "loader_state s"
  shows "\<exists>m' s' (u :: 'a acpi_scheme).
    calls_kmain k scratch scratch' (r, m, s) = Some (fst scratch', ebx r + KERNEL_CONFIG_VMA, m', s')
    \<and> loaded 3 (trace s') = Some D
    \<and> (\<forall>n. translate n (trace s') = walk D n) \<and> (\<forall>x. walk D m' x = kernel_view (load32 m (kernel_end k)) x)
    \<and> tables_ok D T m' \<and> apic_table D T m'
    \<and> (\<forall>i < 1024. i \<noteq> 1019 \<longrightarrow> pde D m' i = kernel_pde (load32 m (kernel_end k)) i)
    \<and> gdtr (trace s') = (80, gdt_table k) \<and> gdt_flat k m' \<and> idtr (trace s') = (2039, idt_table k)
    \<and> hw s' = hw s \<and> machine.more u = machine.more s \<and> machine.more s' = machine.more (idt_init (idt_table k) (stubs k) u)
    \<and> (\<forall>x. list_all (\<lambda>(a, n). \<not> in_range a n x) (regions k) \<longrightarrow> m' x = m x)"
proof -
  define b where "b = stack_top k - 12 - KERNEL_CONFIG_VMA"
  note ok = boot_okD [OF assms(3), folded b_def D_def T_def]
  let ?es = "[Lgdt 80 (gdt_table k), LoadSegment FS 0x10, LoadSegment GS 0x10, LoadSegment ES 0x10, LoadSegment DS 0x10,
    LoadSegment SS 0x10, LoadSegment CS 0x08, Print ''Initializing IDT !\<newline>'' [], Lidt 2039 (idt_table k), LoadSegment CS 0x08]"
  obtain r1 m1 s1 u es1 where one: "entry_low k scratch (r, m, s) = Some (r1, m1, s1)" "ebx r1 = ebx r + KERNEL_CONFIG_VMA"
    "esp r1 = b + 8" "gdt_flat k m1" "machine.more u = machine.more s"
    "machine.more s1 = machine.more (idt_init (idt_table k) (stubs k) (u :: 'a acpi_scheme))" "trace s1 = es1 @ ?es" "hw s1 = hw s"
    and out: "\<And>x. \<not> in_range b 12 x \<Longrightarrow> \<not> in_range (gdt_table k - KERNEL_CONFIG_VMA) 80 x
      \<Longrightarrow> \<not> in_range (gdt_pointer k - KERNEL_CONFIG_VMA) 6 x \<Longrightarrow> m1 x = m x"
    using entry_low_effect [OF assms(3,4), of scratch r, folded b_def] by blast
  have bound: "load32 m1 (kernel_end k) = load32 m (kernel_end k)"
    using ok(4,12,13) by (intro quad.ld_cong out) (auto simp: apart_iff)
  obtain r2 m2 s2 es cr4 cr0 where two: "entry_higher_half k scratch' (r1, m1, s1) = Some (r2, m2, s2)"
    "argument 0 (r2, m2, s2) = Some (fst scratch')" "argument 1 (r2, m2, s2) = Some (ebx r1)"
    "\<forall>x. walk D m2 x = kernel_view (load32 m (kernel_end k)) x" "\<forall>n. translate n (trace s2) = walk D n" "tables_ok D T m2"
    "hw s2 = hw s1" "machine.more s2 = machine.more s1" "trace s2 = trace s1 @ es @ [MovCr 3 D, MovCr 4 cr4, MovCr 0 cr0]" "list_all paging_event es"
    and apic: "apic_table D T m2" and pdes: "\<forall>i < 1024. i \<noteq> 1019 \<longrightarrow> pde D m2 i = kernel_pde (load32 m (kernel_end k)) i"
    and out': "\<And>x. \<not> in_range b 12 x \<Longrightarrow> \<not> in_range D 4096 x \<Longrightarrow> \<not> in_range T 40960 x \<Longrightarrow> m2 x = m1 x"
    using entry_high_effect [of k m1 b r1 scratch' s1, folded D_def T_def] ok(5,6,14-16,19,20) one(3) unfolding bound by blast
  have "gdt_flat k m2"
    using one(4) out' ok(2,10,11) by (elim gdt_flat_kept) (auto simp: apart_iff)
  moreover have "gdtr (trace s2) = (80, gdt_table k)" "idtr (trace s2) = (2039, idt_table k)"
    unfolding two(9) table_registers_kept [OF two(10)] by (simp_all add: one(7) gdtr_def idtr_def)
  moreover have "loaded 3 (trace s2) = Some D"
    using loaded_simps(2) [of 3 "trace s1 @ es @ [MovCr 3 D, MovCr 4 cr4]" 0 cr0] loaded_simps(2) [of 3 "trace s1 @ es @ [MovCr 3 D]" 4 cr4]
      loaded_simps(2) [of 3 "trace s1 @ es" 3 D] by (simp add: two(9))
  moreover have "calls_kmain k scratch scratch' (r, m, s) = Some (fst scratch', ebx r + KERNEL_CONFIG_VMA, m2, s2)"
    by (simp add: calls_kmain_def one(1,2) two(1,2,3) del: One_nat_def)
  moreover have "m2 x = m x" if "list_all (\<lambda>(a, n). \<not> in_range a n x) (regions k)" for x
    using that out out' by (simp add: regions_def b_def D_def T_def)
  ultimately show ?thesis using one(5,6,8) two(4-8) apic pdes by metis
qed

text \<open>C4. The entry code calls \<open>kmain\<close> with the machine it was written for: CR3 holds the kernel's
  directory, the translation is the kernel's half and the two APIC pages, the descriptor table
  in force is the flat one and still in memory after \<open>paging_init\<close>, the interrupt table is in
  force and filled by \<open>idt_init\<close>, and memory outside its tables and stack is the loader's. The
  second argument is the loader's information structure in the kernel's half. The first one is
  not the loader's magic number but the value \<open>paging_init\<close> left in \<open>eax\<close>.\<close>

theorem entry_calls_kmain:
  fixes r :: idt_registers and m :: mem and s :: "'a acpi_scheme" and k :: boot
  defines "D \<equiv> page_directory (kernel_image k) - KERNEL_CONFIG_VMA" and "T \<equiv> page_tables (kernel_image k) - KERNEL_CONFIG_VMA"
  assumes "boot_ok k m" "loader_state s"
  shows "\<exists>m' s' (u :: 'a acpi_scheme).
    calls_kmain k scratch scratch' (r, m, s) = Some (fst scratch', ebx r + KERNEL_CONFIG_VMA, m', s')
    \<and> loaded 3 (trace s') = Some D
    \<and> translate m' (trace s') = walk D m' \<and> (\<forall>x. walk D m' x = kernel_view (load32 m (kernel_end k)) x) \<and> tables_ok D T m'
    \<and> gdtr (trace s') = (80, gdt_table k) \<and> gdt_flat k m' \<and> idtr (trace s') = (2039, idt_table k)
    \<and> hw s' = hw s \<and> machine.more u = machine.more s \<and> machine.more s' = machine.more (idt_init (idt_table k) (stubs k) u)
    \<and> (\<forall>x. list_all (\<lambda>(a, n). \<not> in_range a n x) (regions k) \<longrightarrow> m' x = m x)"
  using boot_effect [OF assms(3,4), of scratch scratch' r] unfolding D_def T_def by metis

text \<open>C2. The kernel as a whole: from the loader's state, through the entry code and \<open>kmain\<close>, and after
  any sequence of interrupts in the idle loop, keyboard and mouse have their handlers, each
  interrupt served has been acknowledged once at the local APIC, and every further interrupt of
  a device is served, acknowledged once and leaves the tables as they are, or it is the power
  button that stops the processor.\<close>

theorem boot_serves:
  fixes s t w :: "'a acpi_scheme"
  assumes "boot_ok k m" "loader_state s" "start k scratch scratch' (r, m, s) = Some (m', t)"
    and "idle (page_directory (kernel_image k) - KERNEL_CONFIG_VMA) m' t vs w"
  shows "idt_gate_callback w 33 = Kbd_irq_handler \<and> idt_gate_callback w 44 = Mouse_irq_handler
    \<and> eois (lapic_base t) (trace w) = length vs + eois (lapic_base t) (trace t)
    \<and> (\<forall>v r e f. 32 \<le> v \<and> v < 255 \<longrightarrow>
        (\<exists>x. dispatch (page_directory (kernel_image k) - KERNEL_CONFIG_VMA) m' v r e f w = Returned x \<and> served w x)
        \<or> idt_gate_callback w (unat v) = Acpi_interrupt_handler_power
          \<and> (\<exists>x. dispatch (page_directory (kernel_image k) - KERNEL_CONFIG_VMA) m' v r e f w = Halted x))"
proof -
  obtain m0 s0 and u :: "'a acpi_scheme"
    where run: "kmain (kernel_image k) (fst scratch') (ebx r + KERNEL_CONFIG_VMA) m0 s0 = Some (m', t)"
      and more: "machine.more s0 = machine.more (idt_init (idt_table k) (stubs k) u)"
    using boot_effect [OF assms(1,2), of scratch scratch' r] assms(3) by (auto simp: start_def)
  obtain p :: "'a acpi_scheme" where p: "power_slots s0 p"
    "idt_gate_callback t = (idt_gate_callback p)(33 := Kbd_irq_handler, 44 := Mouse_irq_handler)"
    using kmain_callbacks [OF run] by blast
  have "power_slots (idt_init (idt_table k) (stubs k) u) p"
    using p(1) by (simp add: power_slots_def callback_more [OF more])
  note serviced = kmain_serviced [OF this p(2)]
  note inv = idle_invariant [OF assms(4) serviced]
  have "idt_gate_callback w 33 = Kbd_irq_handler" "idt_gate_callback w 44 = Mouse_irq_handler"
    using inv p(2) by simp_all
  moreover have "idt_gate_callback w = idt_gate_callback t" using inv by simp
  ultimately show ?thesis using inv idle_next [OF assms(4) serviced] by metis
qed


section \<open>Examples\<close>

text \<open>A kernel whose tables lie in the first megabyte, a root pointer at the start of the extended BIOS
  data area, an empty root table at 3 MB, a screen of 80 by 25 and one format of \<open>printk\<close>.\<close>

definition example_boot :: boot where
  "example_boot = \<lparr>kernel_image = example_image, stack_top = 0xC0040000, entry_page_directory = 0xC0020000,
     gdt_table = 0xC0030000, gdt_pointer = 0xC0030100, idt_table = 0xC0060000, stubs = \<lambda>i. 0xC0070000 + of_nat (32 * i),
     kernel_end = 0x50000, column_at = 0xC0051000, row_at = 0xC0051004\<rparr>"

definition boot_cells :: "(u32 \<times> u8) list" where
  "boot_cells = place 0x40E [0x01, 0xE0] @ place 0x200000 (chars ''RSD PTR '') @ place 0xE0010 (chars ''RSD PTR '')
     @ place 0xE0022 [0x30] @ place 0x300004 [36] @ place 0x44A [80] @ place 0x484 [24]
     @ place 0x80000 (chars ''Int %u, esp 0x%x || '')"

text \<open>Memory with the directory of the entry code in it.\<close>

definition directory_at :: "u32 \<Rightarrow> mem \<Rightarrow> mem" where
  "directory_at E m x = (if in_range E 4096 x
     then ucast (drop_bit (8 * (unat (x - E) mod 4)) (entry_pde (unat (x - E) div 4))) else m x)"

definition boot_memory :: mem where
  "boot_memory = directory_at 0x20000 (memory_of boot_cells)"

lemmas boot_memory_eq = boot_memory_def directory_at_def

lemma load32_bytes:
  assumes "\<And>j. j < 4 \<Longrightarrow> m (a + of_nat j) = ucast (drop_bit (8 * j) v)"
  shows "load32 m a = v"
proof -
  have "m a = ucast v" "m (a + 1) = ucast (drop_bit 8 v)" "m (a + 2) = ucast (drop_bit 16 v)" "m (a + 3) = ucast (drop_bit 24 v)"
    using assms [of 0] assms [of 1] assms [of 2] assms [of 3] by simp_all
  then show ?thesis unfolding load32_def
  proof (intro bit_word_eqI)
    fix n :: nat assume n: "n < LENGTH(32)"
    then consider "n < 8" | "8 \<le> n" "n < 16" | "16 \<le> n" "n < 24" | "24 \<le> n" "n < 32" by fastforce
    then show "bit (ucast (m a) OR push_bit 8 (ucast (m (a + 1))) OR push_bit 16 (ucast (m (a + 2)))
        OR push_bit 24 (ucast (m (a + 3))) :: u32) n = bit v n"
      using \<open>m a = _\<close> \<open>m (a + 1) = _\<close> \<open>m (a + 2) = _\<close> \<open>m (a + 3) = _\<close>
      by cases (auto simp: bit_simps)
  qed
qed

lemma boot_directory: "i < 1024 \<Longrightarrow> pde E (directory_at E m) i = entry_pde i"
  unfolding pde_def
proof (rule load32_bytes)
  fix j :: nat assume "i < 1024" "j < 4"
  have "E + of_nat (4 * i) + of_nat j - E = of_nat (4 * i + j)" by simp
  moreover have "unat (of_nat (4 * i + j) :: u32) = 4 * i + j"
    by (rule unat_of_nat32) (use \<open>i < 1024\<close> \<open>j < 4\<close> in simp)
  ultimately have u: "unat (E + of_nat (4 * i) + of_nat j - E) = 4 * i + j" by (simp only:)
  have "4 * i + j < 4096" "(4 * i + j) mod 4 = j" "(4 * i + j) div 4 = i" using \<open>i < 1024\<close> \<open>j < 4\<close> by simp_all
  then show "directory_at E m (E + of_nat (4 * i) + of_nat j) = ucast (drop_bit (8 * j) (entry_pde i))"
    by (simp only: directory_at_def in_range_def u if_True)
qed

lemma example_boot_ok: "boot_ok example_boot boot_memory" "loader_state example_machine"
proof -
  have "load32 (memory_of boot_cells) 0x50000 = 0" by code_simp
  then have "load32 boot_memory 0x50000 = 0" by (simp add: load32_def boot_memory_eq in_range_def)
  moreover have "spaced (regions example_boot)"
    by (simp add: regions_def example_boot_def example_image_def apart_def)
  moreover have "placed 0x1000 0x10000" by (simp add: placed_def aligned_def apart_def)
  ultimately show "boot_ok example_boot boot_memory"
    by (simp add: boot_ok_def example_boot_def example_image_def list_all_iff boot_directory aligned_def boot_memory_def)
  show "loader_state example_machine"
    by (simp add: loader_state_def example_machine_def example_acpi_def read_cr_def ioapic_machine_def quiet_def)
qed


text \<open>The memory the example hands to \<open>kmain\<close>.\<close>

definition example_handed :: "mem \<Rightarrow> bool" where
  "example_handed m \<longleftrightarrow> (\<forall>x. walk 0x1000 m x = kernel_view 0 x) \<and> tables_ok 0x1000 0x10000 m \<and> pde 0x1000 m 768 = 0x83
     \<and> list_all (\<lambda>x. m x = memory_of boot_cells x) ([0x40E, 0x40F] @ map ((+) 0x200000) [0, 1, 2, 3, 4, 5, 6, 7]
          @ map ((+) 0xE0010) [0, 1, 2, 3, 4, 5, 6, 7, 16, 17, 18, 19] @ [0x300004, 0x300005, 0x300006, 0x300007])"

lemma boot_handed:
  obtains m' s' where "start example_boot scratch scratch' (r, boot_memory, example_machine)
      = kmain example_image (fst scratch') (ebx r + KERNEL_CONFIG_VMA) m' s'"
    "hw s' = hw example_machine" "example_handed m'" "idt_gate_callback s' 14 = Idt_exception_handler"
proof -
  have D: "page_directory example_image - KERNEL_CONFIG_VMA = 0x1000"
    "page_tables example_image - KERNEL_CONFIG_VMA = 0x10000" "kernel_end example_boot = 0x50000"
    "kernel_image example_boot = example_image" by (simp_all add: example_boot_def example_image_def)
  have "load32 (memory_of boot_cells) 0x50000 = 0" by code_simp
  then have ke: "load32 boot_memory 0x50000 = 0" by (simp add: load32_def boot_memory_eq in_range_def)
  obtain m' s' and u :: acpi where m': "calls_kmain example_boot scratch scratch' (r, boot_memory, example_machine)
      = Some (fst scratch', ebx r + KERNEL_CONFIG_VMA, m', s')" "hw s' = hw example_machine"
    "\<forall>x. walk 0x1000 m' x = kernel_view 0 x" "tables_ok 0x1000 0x10000 m'"
    "\<forall>i < 1024. i \<noteq> 1019 \<longrightarrow> pde 0x1000 m' i = kernel_pde 0 i"
    "\<forall>x. list_all (\<lambda>(a, n). \<not> in_range a n x) (regions example_boot) \<longrightarrow> m' x = boot_memory x"
    "machine.more s' = machine.more (idt_init (idt_table example_boot) (stubs example_boot) u)"
    using boot_effect [OF example_boot_ok, of scratch scratch' r] unfolding D ke by blast
  have "list_all (\<lambda>x. list_all (\<lambda>(a, n). \<not> in_range a n x) (regions example_boot) \<and> \<not> in_range 0x20000 4096 x)
    ([0x40E, 0x40F] @ map ((+) 0x200000) [0, 1, 2, 3, 4, 5, 6, 7] @ map ((+) 0xE0010) [0, 1, 2, 3, 4, 5, 6, 7, 16, 17, 18, 19]
      @ [0x300004, 0x300005, 0x300006, 0x300007])"
    by (simp add: regions_def example_boot_def example_image_def in_range_def)
  then have "list_all (\<lambda>x. m' x = memory_of boot_cells x)
    ([0x40E, 0x40F] @ map ((+) 0x200000) [0, 1, 2, 3, 4, 5, 6, 7] @ map ((+) 0xE0010) [0, 1, 2, 3, 4, 5, 6, 7, 16, 17, 18, 19]
      @ [0x300004, 0x300005, 0x300006, 0x300007])"
    by (rule list.pred_mono_strong) (use m'(6) in \<open>simp add: boot_memory_eq\<close>)
  moreover have "pde 0x1000 m' 768 = 0x83" using m'(5) by (simp add: kernel_pde_def)
  ultimately have "example_handed m'" using m'(3,4) by (simp only: example_handed_def simp_thms)
  moreover have "idt_gate_callback s' 14 = Idt_exception_handler"
    using idt_init_exception [of 14] by (simp add: callback_more [OF m'(7)] reserved_def)
  ultimately show thesis using that m'(2) by (simp add: start_def m'(1) D)
qed

lemma handed_linear:
  assumes "example_handed m" "0xC0000000 \<le> x" "x < 0xC0400000"
  shows "mapped 0x1000 m x" "lin 0x1000 m x = m (x - KERNEL_CONFIG_VMA)"
proof -
  have "unat (x - KERNEL_CONFIG_VMA) < 0x400000" using assms(2,3) by (simp add: unat_sub word_le_nat_alt word_less_nat_alt)
  then have "x - KERNEL_CONFIG_VMA < 0x400000" by (simp add: word_less_nat_alt)
  from kernel_view_stack [OF this, of 0] have "walk 0x1000 m x = Some (x - KERNEL_CONFIG_VMA)"
    using assms(1) by (simp add: example_handed_def)
  then show "mapped 0x1000 m x" "lin 0x1000 m x = m (x - KERNEL_CONFIG_VMA)" by (simp_all add: mapped_def lin_def)
qed

lemma handed_cells:
  assumes "example_handed m"
  shows "m 0x40E = 1" "m 0x40F = 0xE0" "load32 m 0xE0020 = 0x300000" "load32 m 0x300004 = 36"
    "\<forall>i < 8. m (0x200000 + of_nat i) = m (0xE0010 + of_nat i)"
proof -
  have "list_all (\<lambda>x. m x = memory_of boot_cells x) ([0x40E, 0x40F] @ map ((+) 0x200000) [0, 1, 2, 3, 4, 5, 6, 7]
          @ map ((+) 0xE0010) [0, 1, 2, 3, 4, 5, 6, 7, 16, 17, 18, 19] @ [0x300004, 0x300005, 0x300006, 0x300007])"
    using assms by (simp only: example_handed_def)
  note cells = this [simplified]
  have vals: "memory_of boot_cells 0x40E = 1" "memory_of boot_cells 0x40F = 0xE0" "load32 (memory_of boot_cells) 0xE0020 = 0x300000"
    "load32 (memory_of boot_cells) 0x300004 = 36"
    "list_all (\<lambda>i. memory_of boot_cells (0x200000 + i) = memory_of boot_cells (0xE0010 + i)) [0, 1, 2, 3, 4, 5, 6, 7]"
    by code_simp+
  show "m 0x40E = 1" "m 0x40F = 0xE0" "load32 m 0xE0020 = 0x300000" "load32 m 0x300004 = 36"
    using cells vals(1-4) by (simp_all add: load32_def)
  have "i = 0 \<or> i = 1 \<or> i = 2 \<or> i = 3 \<or> i = 4 \<or> i = 5 \<or> i = 6 \<or> i = 7" if "i < 8" for i :: nat using that by linarith
  then show "\<forall>i < 8. m (0x200000 + of_nat i) = m (0xE0010 + of_nat i)" using cells vals(5) by fastforce
qed


lemma handed_store:
  assumes "example_handed m" "a = 0xC00 \<or> a = 0xC04" shows "example_handed (store32 m a v)"
proof -
  have far: "store32 m a v x = m x" if "0xC08 \<le> x \<or> x < 0xC00" for x
  proof (rule quad.st_other)
    have "unat x < 0xC00 \<or> 0xC08 \<le> unat x" using that by (auto simp: word_le_nat_alt word_less_nat_alt)
    then show "\<not> in_range a 4 x" using assms(2) by (auto simp: in_range_def unat_sub_if')
  qed
  have "store32 m a v x = m x" if "in_range 0x1000 4096 x \<or> in_range 0x10000 40960 x" for x
  proof (rule far)
    have "0x1000 \<le> unat x" using that by (auto simp: in_range_def unat_sub_if' split: if_splits)
    then show "0xC08 \<le> x \<or> x < 0xC00" by (simp add: word_le_nat_alt)
  qed
  moreover have "placed 0x1000 0x10000" by (simp add: placed_def aligned_def apart_def)
  moreover have "tables_ok 0x1000 0x10000 m" using assms(1) by (simp add: example_handed_def)
  ultimately have kept: "walk 0x1000 (store32 m a v) x = walk 0x1000 m x" "tables_ok 0x1000 0x10000 (store32 m a v)"
    "pde 0x1000 (store32 m a v) 768 = pde 0x1000 m 768" for x
    using directory_kept [of "0x1000" "0x10000" m "store32 m a v"] by simp_all
  with assms(1) show ?thesis by (simp add: example_handed_def far)
qed

lemma handed_map:
  assumes "example_handed m" "y = 0xC0300000 \<or> y = 0xC0301000"
  shows "example_handed (fst (paging_map_4kb 0xC0001000 0xC0010000 p y 3 m s))"
proof -
  have idx: "di y = 768" "4 * ti y = 0xC00 \<or> 4 * ti y = 0xC04" using assms(2) by (auto simp: di_def ti_def)
  have e: "pde 0x1000 m 768 = 0x83" using assms(1) by (simp add: example_handed_def)
  have "fst (paging_map_4kb (0x1000 + KERNEL_CONFIG_VMA) (0x10000 + KERNEL_CONFIG_VMA) p y 3 m s)
      = store32 m (0 + of_nat (4 * ti y)) ((p AND 0xFFFFF000) OR 3)"
    using map_4kb_entry [of "0x1000" m y "0x10000" p 3 s] by (simp add: idx(1) e)
  then show ?thesis using handed_store [OF assms(1)] idx(2) by auto
qed

lemma handed_remapped:
  "example_handed m \<Longrightarrow> example_handed (fst (rsdt_mapped 0xC0001000 0xC0010000 0x300000 m s))"
  by (simp add: rsdt_mapped_def Let_def split_beta handed_map)

lemma handed_rsdp:
  assumes "example_handed m" shows "acpi_find_rsdp 0x1000 m 0xC0200000 = Some 0xC00E0010"
proof -
  note at = handed_linear [OF assms] and cells = handed_cells [OF assms]
  have below: "unat (of_nat i :: u32) = i" "0xC0000000 \<le> 0xC00E0010 + (of_nat i :: u32)" "0xC00E0010 + (of_nat i :: u32) < 0xC0400000"
    "0xC0000000 \<le> 0xC0200000 + (of_nat i :: u32)" "0xC0200000 + (of_nat i :: u32) < 0xC0400000" if "i < 8" for i
    using that by (simp_all add: word_le_nat_alt word_less_nat_alt unat_word_ariths unat_of_nat take_bit_eq_mod)
  have "rd16 0x1000 m (0x40E + KERNEL_CONFIG_VMA) = Some 0xE001"
    by (simp add: rd16_def at load16_def cells)
  moreover have "legible 0x1000 m 8 0xC00E0010" "legible 0x1000 m 8 0xC0200000"
    using below at(1) by (auto simp: legible_def list_all_iff)
  then obtain c where c: "rdcmp 0x1000 m 0xC00E0010 0xC0200000 8 = Some c" using rdcmp_legible by blast
  have "signed_at 0x1000 m 0xC0200000 0xC00E0010"
    unfolding signed_at_def list_all_iff using below at(2) cells(5) by auto
  then have "acpi_scan 0x1000 m 0xC0200000 0xC00E0010 0xC00E0410 = Some (Some 0xC00E0010)"
    using c rdcmp_signed [OF c] by (subst acpi_scan.simps) simp
  ultimately show ?thesis by (simp add: acpi_find_rsdp_def)
qed

lemma boot_reaches_idle:
  obtains m' t where "start example_boot scratch (0x80000011, c, d) (r, boot_memory, example_machine) = Some (m', t)"
    "idt_gate_callback t 14 = Idt_exception_handler"
proof -
  obtain m' s' where m': "start example_boot scratch (0x80000011, c, d) (r, boot_memory, example_machine)
      = kmain example_image 0x80000011 (ebx r + KERNEL_CONFIG_VMA) m' s'" "hw s' = hw example_machine" "example_handed m'" "idt_gate_callback s' 14 = Idt_exception_handler"
    using boot_handed [of scratch "(0x80000011, c, d)" r] by auto
  define m2 where "m2 = fst (rsdt_mapped 0xC0001000 0xC0010000 0x300000 m' s')"
  have h2: "example_handed m2" unfolding m2_def by (rule handed_remapped [OF m'(3)])
  have "\<exists>t. kmain example_image 0x80000011 (ebx r + KERNEL_CONFIG_VMA) m' s' = Some (m2, t) \<and> (\<forall>i. idt_gate_callback t i = (if i = 33 then Kbd_irq_handler
      else if i = 44 then Mouse_irq_handler
      else if list_ex (claims_slot 0x1000 m2 i) (fadts 0x1000 m2 (facp_literal example_image) (0x300000 + KERNEL_CONFIG_VMA + 36) 0)
        then Acpi_interrupt_handler_power else idt_gate_callback s' i))"
  proof (rule reaches_idle [where D = "0x1000" and rsdp = "0xC00E0010" and rsdt = "0x300000" and n = 0])
    show "acpi_find_rsdp 0x1000 m' (rsd_ptr_literal example_image) = Some 0xC00E0010" by (simp add: handed_rsdp [OF m'(3)])
    show "rd32 0x1000 m' (0xC00E0010 + 16) = Some 0x300000"
      using handed_cells(3) [OF m'(3)] by (simp add: rd32_def handed_linear [OF m'(3)] load32_def)
    show "rd32 0x1000 m2 (0x300000 + KERNEL_CONFIG_VMA + 4) = Some (of_nat (36 + 4 * 0))"
      using handed_cells(4) [OF h2] by (simp add: rd32_def handed_linear [OF h2] load32_def)
    show "legible 0x1000 m2 4 (facp_literal example_image)"
      by (simp add: legible_def handed_linear [OF h2] upt_conv_Cons)
    show "m2 = fst (rsdt_mapped (page_directory example_image) (page_tables example_image) 0x300000 m' s')"
      by (simp add: m2_def example_image_def)
  qed (simp_all add: m'(2) legible_def)
  then obtain t where t: "kmain example_image 0x80000011 (ebx r + KERNEL_CONFIG_VMA) m' s' = Some (m2, t)"
    "idt_gate_callback t 14 = Idt_exception_handler"
    using m'(4) by (elim exE conjE allE [where x = 14]) (simp add: fadts_def)
  show thesis using that [of m2 t] m'(1) t by simp
qed

text \<open>The loader's magic number is in \<open>eax\<close>; \<open>paging_init\<close> leaves the value of CR0 there.\<close>

lemma entry_calls_kmain_witness:
  "\<exists>m' s'. calls_kmain example_boot (0, 0, 0) (0x80000011, 0, 0)
      (idt_registers.make 0 0 0 0 0x9500 0 0 0x2BADB002, boot_memory, example_machine) = Some (0x80000011, 0xC0009500, m', s')
     \<and> gdtr (trace s') = (80, 0xC0030000) \<and> (\<forall>x. translate m' (trace s') x = walk 0x1000 m' x)"
proof -
  have "kernel_image example_boot = example_image" "gdt_table example_boot = 0xC0030000"
    "page_directory example_image - KERNEL_CONFIG_VMA = 0x1000" "ebx (idt_registers.make 0 0 0 0 0x9500 0 0 0x2BADB002) = 0x9500"
    by (simp_all add: example_boot_def idt_registers.make_def)
  then show ?thesis
    using entry_calls_kmain [OF example_boot_ok, of "(0, 0, 0)" "(0x80000011, 0, 0)" "idt_registers.make 0 0 0 0 0x9500 0 0 0x2BADB002"]
    by simp metis
qed

lemma boot_serves_witness:
  "\<exists>m' t w. start example_boot (0, 0, 0) (0x80000011, 0, 0)
      (idt_registers.make 0 0 0 0 0x9500 0 0 0x2BADB002, boot_memory, example_machine) = Some (m', t)
     \<and> dispatch 0x1000 m' 33 (idt_registers.make 0 0 0 0 0 0 0 0) 0 (idt_cpu_frame.make 0 8 0x202) t = Returned w \<and> served t w"
proof -
  obtain m' t where t: "start example_boot (0, 0, 0) (0x80000011, 0, 0)
      (idt_registers.make 0 0 0 0 0x9500 0 0 0x2BADB002, boot_memory, example_machine) = Some (m', t)"
    by (rule boot_reaches_idle)
  have D: "page_directory (kernel_image example_boot) - KERNEL_CONFIG_VMA = 0x1000" by (simp add: example_boot_def)
  note serves = boot_serves [OF example_boot_ok t idle.start, unfolded D]
  have "32 \<le> (33 :: u32) \<and> (33 :: u32) < 255" by simp
  then have "(\<exists>w. dispatch 0x1000 m' 33 (idt_registers.make 0 0 0 0 0 0 0 0) 0 (idt_cpu_frame.make 0 8 0x202) t = Returned w
      \<and> served t w) \<or> idt_gate_callback t (unat (33 :: u32)) = Acpi_interrupt_handler_power"
    using serves by blast
  moreover have "idt_gate_callback t (unat (33 :: u32)) = Kbd_irq_handler" using serves by simp
  ultimately show ?thesis using t by auto
qed

end
