(* ===== verification/KlibStdio.thy ===== *)
theory KlibStdio
  imports KlibString
begin

text \<open>
  klib/stdio.c (\<open>vsprintf\<close>) with the argument access of klib/stdarg.h. The model reads
  the format, the arguments and the strings they point to from memory and writes the
  result there, byte by byte, as the code does.

  The reference is \<open>format\<close>, a function of the format's characters and a list of argument
  values; \<open>vsprintf\<close> computes it when the destination was zeroed before, which
  \<open>printk\<close> does, and a theorem shows what happens when it was not.
\<close>

unbundle bit_operations_syntax

section \<open>The code\<close>

text \<open>\<open>va_arg(list,type)\<close> for the 4-byte types the code asks for: the list moves on by 4 and
  the element before it is read.\<close>

definition va_arg :: "mem \<Rightarrow> u32 \<Rightarrow> u32 \<times> u32" where
  "va_arg m list = (let list' = list + 4 in (load32 m (list' - 4), list'))"

text \<open>
  The loop over the format; characters as their codes: 37 is \<open>%\<close>, 115 \<open>s\<close>, 117 \<open>u\<close>,
  100 \<open>d\<close>, 120 \<open>x\<close>. In the \<open>s\<close> case the test \<open>*tmp == '\0'\<close> looks at the byte after the
  copied NUL.
\<close>

partial_function (option) vsprintf_loop ::
  "mem \<Rightarrow> u32 \<Rightarrow> u32 \<Rightarrow> u32 \<Rightarrow> (mem \<times> u32) option" where
  "vsprintf_loop m fmt tmp ap =
     (if m fmt \<noteq> 0 then
        if m fmt = 37 \<and> m (fmt + 1) \<noteq> 0 then
          if m (fmt + 1) = 115 then
            Option.bind (strcpy_loop m tmp (fst (va_arg m ap))) (\<lambda>(m', tmp').
              vsprintf_loop m' (fmt + 1 + 1) (if m' tmp' = 0 then tmp' - 1 else tmp')
                (snd (va_arg m ap)))
          else if m (fmt + 1) = 117 then
            Option.bind (strfromu m (fst (va_arg m ap)) tmp) (\<lambda>(len, m').
              vsprintf_loop m' (fmt + 1 + 1) (tmp + len) (snd (va_arg m ap)))
          else if m (fmt + 1) = 100 then
            Option.bind (strfromd m (fst (va_arg m ap)) tmp) (\<lambda>(len, m').
              vsprintf_loop m' (fmt + 1 + 1) (tmp + len) (snd (va_arg m ap)))
          else if m (fmt + 1) = 120 then
            Option.bind (strhex m (fst (va_arg m ap)) tmp) (\<lambda>(len, m').
              vsprintf_loop m' (fmt + 1 + 1) (tmp + len) (snd (va_arg m ap)))
          else vsprintf_loop m (fmt + 1 + 1) tmp ap
        else vsprintf_loop (m(tmp := m fmt)) (fmt + 1) (tmp + 1) ap
      else Some (m, tmp))"

definition vsprintf :: "mem \<Rightarrow> u32 \<Rightarrow> u32 \<Rightarrow> u32 \<Rightarrow> (u32 \<times> mem) option" where
  "vsprintf m dst fmt ap =
     map_option (\<lambda>(m', tmp). (tmp - dst, m'(tmp := 0))) (vsprintf_loop m fmt dst ap)"

section \<open>The reference: formatting a list of values\<close>

definition conv_text :: "u8 \<Rightarrow> u32 \<Rightarrow> u8 list" where
  "conv_text d n = (if d = 117 then dec_text (unat n)
     else if d = 100 then int_text (sint n) else hex_text (unat n))"

text \<open>
  A \<open>%\<close> at the very end is an ordinary character, and a directive the code does not know
  (\<open>%%\<close> among them) prints nothing.
\<close>

fun format :: "u8 list \<Rightarrow> arg list \<Rightarrow> u8 list" where
  "format [] as = []"
| "format [c] as = [c]"
| "format (c # d # f) as =
     (if c \<noteq> 37 then c # format (d # f) as
      else if d = 115 then
        (case as of Str s # as' \<Rightarrow> s @ format f as' | _ \<Rightarrow> [])
      else if d \<in> {117, 100, 120} then
        (case as of Num n # as' \<Rightarrow> conv_text d n @ format f as' | _ \<Rightarrow> [])
      else format f as)"

text \<open>The arguments have the number and the types the format's directives ask for.\<close>

fun fits :: "u8 list \<Rightarrow> arg list \<Rightarrow> bool" where
  "fits (c # d # f) as =
     (if c \<noteq> 37 then fits (d # f) as
      else if d = 115 then (case as of Str s # as' \<Rightarrow> fits f as' | _ \<Rightarrow> False)
      else if d \<in> {117, 100, 120} then (case as of Num n # as' \<Rightarrow> fits f as' | _ \<Rightarrow> False)
      else fits f as)"
| "fits _ as = True"

text \<open>
  The arguments in memory at \<open>ap\<close>, as a caller pushed them, none of them (nor the strings
  they point to) in the buffer of \<open>n\<close> bytes at \<open>b\<close>.
\<close>

fun vargs :: "mem \<Rightarrow> u32 \<Rightarrow> nat \<Rightarrow> u32 \<Rightarrow> arg list \<Rightarrow> bool" where
  "vargs m b n ap [] \<longleftrightarrow> True"
| "vargs m b n ap (a # as) \<longleftrightarrow> apart b n ap 4 \<and>
     (case a of Num w \<Rightarrow> load32 m ap = w
      | Str s \<Rightarrow> cstr m (load32 m ap) s \<and> apart b n (load32 m ap) (Suc (length s))) \<and>
     vargs m b n (ap + 4) as"

definition fmt_at :: "mem \<Rightarrow> u32 \<Rightarrow> nat \<Rightarrow> u32 \<Rightarrow> u8 list \<Rightarrow> bool" where
  "fmt_at m b n fmt f \<longleftrightarrow> cstr m fmt f \<and> apart b n fmt (Suc (length f))"

definition zeroed :: "mem \<Rightarrow> u32 \<Rightarrow> nat \<Rightarrow> bool" where
  "zeroed m b n \<longleftrightarrow> (\<forall>i < n. m (b + of_nat i) = 0)"

section \<open>Writing part of the buffer\<close>

text \<open>Writing \<open>t\<close> at the start of the buffer leaves everything else as it was, and the rest
  of the buffer zeroed.\<close>

lemma apart_rest:
  assumes "apart b n a k" and "length t + n' \<le> n" and "n \<le> 2 ^ 32" and "0 < n'"
  shows "apart (b + of_nat (length t)) n' a k"
  using assms by (intro apart_shift [of b n]) auto

lemma put_bytes_apart:
  "apart b n a k \<Longrightarrow> length t \<le> n \<Longrightarrow> in_range a k x \<Longrightarrow> put_bytes m b t x = m x"
  by (rule put_bytes_other) (auto simp: apart_iff intro: in_range_mono)

lemma cstr_put_apart:
  "cstr m a s \<Longrightarrow> apart b n a (Suc (length s)) \<Longrightarrow> length t \<le> n \<Longrightarrow> cstr (put_bytes m b t) a s"
  by (erule cstr_cong) (rule put_bytes_apart)

lemma load32_put_apart:
  "apart b n a 4 \<Longrightarrow> length t \<le> n \<Longrightarrow> load32 (put_bytes m b t) a = load32 m a"
  by (rule quad.ld_cong) (rule put_bytes_apart)

lemma vargs_put:
  assumes "length t + n' \<le> n" "n \<le> 2 ^ 32" "0 < n'"
  shows "vargs m b n ap as \<Longrightarrow> vargs (put_bytes m b t) (b + of_nat (length t)) n' ap as"
proof (induction as arbitrary: ap)
  case (Cons a as)
  then show ?case
    using assms by (auto simp: load32_put_apart cstr_put_apart apart_rest split: arg.splits)
qed simp

lemma fmt_at_put:
  assumes "length t + n' \<le> n" "n \<le> 2 ^ 32" "0 < n'" and "fmt_at m b n fmt f"
  shows "fmt_at (put_bytes m b t) (b + of_nat (length t)) n' fmt f"
  using assms by (auto simp: fmt_at_def cstr_put_apart apart_rest)

lemma fmt_at_Cons:
  assumes "fmt_at m b n fmt (c # f)"
  shows "m fmt = c" "c \<noteq> 0" "fmt_at m b n (fmt + 1) f"
proof -
  show "m fmt = c" "c \<noteq> 0" using assms by (simp_all add: fmt_at_def)
  have "apart (fmt + of_nat 1) (Suc (length f)) b n"
    using assms by (intro apart_shift [of fmt "Suc (length (c # f))"])
      (simp_all add: fmt_at_def apart_commute)
  then show "fmt_at m b n (fmt + 1) f"
    using assms by (simp add: fmt_at_def apart_commute)
qed

lemma fmt_at_Nil: "fmt_at m b n fmt [] \<Longrightarrow> m fmt = 0"
  by (simp add: fmt_at_def)

lemma zeroed_put:
  assumes "length t + n' \<le> n" "n \<le> 2 ^ 32" "zeroed m b n"
  shows "zeroed (put_bytes m b t) (b + of_nat (length t)) n'"
  unfolding zeroed_def
proof (intro allI impI)
  fix i assume i: "i < n'"
  have pos: "b + of_nat (length t) + of_nat i = b + of_nat (length t + i)" by (simp add: add.assoc)
  have "put_bytes m b t (b + of_nat (length t + i)) = m (b + of_nat (length t + i))"
    using assms i by (intro put_bytes_other) (simp del: of_nat_add)
  also have "\<dots> = 0" using assms i by (simp add: zeroed_def del: of_nat_add)
  finally show "put_bytes m b t (b + of_nat (length t) + of_nat i) = 0" unfolding pos .
qed

text \<open>On a zeroed buffer, a text and its NUL are the text alone.\<close>

lemma put_text_NUL:
  assumes "length t < n" "n \<le> 2 ^ 32" "zeroed m b n"
  shows "put_bytes m b (t @ [0]) = put_bytes m b t"
proof -
  have "m(b + of_nat (length t) := 0) = m"
    using assms by (intro fun_upd_idem) (simp add: zeroed_def)
  with assms show ?thesis by (simp add: put_bytes_snoc)
qed

section \<open>The loop computes the reference\<close>

lemma vsprintf_loop_end: "m fmt = 0 \<Longrightarrow> vsprintf_loop m fmt tmp ap = Some (m, tmp)"
  by (subst vsprintf_loop.simps) simp

lemma vsprintf_loop_char:
  assumes "m fmt = c" "c \<noteq> 0" "c \<noteq> 37 \<or> m (fmt + 1) = 0"
  shows "vsprintf_loop m fmt tmp ap = vsprintf_loop (put_bytes m tmp [c]) (fmt + 1) (tmp + 1) ap"
  using assms by (subst vsprintf_loop.simps) (auto simp: put_bytes_Cons)

lemma vsprintf_loop_skip:
  assumes "m fmt = 37" "m (fmt + 1) = d" "d \<noteq> 0" "d \<notin> {115, 117, 100, 120}"
  shows "vsprintf_loop m fmt tmp ap = vsprintf_loop m (fmt + 1 + 1) tmp ap"
  using assms by (subst vsprintf_loop.simps) auto

lemma vsprintf_loop_num:
  assumes "m fmt = 37" "m (fmt + 1) = d" "d \<in> {117, 100, 120}" "load32 m ap = n"
  shows "vsprintf_loop m fmt tmp ap
    = vsprintf_loop (put_bytes m tmp (conv_text d n @ [0])) (fmt + 1 + 1)
        (tmp + of_nat (length (conv_text d n))) (ap + 4)"
  using assms
  by (subst vsprintf_loop.simps)
    (auto simp: va_arg_def Let_def conv_text_def strfromu_eq strfromd_eq strhex_eq)

lemma vsprintf_loop_str:
  assumes "m fmt = 37" "m (fmt + 1) = 115" "cstr m (load32 m ap) s"
    and "forward_ok tmp (load32 m ap) (Suc (length s))"
  shows "vsprintf_loop m fmt tmp ap
    = vsprintf_loop (put_bytes m tmp (s @ [0])) (fmt + 1 + 1)
        (if put_bytes m tmp (s @ [0]) (tmp + of_nat (Suc (length s))) = 0
         then tmp + of_nat (length s) else tmp + of_nat (Suc (length s))) (ap + 4)"
proof -
  have prev: "tmp + of_nat (Suc (length s)) - 1 = tmp + of_nat (length s)" by simp
  show ?thesis
    using assms by (subst vsprintf_loop.simps)
      (simp add: va_arg_def Let_def strcpy_loop_cstr prev del: of_nat_Suc)
qed

lemma length_conv_text: "length (conv_text d n) \<le> 33"
  using length_text [of n] by (auto simp: conv_text_def)

lemma put_bytes_format:
  assumes "length t + length out + 2 \<le> 2 ^ 32"
  shows "put_bytes (put_bytes m b t) (b + of_nat (length t)) out = put_bytes m b (t @ out)"
  using assms by (subst put_bytes_append) simp_all

text \<open>
  One step of the loop that writes the text \<open>t\<close> carries the situation of the start over to
  the rest of the format and of the buffer.
\<close>

definition printing :: "mem \<Rightarrow> u32 \<Rightarrow> u32 \<Rightarrow> u32 \<Rightarrow> u8 list \<Rightarrow> arg list \<Rightarrow> bool" where
  "printing m fmt tmp ap f as \<longleftrightarrow>
     (let n = length (format f as) + 2 in
      n \<le> 2 ^ 32 \<and> fits f as \<and> fmt_at m tmp n fmt f \<and> vargs m tmp n ap as \<and> zeroed m tmp n)"

lemma printing_put:
  assumes "printing m fmt0 tmp ap0 f0 as0" and "format f0 as0 = t @ format f as" and "fits f as"
    and "fmt_at m tmp (length (format f0 as0) + 2) fmt f"
    and "vargs m tmp (length (format f0 as0) + 2) ap as"
  shows "printing (put_bytes m tmp t) fmt (tmp + of_nat (length t)) ap f as"
proof -
  let ?n = "length (format f0 as0) + 2" and ?n' = "length (format f as) + 2"
  have len: "length t + ?n' \<le> ?n" "?n \<le> 2 ^ 32" "0 < ?n'" and zero: "zeroed m tmp ?n"
    using assms(1,2) by (simp_all add: printing_def Let_def)
  have "fmt_at (put_bytes m tmp t) (tmp + of_nat (length t)) ?n' fmt f"
    using len assms(4) by (rule fmt_at_put)
  moreover have "vargs (put_bytes m tmp t) (tmp + of_nat (length t)) ?n' ap as"
    using len assms(5) by (rule vargs_put)
  moreover have "zeroed (put_bytes m tmp t) (tmp + of_nat (length t)) ?n'"
    using len(1,2) zero by (rule zeroed_put)
  ultimately show ?thesis using len assms(3) by (simp add: printing_def Let_def)
qed

definition formats :: "u8 list \<Rightarrow> arg list \<Rightarrow> bool" where
  "formats f as \<longleftrightarrow> (\<forall>m fmt tmp ap. printing m fmt tmp ap f as \<longrightarrow> vsprintf_loop m fmt tmp ap
     = Some (put_bytes m tmp (format f as), tmp + of_nat (length (format f as))))"

lemma formatsI:
  "(\<And>m fmt tmp ap. printing m fmt tmp ap f as \<Longrightarrow> vsprintf_loop m fmt tmp ap
     = Some (put_bytes m tmp (format f as), tmp + of_nat (length (format f as)))) \<Longrightarrow> formats f as"
  by (simp add: formats_def)

lemma printingD:
  assumes "printing m fmt tmp ap f as"
  shows "fmt_at m tmp (length (format f as) + 2) fmt f" "vargs m tmp (length (format f as) + 2) ap as"
    "length (format f as) + 2 \<le> 2 ^ 32" "zeroed m tmp (length (format f as) + 2)" "fits f as"
  using assms by (simp_all add: printing_def Let_def)

lemma formats_step:
  assumes "formats f as" "printing m fmt0 tmp ap0 f0 as0" "format f0 as0 = t @ format f as" "fits f as"
    and "fmt_at m tmp (length (format f0 as0) + 2) fmt f"
    and "vargs m tmp (length (format f0 as0) + 2) ap as"
  shows "vsprintf_loop (put_bytes m tmp t) fmt (tmp + of_nat (length t)) ap
    = Some (put_bytes m tmp (format f0 as0), tmp + of_nat (length (format f0 as0)))"
proof -
  have "printing (put_bytes m tmp t) fmt (tmp + of_nat (length t)) ap f as"
    by (rule printing_put [OF assms(2-6)])
  moreover have "length t + length (format f as) + 2 \<le> 2 ^ 32"
    using assms(2,3) by (simp add: printing_def Let_def)
  ultimately show ?thesis
    using assms(1,3) put_bytes_format [of t "format f as" m tmp] by (simp add: formats_def add.assoc)
qed

lemma formats_end: "formats [] as"
  by (rule formatsI, drule printingD(1), drule fmt_at_Nil) (simp add: vsprintf_loop_end)

lemma formats_last: "formats [c] as"
proof (rule formatsI)
  fix m fmt tmp ap assume "printing m fmt tmp ap [c] as"
  then have fmt: "fmt_at m tmp 3 fmt [c]" by (simp add: printing_def Let_def numeral_3_eq_3)
  from fmt_at_Cons [OF this] have c: "m fmt = c" "c \<noteq> 0" "m (fmt + 1) = 0"
    by (auto intro: fmt_at_Nil)
  have "\<not> in_range tmp (length [c]) (fmt + 1)"
    using fmt apartD [of tmp 3 fmt "Suc (Suc 0)" "fmt + 1"] in_range_mono [of tmp 1 "fmt + 1" 3]
    by (auto simp: fmt_at_def in_range_Suc)
  with c have "put_bytes m tmp [c] (fmt + 1) = 0" by (simp add: put_bytes_other)
  with c show "vsprintf_loop m fmt tmp ap = Some (put_bytes m tmp (format [c] as), tmp + of_nat (length (format [c] as)))"
    by (simp add: vsprintf_loop_char vsprintf_loop_end)
qed

lemma formats_char:
  assumes "c \<noteq> 37" "formats (d # f) as" shows "formats (c # d # f) as"
proof (rule formatsI)
  fix m fmt tmp ap assume p: "printing m fmt tmp ap (c # d # f) as"
  note c = fmt_at_Cons [OF printingD(1) [OF p]]
  show "vsprintf_loop m fmt tmp ap
      = Some (put_bytes m tmp (format (c # d # f) as), tmp + of_nat (length (format (c # d # f) as)))"
    using formats_step [OF assms(2) p, of "[c]" "fmt + 1" ap] assms(1) c printingD [OF p] by (simp add: vsprintf_loop_char)
qed

lemma formats_skip:
  assumes "d \<notin> {115, 117, 100, 120}" "formats f as" shows "formats (37 # d # f) as"
proof (rule formatsI)
  fix m fmt tmp ap assume p: "printing m fmt tmp ap (37 # d # f) as"
  note c = fmt_at_Cons [OF printingD(1) [OF p]] and d = fmt_at_Cons [OF fmt_at_Cons(3) [OF printingD(1) [OF p]]]
  show "vsprintf_loop m fmt tmp ap
      = Some (put_bytes m tmp (format (37 # d # f) as), tmp + of_nat (length (format (37 # d # f) as)))"
    using formats_step [OF assms(2) p, of "[]" "fmt + 1 + 1" ap] assms(1) c d printingD [OF p]
    by (simp add: vsprintf_loop_skip)
qed

lemma formats_num:
  assumes "d \<in> {117, 100, 120}" "formats f as" shows "formats (37 # d # f) (Num w # as)"
proof (rule formatsI)
  fix m fmt tmp ap assume p: "printing m fmt tmp ap (37 # d # f) (Num w # as)"
  let ?t = "conv_text d w" and ?out = "format (37 # d # f) (Num w # as)"
  have out: "?out = ?t @ format f as" using assms(1) by auto
  note c = fmt_at_Cons [OF printingD(1) [OF p]] and d = fmt_at_Cons [OF fmt_at_Cons(3) [OF printingD(1) [OF p]]]
  have "put_bytes m tmp (?t @ [0]) = put_bytes m tmp ?t"
    by (rule put_text_NUL [of _ "length ?out + 2"]) (use printingD(3,4) [OF p] out in simp_all)
  moreover have "vsprintf_loop (put_bytes m tmp ?t) (fmt + 1 + 1) (tmp + of_nat (length ?t)) (ap + 4)
      = Some (put_bytes m tmp ?out, tmp + of_nat (length ?out))"
    using formats_step [OF assms(2) p out _ d(3), of "ap + 4"] assms(1) printingD(2,5) [OF p] by auto
  moreover have "load32 m ap = w" using printingD(2) [OF p] by simp
  ultimately show "vsprintf_loop m fmt tmp ap = Some (put_bytes m tmp ?out, tmp + of_nat (length ?out))"
    using vsprintf_loop_num [of m fmt] assms(1) c(1) d(1) by simp
qed

lemma formats_str:
  assumes "formats f as" shows "formats (37 # 115 # f) (Str s # as)"
proof (rule formatsI)
  fix m fmt tmp ap assume p: "printing m fmt tmp ap (37 # 115 # f) (Str s # as)"
  let ?out = "format (37 # 115 # f) (Str s # as)" and ?n = "length (format (37 # 115 # f) (Str s # as)) + 2"
  have out: "?out = s @ format f as" by simp
  note c = fmt_at_Cons [OF printingD(1) [OF p]] and d = fmt_at_Cons [OF fmt_at_Cons(3) [OF printingD(1) [OF p]]]
  have src: "cstr m (load32 m ap) s" "apart tmp ?n (load32 m ap) (Suc (length s))"
    using printingD(2) [OF p] by simp_all
  then have fw: "forward_ok tmp (load32 m ap) (Suc (length s))"
    using out by (intro apart_forward_ok) (auto elim!: apart_mono)
  have nul: "put_bytes m tmp (s @ [0]) = put_bytes m tmp s"
    by (rule put_text_NUL [of _ ?n]) (use printingD(3,4) [OF p] out in simp_all)
  have "zeroed (put_bytes m tmp s) (tmp + of_nat (length s)) 2"
    by (rule zeroed_put [of s 2 ?n]) (use printingD(3,4) [OF p] out in simp_all)
  then have "put_bytes m tmp s (tmp + of_nat (length s) + of_nat 1) = 0"
    unfolding zeroed_def by (elim allE [of _ 1]) simp
  moreover have "tmp + of_nat (length s) + of_nat 1 = tmp + of_nat (Suc (length s))" by simp
  ultimately have "put_bytes m tmp s (tmp + of_nat (Suc (length s))) = 0" by (simp only:)
  then have "vsprintf_loop m fmt tmp ap
      = vsprintf_loop (put_bytes m tmp s) (fmt + 1 + 1) (tmp + of_nat (length s)) (ap + 4)"
    using vsprintf_loop_str [of m fmt ap s tmp] c d src fw nul by (simp del: of_nat_Suc)
  then show "vsprintf_loop m fmt tmp ap = Some (put_bytes m tmp ?out, tmp + of_nat (length ?out))"
    using formats_step [OF assms p out _ d(3), of "ap + 4"] printingD(2,5) [OF p] by simp
qed

lemma formats_fits: "fits f as \<Longrightarrow> formats f as"
proof (induction f as rule: format.induct)
  case (3 c d f as)
  then show ?case
    using formats_char formats_skip formats_num formats_str
    by (cases "c = 37") (auto split: if_splits list.splits arg.splits)
qed (simp_all add: formats_end formats_last)

lemma vsprintf_loop_format:
  "printing m fmt tmp ap f as \<Longrightarrow> vsprintf_loop m fmt tmp ap
    = Some (put_bytes m tmp (format f as), tmp + of_nat (length (format f as)))"
  using formats_fits [OF printingD(5)] by (simp add: formats_def)

section \<open>Properties\<close>

definition arg_chars :: "arg list \<Rightarrow> u8 set" where
  "arg_chars as = (\<Union>a \<in> set as. case a of Str s \<Rightarrow> set s | Num _ \<Rightarrow> {})"

lemma conv_text_nonzero: "0 \<notin> set (conv_text d n)"
  using text_nonzero [of n] by (auto simp: conv_text_def)

lemma format_nonzero:
  "0 \<notin> set f \<Longrightarrow> 0 \<notin> arg_chars as \<Longrightarrow> 0 \<notin> set (format f as)"
proof (induction f as rule: format.induct)
  case (3 c d f as)
  then show ?case
    by (auto simp: arg_chars_def conv_text_nonzero split: list.splits arg.splits)
qed simp_all

lemma vargs_Str: "vargs m b n ap as \<Longrightarrow> Str s \<in> set as \<Longrightarrow> 0 \<notin> set s"
  by (induction as arbitrary: ap) (auto simp: cstr_iff split: arg.splits)

lemma vargs_nonzero: "vargs m b n ap as \<Longrightarrow> 0 \<notin> arg_chars as"
  by (auto simp: arg_chars_def split: arg.splits dest: vargs_Str)

lemma vsprintf_eq:
  assumes "printing m fmt dst ap f as"
  shows "vsprintf m dst fmt ap
    = Some (of_nat (length (format f as)), put_bytes m dst (format f as @ [0]))"
proof -
  let ?out = "format f as"
  have "length ?out < length ?out + 2" "length ?out + 2 \<le> 2 ^ 32" "zeroed m dst (length ?out + 2)"
    using assms by (simp_all add: printing_def Let_def)
  then have "put_bytes m dst (?out @ [0]) = put_bytes m dst ?out" by (rule put_text_NUL)
  moreover have "zeroed (put_bytes m dst ?out) (dst + of_nat (length ?out)) 2"
    using assms by (intro zeroed_put [of ?out 2 "length ?out + 2"]) (simp_all add: printing_def Let_def)
  then have "put_bytes m dst ?out (dst + of_nat (length ?out)) = 0"
    unfolding zeroed_def by (elim allE [of _ 0]) simp
  ultimately show ?thesis
    by (simp add: vsprintf_def vsprintf_loop_format [OF assms] fun_upd_idem)
qed

text \<open>C10. \<open>vsprintf\<close> returns and writes exactly the formatted text: with the format, the
  arguments and their strings outside the destination, and the destination zeroed for the
  length of the text and two bytes more, the destination then holds the reference's text,
  NUL-terminated, the result is its length, and no byte outside changes.\<close>

theorem vsprintf_spec:
  assumes "fits f as" and "n = length (format f as) + 2" and "n \<le> 2 ^ 32"
    and "fmt_at m dst n fmt f" and "vargs m dst n ap as" and "zeroed m dst n"
  shows "\<exists>m'. vsprintf m dst fmt ap = Some (of_nat (length (format f as)), m')
    \<and> cstr m' dst (format f as)
    \<and> (\<forall>x. \<not> in_range dst (Suc (length (format f as))) x \<longrightarrow> m' x = m x)"
proof -
  have p: "printing m fmt dst ap f as" using assms by (simp add: printing_def Let_def)
  have "0 \<notin> set f" using assms(4) by (auto simp: fmt_at_def cstr_iff)
  then have "0 \<notin> set (format f as)"
    using vargs_nonzero [OF assms(5)] by (rule format_nonzero)
  moreover have "length (format f as) < 2 ^ 32" using assms(2,3) by simp
  ultimately show ?thesis
    by (simp add: vsprintf_eq [OF p] cstr_put_bytes put_bytes_other)
qed

definition example_mem :: mem where
  "example_mem x = (if x = 0x100 then 37 else if x = 0x101 then 117
     else if x = 0x200 then 7 else 0)"

lemma vsprintf_spec_witness:
  "\<exists>m'. vsprintf example_mem 0x300 0x100 0x200 = Some (of_nat (length [55 :: u8]), m') \<and> cstr m' 0x300 [55]
    \<and> (\<forall>x. \<not> in_range 0x300 (Suc (length [55 :: u8])) x \<longrightarrow> m' x = example_mem x)"
proof -
  have out: "format [37, 117] [Num 7] = [55]"
    by (simp add: conv_text_def dec_text_def digits.simps dec_char_def)
  have "load32 example_mem 0x200 = 7" by (simp add: load32_def example_mem_def)
  then have args: "vargs example_mem 0x300 3 0x200 [Num 7]" by (simp add: apart_def)
  have fmt: "fmt_at example_mem 0x300 3 0x100 [37, 117]"
    by (simp add: fmt_at_def example_mem_def apart_def)
  have zero: "zeroed example_mem 0x300 3"
    by (simp add: zeroed_def example_mem_def numeral_3_eq_3 All_less_Suc)
  have "fits [37, 117] [Num 7]" "3 = length (format [37, 117] [Num 7]) + 2" "(3 :: nat) \<le> 2 ^ 32"
    by (simp_all add: out del: format.simps)
  from vsprintf_spec [OF this fmt args zero] show ?thesis unfolding out .
qed

section \<open>Destinations that were not zeroed\<close>

text \<open>Ordinary characters are copied whatever the destination holds.\<close>

lemma vsprintf_loop_plain:
  assumes "cstr m fmt (f @ g)" "37 \<notin> set f" "apart tmp n fmt (Suc (length (f @ g)))" "length f \<le> n" "n \<le> 2 ^ 32"
  shows "vsprintf_loop m fmt tmp ap = vsprintf_loop (put_bytes m tmp f) (fmt + of_nat (length f)) (tmp + of_nat (length f)) ap"
  using assms
proof (induction f arbitrary: m fmt tmp n)
  case (Cons c f)
  let ?m = "put_bytes m tmp [c]"
  have c: "m fmt = c" "c \<noteq> 0" "c \<noteq> 37" "cstr m (fmt + 1) (f @ g)" using Cons.prems(1,2) by auto
  have n: "length f + 1 \<le> n" using Cons.prems(4) by simp
  have "apart tmp n (fmt + of_nat 1) (Suc (length (f @ g)))"
    using apart_shift [of fmt "Suc (length ((c # f) @ g))" tmp n 1 "Suc (length (f @ g))"] Cons.prems(3) cstr_length [OF Cons.prems(1)]
    by (simp add: apart_commute)
  then have ap: "apart tmp n (fmt + 1) (Suc (length (f @ g)))" by simp
  have "cstr ?m (fmt + 1) (f @ g)" using c(4) ap by (rule cstr_put_apart) (use n in simp)
  moreover have "apart (tmp + of_nat 1) (n - 1) (fmt + 1) (Suc (length (f @ g)))"
    using ap by (rule apart_shift) (use n Cons.prems(5) in simp_all)
  ultimately have "vsprintf_loop ?m (fmt + 1) (tmp + 1) ap
      = vsprintf_loop (put_bytes ?m (tmp + 1) f) (fmt + 1 + of_nat (length f)) (tmp + 1 + of_nat (length f)) ap"
    using Cons.prems(2,4,5) by (intro Cons.IH [where n = "n - 1"]) simp_all
  moreover have "put_bytes ?m (tmp + 1) f = put_bytes m tmp (c # f)"
    using put_bytes_append [of "[c]" f m tmp] Cons.prems(4,5) by simp
  ultimately show ?case using c by (simp add: vsprintf_loop_char add.assoc)
qed simp

text \<open>A text and its NUL with another text written over the NUL.\<close>

lemma put_bytes_over:
  assumes "length t + length u < 2 ^ 32"
  shows "put_bytes (put_bytes m b (t @ [0])) (b + of_nat (length t)) (u @ [c]) = put_bytes m b (t @ u @ [c])"
proof -
  let ?b = "b + of_nat (length t)"
  have "put_bytes (put_bytes (put_bytes m b t) ?b [0]) ?b (u @ [c]) = put_bytes (put_bytes m b t) ?b (u @ [c])"
    using assms by (auto simp: put_bytes_def fun_eq_iff intro: in_range_mono)
  then show ?thesis using assms by (simp add: put_bytes_append)
qed

text \<open>One \<open>%s\<close> between ordinary characters, on any destination: when the byte behind the copied NUL is 0
  the text is the formatted one, and otherwise the NUL stays in it and the rest follows. The argument
  may lie in what is overwritten, as it is read before.\<close>

lemma vsprintf_one_string:
  fixes m :: mem and pre post x :: "u8 list"
  defines "k \<equiv> length pre + length x" and "n \<equiv> length pre + length x + length post + 3"
  assumes f: "cstr m fmt (pre @ [37, 115] @ post)" "37 \<notin> set pre" "37 \<notin> set post" and x: "cstr m (load32 m ap) x" and n: "n \<le> 2 ^ 32"
    and out: "apart dst n fmt (length pre + length post + 3)" "apart dst (length pre) ap 4" "apart dst n (load32 m ap) (Suc (length x))"
  defines "gap \<equiv> if m (dst + of_nat (Suc k)) = 0 then [] else [0 :: u8]"
  shows "vsprintf m dst fmt ap = Some (of_nat (k + length gap + length post), put_bytes m dst (pre @ x @ gap @ post @ [0]))"
proof -
  let ?fs = "fmt + of_nat (length pre)" and ?p = "dst + of_nat (length pre)" and ?m1 = "put_bytes m dst pre"
  have len: "length pre + length post + 2 < 2 ^ 32" using cstr_length [OF f(1)] by simp
  have 1: "vsprintf_loop m fmt dst ap = vsprintf_loop ?m1 ?fs ?p ap"
    by (rule vsprintf_loop_plain [OF f(1,2), where n = n]) (use out(1) n in \<open>simp_all add: n_def numeral_3_eq_3\<close>)
  have keep: "put_bytes m dst t y = m y" if "length t \<le> n" "in_range fmt (length pre + length post + 3) y
      \<or> in_range (load32 m ap) (Suc (length x)) y" for t y
    using that put_bytes_apart [OF out(1)] put_bytes_apart [OF out(3)] by blast
  have fm: "cstr (put_bytes m dst t) fmt (pre @ [37, 115] @ post)" if "length t \<le> n" for t
    by (rule cstr_cong [OF f(1)]) (use keep [OF that] in \<open>simp add: numeral_3_eq_3\<close>)
  have tail: "cstr m' (a + of_nat (length u)) v" if "cstr m' a (u @ v)" for m' a and u v :: "u8 list"
    using that by (induction u arbitrary: a) (simp_all add: add.assoc [symmetric])
  have dirs: "?m1 ?fs = 37" "?m1 (?fs + 1) = 115" using tail [OF fm [of pre]] by (simp_all add: n_def)
  have arg: "load32 ?m1 ap = load32 m ap" by (rule quad.ld_cong) (rule put_bytes_apart [OF out(2) order_refl])
  have src: "cstr ?m1 (load32 ?m1 ap) x" unfolding arg by (rule cstr_cong [OF x]) (use keep [of pre] in \<open>simp add: n_def\<close>)
  have "apart ?p (Suc (length x)) (load32 m ap) (Suc (length x))"
    using out(3) by (rule apart_shift) (use n in \<open>simp_all add: n_def\<close>)
  then have fw: "forward_ok ?p (load32 ?m1 ap) (Suc (length x))" unfolding arg by (rule apart_forward_ok)
  have two: "put_bytes ?m1 ?p (x @ [0]) = put_bytes m dst (pre @ x @ [0])"
    using n by (subst put_bytes_append) (simp_all add: n_def)
  have pos: "?p + of_nat (length x) = dst + of_nat k" "?p + of_nat (Suc (length x)) = dst + of_nat (Suc k)"
    by (simp_all add: k_def)
  have "put_bytes m dst (pre @ x @ [0]) (dst + of_nat (Suc k)) = m (dst + of_nat (Suc k))"
    by (rule put_bytes_other) (use n in \<open>simp add: n_def k_def del: of_nat_Suc of_nat_add\<close>)
  then have 2: "vsprintf_loop ?m1 ?fs ?p ap = vsprintf_loop (put_bytes m dst (pre @ x @ [0])) (?fs + 1 + 1) (dst + of_nat (k + length gap)) (ap + 4)"
    unfolding vsprintf_loop_str [OF dirs src fw] two pos by (simp add: gap_def add.commute [of 1])
  let ?m2 = "put_bytes m dst (pre @ x @ [0])" and ?q = "dst + of_nat (k + length gap)"
  have "cstr ?m2 fmt ((pre @ [37, 115]) @ post)" using fm [of "pre @ x @ [0]"] by (simp add: n_def)
  from tail [OF this] have rest: "cstr ?m2 (?fs + 1 + 1) (post @ [])" by (simp add: algebra_simps)
  have g: "length gap \<le> 1" by (simp add: gap_def)
  have "apart (dst + of_nat (k + length gap)) (n - (k + length gap)) fmt (length pre + length post + 3)"
    using out(1) by (rule apart_shift) (use n g in \<open>simp_all add: n_def k_def\<close>)
  moreover have "apart (fmt + of_nat (length pre + 2)) (Suc (length post)) ?q (n - (k + length gap))"
    using calculation by (subst (asm) apart_commute) (rule apart_shift, assumption, use len in simp_all)
  ultimately have ap2: "apart ?q (n - (k + length gap)) (?fs + 1 + 1) (Suc (length (post @ [])))"
    by (simp add: apart_commute algebra_simps)
  have 3: "vsprintf_loop ?m2 (?fs + 1 + 1) ?q (ap + 4) = Some (put_bytes ?m2 ?q post, ?q + of_nat (length post))"
  proof -
    let ?e = "?fs + 1 + 1 + of_nat (length post)"
    have "cstr (put_bytes ?m2 ?q post) (?fs + 1 + 1) (post @ [])"
      using rest ap2 by (rule cstr_put_apart) (use g in \<open>simp add: n_def k_def\<close>)
    from tail [OF this] have "put_bytes ?m2 ?q post ?e = 0" by simp
    then show ?thesis
      using vsprintf_loop_plain [OF rest f(3) ap2] n g by (simp add: vsprintf_loop_end n_def k_def)
  qed
  have "put_bytes ?m2 ?q (post @ [0]) = put_bytes m dst (pre @ x @ gap @ post @ [0])"
  proof (cases "gap = []")
    case True
    then show ?thesis
      using put_bytes_over [of "pre @ x" post m dst 0] n by (simp add: n_def k_def)
  next
    case False
    then have "gap = [0]" by (simp add: gap_def split: if_splits)
    then show ?thesis
      using put_bytes_append [of "pre @ x @ [0]" "post @ [0]" m dst] n by (simp add: n_def k_def add.assoc)
  qed
  moreover have "(put_bytes ?m2 ?q post)(?q + of_nat (length post) := 0) = put_bytes ?m2 ?q (post @ [0])"
    using put_bytes_append [of post "[0]" ?m2 ?q] n g by (simp add: put_bytes_Cons n_def)
  ultimately show ?thesis unfolding vsprintf_def 1 2 3 by (simp add: algebra_simps)
qed

text \<open>C33. On a destination that was not zeroed, \<open>%s\<close> can go wrong. For a format with one \<open>%s\<close> between
  ordinary characters: when the byte behind the copied NUL is 0, the destination holds the formatted
  text and its length is returned. When it is not, the loop does not step back over that NUL: the
  text in the destination ends at the string, what follows the directive lands behind the NUL, and
  the length that is returned is one more than that of the whole text.\<close>

theorem vsprintf_dirty_buffer:
  fixes m :: mem and pre post x :: "u8 list"
  assumes "cstr m fmt (pre @ [37, 115] @ post)" "37 \<notin> set pre" "37 \<notin> set post" "cstr m (load32 m ap) x"
    and "n = length (pre @ x @ post) + 3" "n \<le> 2 ^ 32"
    and "apart dst n fmt (length (pre @ post) + 3)" "apart dst (length pre) ap 4" "apart dst n (load32 m ap) (Suc (length x))"
  shows "if m (dst + of_nat (length (pre @ x) + 1)) = 0
    then \<exists>m'. vsprintf m dst fmt ap = Some (of_nat (length (pre @ x @ post)), m') \<and> cstr m' dst (pre @ x @ post)
    else \<exists>m'. vsprintf m dst fmt ap = Some (of_nat (length (pre @ x @ post) + 1), m') \<and> cstr m' dst (pre @ x)
      \<and> cstr m' (dst + of_nat (length (pre @ x) + 1)) post"
proof -
  let ?z = "m (dst + of_nat (length (pre @ x) + 1)) = 0" and ?k = "length pre + length x"
  have nz: "0 \<notin> set (pre @ x @ post)" using assms(1,4) by (auto simp: cstr_iff)
  have len: "length (pre @ x @ post) + 3 \<le> 2 ^ 32" using assms(5,6) by simp
  have same: "dst + of_nat (Suc ?k) = dst + of_nat (length (pre @ x) + 1)" by simp
  note out = vsprintf_one_string [OF assms(1-4), where dst = dst, unfolded same]
  show ?thesis
  proof (cases ?z)
    case True
    have "vsprintf m dst fmt ap = Some (of_nat (length (pre @ x @ post)), put_bytes m dst ((pre @ x @ post) @ [0]))"
      using out assms(5-9) True by (simp add: add.assoc)
    then show ?thesis using True cstr_put_bytes [of "pre @ x @ post" m dst] nz len by simp
  next
    case False
    let ?m1 = "put_bytes m dst ((pre @ x) @ [0])" and ?q = "dst + of_nat (length (pre @ x) + 1)"
    have two: "put_bytes m dst ((pre @ x @ [0]) @ post @ [0]) = put_bytes ?m1 ?q (post @ [0])"
      using len by (subst put_bytes_append) (simp_all add: add.assoc)
    have "vsprintf m dst fmt ap = Some (of_nat (length (pre @ x @ post) + 1), put_bytes ?m1 ?q (post @ [0]))"
      using out assms(5-9) False two by (simp add: add.assoc)
    moreover have "cstr (put_bytes ?m1 ?q (post @ [0])) ?q post"
      using nz len by (intro cstr_put_bytes) simp_all
    moreover have "cstr (put_bytes ?m1 ?q (post @ [0])) dst (pre @ x)"
    proof (rule cstr_cong)
      show "cstr ?m1 dst (pre @ x)" using nz len by (intro cstr_put_bytes) simp_all
      have "apart (dst + of_nat 0) (Suc (length (pre @ x))) ?q (length (post @ [0]))"
        using len by (intro apart_offsets) simp_all
      then show "put_bytes ?m1 ?q (post @ [0]) y = ?m1 y" if "in_range dst (Suc (length (pre @ x))) y" for y
        using that by (intro put_bytes_other) (auto simp: apart_iff simp del: of_nat_add)
    qed
    ultimately show ?thesis using False by (simp del: of_nat_add)
  qed
qed

definition dirty_mem :: mem where
  "dirty_mem x = (if x = 0x100 then 37 else if x = 0x101 then 115 else if x = 0x102 then 33 else if x = 0x103 then 63
     else if x = 0x201 then 4 else if x = 0x400 then 65 else if x = 0x302 then 1 else 0)"

lemma vsprintf_dirty_buffer_witness:
  "\<exists>m'. vsprintf dirty_mem 0x300 0x100 0x200 = Some (4, m') \<and> cstr m' 0x300 [65] \<and> cstr m' 0x302 [33, 63]"
proof -
  have ap: "load32 dirty_mem 0x200 = 0x400" by (simp add: load32_def dirty_mem_def push_bit_eq_mult)
  have f: "cstr dirty_mem 0x100 ([] @ [37, 115] @ [33, 63])" "37 \<notin> set ([] :: u8 list)" "37 \<notin> set [33, 63 :: u8]"
    "cstr dirty_mem (load32 dirty_mem 0x200) [65]"
    by (simp_all add: ap) (simp_all add: dirty_mem_def)
  have n: "6 = length ([] @ [65] @ [33, 63 :: u8]) + 3" "(6 :: nat) \<le> 2 ^ 32" by simp_all
  have out: "apart 0x300 6 0x100 (length ([] @ [33, 63 :: u8]) + 3)" "apart 0x300 (length ([] :: u8 list)) 0x200 4"
    "apart 0x300 6 (load32 dirty_mem 0x200) (Suc (length [65 :: u8]))"
    by (simp_all add: ap apart_def)
  have "dirty_mem (0x300 + of_nat (length ([] @ [65 :: u8]) + 1)) \<noteq> 0" by (simp add: dirty_mem_def)
  note vsprintf_dirty_buffer [OF f n out, unfolded if_not_P [OF this]]
  moreover have "(of_nat (length ([] @ [65] @ [33, 63 :: u8]) + 1) :: u32) = 4" "0x300 + of_nat (length ([] @ [65 :: u8]) + 1) = (0x302 :: u32)"
    by simp_all
  ultimately show ?thesis by (simp only: append_Nil)
qed

end
