(* ===== verification/Observers.thy ===== *)
theory Observers
  imports Entry Interleaving KlibStdio
begin

text \<open>
  What the kernel leaves alone. Theories that follow one part of the state through the whole kernel
  (its output, the table registers and the translation) all ask the same of its operations: that
  they do not change that part. The locale \<open>observer\<close> states the question once, for a view of the
  state and the events the view takes notice of, and goes through the drivers, the handlers and
  \<open>kmain\<close>; \<open>boot_observer\<close> extends it to the entry code.
\<close>

unbundle bit_operations_syntax

section \<open>Calls that fit the buffer\<close>

text \<open>Room for the text and two NULs in the \<open>n\<close> bytes of the buffer, arguments of the number and
  types the directives ask for, and no NUL inside a string.\<close>

definition printable :: "nat \<Rightarrow> event \<Rightarrow> bool" where
  "printable n e = (case e of
     Print f as \<Rightarrow> fits (chars f) as \<and> length (format (chars f) as) + 2 \<le> n \<and> 0 \<notin> set (chars f) \<and> 0 \<notin> arg_chars as
   | _ \<Rightarrow> True)"

text \<open>A bound on the length of a text that needs no evaluation of it.\<close>

primrec arg_width :: "arg \<Rightarrow> nat" where
  "arg_width (Num n) = 33"
| "arg_width (Str s) = length s"

lemma length_format: "length (format f as) \<le> length f + sum_list (map arg_width as)"
proof (induction f as rule: format.induct)
  case (3 c d f as)
  show ?case
  proof (cases as)
    case (Cons a as')
    then show ?thesis using 3 length_conv_text [THEN add_mono, of "length (format f as')" "2 + (length f + sum_list (map arg_width as'))" d]
      by (cases a) auto
  qed (use 3 in auto)
qed simp_all

lemma printable_print:
  assumes "fits (chars f) as" "length f + sum_list (map arg_width as) \<le> 4094" "0 \<notin> set (chars f)" "0 \<notin> arg_chars as"
  shows "printable 4096 (Print f as)"
  using assms length_format [of "chars f" as] by (simp add: printable_def)

lemma printable_other [simp]: "(\<And>f as. e \<noteq> Print f as) \<Longrightarrow> printable n e"
  by (cases e) (auto simp: printable_def)

lemmas no_NUL = chars_def arg_chars_def

lemma vinfo_prints:
  assumes "v \<le> (31 :: u32)"
  shows "length (vinfo ! unat v) \<le> 4000" "0 \<notin> set (chars (vinfo ! unat v))"
proof -
  have len: "length vinfo = 32" by (simp add: vinfo_def)
  have all: "list_all (\<lambda>x. length x \<le> 4000 \<and> 0 \<notin> set (chars x)) vinfo" by (simp add: vinfo_def no_NUL)
  have "unat v < 32" using assms by (simp add: word_le_nat_alt)
  then show "length (vinfo ! unat v) \<le> 4000" "0 \<notin> set (chars (vinfo ! unat v))"
    using all len by (auto simp: list_all_length)
qed

lemma vendor_ends:
  "fst (snd (cpu_cpuid_manufacturer l b m s)) (b + of_nat 12) = 0"
  by (simp add: cpu_cpuid_manufacturer_def Let_def split_beta memcpy_other in_range_def)

lemma arguments_printable:
  "printable 4096 (Print ''    Args = %s\<newline>'' [Str x]) \<longleftrightarrow> length x \<le> 4082 \<and> 0 \<notin> set x"
  by (auto simp: printable_def no_NUL)

text \<open>The command line of the loader has no bound of its own; 4082 characters are what fits.\<close>

definition short_cmdline :: "image \<Rightarrow> u32 \<Rightarrow> mem \<Rightarrow> bool" where
  "short_cmdline k mbi m = (let D = page_directory k - KERNEL_CONFIG_VMA in
     case rd32 D m (mbi + of_nat (offsetof multiboot_info_t ''cmdline'')) of
       None \<Rightarrow> True
     | Some a \<Rightarrow> (case string_at D m (a + KERNEL_CONFIG_VMA) of None \<Rightarrow> True | Some t \<Rightarrow> length t \<le> 4082))"

lemma string_at_nonzero: "string_at D m a = Some t \<Longrightarrow> 0 \<notin> set t"
  by (force simp: string_at_def dest: strlen_first(1) split: bind_splits if_splits)

lemma arguments_printed:
  assumes "kmain_arguments k magic mbi m s = Some t" "magic = 0x2BADB002 \<Longrightarrow> short_cmdline k mbi m"
  shows "t = s \<or> (\<exists>x. t = print ''    Args = %s\<newline>'' [Str x] (print ''Multiboot Args Found !\<newline>'' [] s)
     \<and> length x \<le> 4082 \<and> 0 \<notin> set x)"
proof (cases "magic = 0x2BADB002")
  case True
  from assms(2) [OF this] show ?thesis using assms(1)
    by (auto simp: kmain_arguments_def short_cmdline_def Let_def split: bind_splits if_splits dest: string_at_nonzero)
qed (use assms(1) in \<open>simp add: kmain_arguments_def\<close>)

lemma stack_machine:
  "push v (r, m, s) = Some (r', m', s') \<Longrightarrow> s' = s" "pop (r, m, s) = Some (v, r', m', s') \<Longrightarrow> s' = s"
  by (auto simp: push_def pop_def)

text \<open>An event of the drivers: it loads no table, segment or control register, and what it prints
  fits the buffer of \<open>printk\<close>.\<close>

definition control :: "event \<Rightarrow> bool" where
  "control e = (case e of Lgdt l a \<Rightarrow> True | Lidt l a \<Rightarrow> True | LoadSegment g x \<Rightarrow> True | MovCr k v \<Rightarrow> True | _ \<Rightarrow> False)"

definition outcome_state :: "'s outcome \<Rightarrow> 's" where
  "outcome_state c = (case c of Returned t \<Rightarrow> t | Halted t \<Rightarrow> t)"

section \<open>The contract\<close>

named_theorems kept_simps

locale observer =
  fixes view :: "'a acpi_scheme \<Rightarrow> 'v" and seen :: "event \<Rightarrow> bool"
  assumes traced: "trace t = trace s @ es \<Longrightarrow> list_all (\<lambda>e. \<not> seen e) es \<Longrightarrow> hw t = hw s
      \<Longrightarrow> machine.more t = machine.more s \<Longrightarrow> view t = view s"
    and unnoticed: "\<not> control e \<Longrightarrow> printable 4096 e \<Longrightarrow> \<not> seen e"
    and lapic_fields: "view (s\<lparr>lapic_base := b\<rparr>) = view s" "view (s\<lparr>lapic_ticks_per_ms := u\<rparr>) = view s"
      "view (s\<lparr>lapic_ticks_per_us := u\<rparr>) = view s"
    and table_fields: "view (s\<lparr>idt_gate_callback := c\<rparr>) = view s" "view (s\<lparr>global_fadt := a\<rparr>) = view s"
begin

lemmas kept_fields [kept_simps] = lapic_fields table_fields

lemma kept_event: "\<not> seen e \<Longrightarrow> view (emit e s) = view s"
  by (rule traced [where es = "[e]"]) simp_all

lemma kept_emit [kept_simps]:
  "view (emit (OutB p x) s) = view s" "view (emit (OutW p y) s) = view s" "view (emit (OutD p z) s) = view s"
  "view (emit (InB p x) s) = view s" "view (emit (InW p y) s) = view s" "view (emit (InD p z) s) = view s"
  "view (emit (MmioRead a v) s) = view s" "view (emit (MmioWrite a v) s) = view s"
  "view (emit (RdMsr n d v) s) = view s" "view (emit (WrMsr n d v) s) = view s" "view (emit (Cpuid n) s) = view s"
  "view (emit Sti s) = view s" "view (emit Cli s) = view s" "view (emit Hlt s) = view s" "view (emit Pause s) = view s"
  "view (emit (Invlpg a) s) = view s"
  by (rule kept_event, rule unnoticed; simp add: control_def)+

lemma kept_print [kept_simps]:
  "fits (chars f) as \<Longrightarrow> length f + sum_list (map arg_width as) \<le> 4094 \<Longrightarrow> 0 \<notin> set (chars f) \<Longrightarrow> 0 \<notin> arg_chars as
    \<Longrightarrow> view (print f as s) = view s"
  unfolding print_def by (rule kept_event, rule unnoticed) (simp_all add: control_def printable_print)

lemma kept_machine [kept_simps]:
  "view (io_port_outb p b s) = view s"
  "view (io_port_outw p h s) = view s"
  "view (io_port_outdw p v s) = view s"
  "view (snd (io_port_inb p s)) = view s"
  "view (snd (io_port_inw p s)) = view s"
  "view (snd (io_port_indw p s)) = view s"
  "view (mmio_write a v s) = view s"
  "view (snd (mmio_read a s)) = view s"
  "view (snd (cpu_msr_read n s)) = view s"
  "view (cpu_msr_write n d x s) = view s"
  by (simp_all add: machine_defs cpu_msr_read_def cpu_msr_write_def Let_def split_beta kept_simps)

text \<open>Loops.\<close>

lemma unseen_ports: "\<not> seen (InB p x)" "\<not> seen (OutB p x)"
  by (rule unnoticed; simp add: control_def)+

lemma kept_cmos_wait: "cmos_wait s = Some t \<Longrightarrow> view t = view s"
  using cmos.loop_trace [of s t] by (auto simp: cmos_events_def list_all_iff unseen_ports intro!: traced)

lemma kept_pit_loop: "pit_loop s = Some t \<Longrightarrow> view t = view s"
  using pit.loop_trace [of s t] by (auto simp: pit_events_def list_all_iff unseen_ports split: if_splits intro!: traced)

lemma kept_ioapic [kept_simps]:
  "view (ioapic_write a r v s) = view s" "view (snd (ioapic_read a r s)) = view s"
  by (simp_all add: ioapic_write_def ioapic_read_def Let_def kept_simps)

lemma kept_ioapic_loop [kept_simps]: "view (ioapic_loop i n s) = view s"
proof (induction i n s rule: ioapic_loop.induct)
  case (1 i n s)
  then show ?case by (subst ioapic_loop.simps) (simp add: Let_def kept_simps)
qed

lemma kept_polls [kept_simps]:
  "view (snd (i8042_read_loop n s)) = view s" "view (snd (i8042_write_loop n s)) = view s"
  by (induction n arbitrary: s) (simp_all add: i8042_status_def Let_def split_beta kept_simps)

lemma kept_i8042 [kept_simps]:
  "view (snd (i8042_read s)) = view s" "view (i8042_write b s) = view s"
  "view (i8042_command c s) = view s" "view (snd (i8042_command_get c s)) = view s"
  "view (i8042_command_set c b s) = view s"
  by (simp_all add: i8042_read_def i8042_write_def i8042_command_def i8042_command_get_def i8042_command_set_def
      Let_def split_beta kept_simps)

lemma kept_kbd_wait [kept_simps]: "view (snd (kbd_wait v n s)) = view s"
  by (induction n arbitrary: s) (simp_all add: Let_def split_beta kept_simps)

text \<open>Initialisations and handlers.\<close>

lemma kept_lapic [kept_simps]:
  "view (lapic_write r v s) = view s" "view (snd (lapic_read r s)) = view s"
  "view (lapic_eio v s) = view s"
  by (simp_all add: lapic_write_def lapic_read_def lapic_eio_def kept_simps)

lemma kept_inits [kept_simps]:
  "view (pic_init s) = view s" "view (pic_mask_all s) = view s"
  "view (ioapic_init s) = view s" "view (pic_eio v s) = view s"
  by (simp_all add: pic_init_def pic_mask_all_def pic_unmask_all_def ioapic_init_def pic_eio_def
      Let_def split_beta kept_simps no_NUL)

lemma kept_lapic_init [kept_simps]: "view (lapic_init s) = view s"
  by (simp add: lapic_init_def lapic_get_base_def lapic_enable_def Let_def split_beta kept_simps no_NUL)

lemma kept_cmos: "cmos_read_rtc s = Some (r, t) \<Longrightarrow> view t = view s"
  by (auto simp: cmos_read_rtc_def cmos_read_all_def cmos_get_def cmos_bcd2dec_read_def cmos_read_def cmos_select_def
      split_beta Let_def kept_simps dest!: kept_cmos_wait)

lemma kept_pit_wait: "pit_wait_ms n s = Some t \<Longrightarrow> view t = view s"
  by (auto simp: pit_wait_ms_def pit_load_def Let_def kept_simps dest!: kept_pit_loop)

lemma kept_ticks: "view (print ''    timer ticks set to: %d/ms, %d/us\<newline>'' [Num a, Num b] s) = view s"
  by (simp add: kept_simps no_NUL)

lemma kept_calibrate:
  assumes "lapic_timer_calibrate s = Some t" shows "view t = view s"
proof -
  obtain u where u: "pit_wait_ms 10 (lapic_write LAPIC_ICR 0xFFFFFFFF (lapic_write LAPIC_LVTTR
    (LAPIC_LVTTR_ONESHOT OR LAPIC_LVTTR_MASK) (lapic_write LAPIC_DCR LAPIC_DCR_DIV16 s))) = Some u"
    using assms by (auto simp: lapic_timer_calibrate_def Let_def)
  have "view t = view u"
    using assms u by (auto simp: lapic_timer_calibrate_def Let_def split_beta kept_ticks kept_simps split: if_splits)
  then show ?thesis using kept_pit_wait [OF u] by (simp add: kept_simps)
qed

lemma kept_timer_config:
  assumes "lapic_timer_config s = Some t" shows "view t = view s"
proof -
  obtain u where "lapic_timer_calibrate (print ''LAPIC configure:\<newline>'' [] s) = Some u" "view t = view u"
    using assms by (auto simp: lapic_timer_config_def Let_def split_beta kept_simps)
  then show ?thesis using kept_calibrate [of "print ''LAPIC configure:\<newline>'' [] s" u] by (simp add: kept_simps no_NUL)
qed

lemma kept_handler_slot [kept_simps]: "view (idt_set_interrupt_handler v h s) = view s"
  by (simp add: idt_set_interrupt_handler_def kept_simps)

lemma kept_mask [kept_simps]:
  "view (idt_mask_interrupt v s) = view s" "view (idt_unmask_interrupt v s) = view s"
  by (simp_all add: idt_mask_interrupt_def idt_unmask_interrupt_def Let_def split_beta kept_simps)

lemma kept_self_test [kept_simps]: "view (snd (snd (snd (i8042_self_test s)))) = view s"
  by (simp add: i8042_self_test_def Let_def split_beta kept_simps no_NUL)

lemma kept_interface_tests [kept_simps]:
  "view (snd (i8042_keyboard_test cb s)) = view s"
  "view (snd (i8042_mouse_test d cb s)) = view s"
  by (simp_all add: i8042_keyboard_test_def i8042_mouse_test_def Let_def split_beta kept_simps no_NUL)

lemma kept_enable [kept_simps]: "view (i8042_enable cb s) = view s"
  by (simp add: i8042_enable_def Let_def kept_simps no_NUL)

lemma kept_inputs [kept_simps]:
  "view (i8042_init s) = view s" "view (kbd_init s) = view s"
  "view (mouse_init s) = view s"
  by (simp_all add: i8042_init_def kbd_init_def mouse_init_def Let_def split_beta kept_simps no_NUL)

lemma kept_map_4kb [kept_simps]: "view (snd (paging_map_4kb d t p l f m s)) = view s"
  by (simp add: paging_map_4kb_def paging_get_page_table_def paging_flush_ptbl_entry_def Let_def split_beta kept_simps no_NUL)

lemma kept_power_button: "init_acpi_power_button D m a s = Some t \<Longrightarrow> view t = view s"
  by (auto simp: init_acpi_power_button_def Let_def split_beta kept_simps no_NUL split: bind_splits if_splits)

lemma kept_acpi_tables: "acpi_tables D m facp n p s = Some t \<Longrightarrow> view t = view s"
  by (induction n arbitrary: p s) (auto simp: Let_def dest: kept_power_button split: bind_splits if_splits)

lemma kept_acpi_init: "acpi_init d t lit facp m s = Some (m', u) \<Longrightarrow> view u = view s"
  by (auto simp: acpi_init_def Let_def split_beta kept_simps no_NUL dest!: kept_acpi_tables split: bind_splits)

text \<open>A string among the arguments, and the handlers.\<close>

lemma kept_string:
  "length x \<le> 4000 \<Longrightarrow> 0 \<notin> set x \<Longrightarrow> view (print ''KERNEL PANIC: %s\<newline>'' [Str x] s) = view s"
  "length x \<le> 4000 \<Longrightarrow> 0 \<notin> set x \<Longrightarrow> view (print ''CPU Vendor: %s\<newline>'' [Str x] s) = view s"
  by (simp_all add: kept_print no_NUL)

lemma kept_exception: "view (outcome_state (idt_exception_handler v r e f s)) = view s"
proof (cases "v > 31")
  case True
  then show ?thesis by (simp add: idt_exception_handler_def outcome_state_def kept_simps no_NUL)
next
  case False
  define t where "t = print ''KERNEL PANIC: %s\<newline>'' [Str (chars (vinfo ! unat v))] s"
  have "view t = view s"
    unfolding t_def by (rule kept_string) (use False vinfo_prints [of v] in simp_all)
  then show ?thesis using False
    by (simp add: idt_exception_handler_def t_def [symmetric] outcome_state_def Let_def) (simp add: kept_simps no_NUL)
qed

lemma kept_handlers:
  "view (outcome_state (idt_interrupt_handler v r e f s)) = view s" "view (outcome_state (i8042_irq_handler v r e f s)) = view s"
  "view (outcome_state (kbd_irq_handler v r e f s)) = view s" "view (outcome_state (mouse_irq_handler v r e f s)) = view s"
  by (simp_all add: outcome_state_def idt_interrupt_handler_def i8042_irq_handler_def kbd_irq_handler_def mouse_irq_handler_def
      Let_def split_beta kept_simps no_NUL)

lemma kept_power: "view (outcome_state (acpi_interrupt_handler_power D m v r e f s)) = view s"
  by (simp add: outcome_state_def acpi_interrupt_handler_power_def Let_def split_beta kept_simps no_NUL split: option.split)

lemma kept_dispatch: "view (outcome_state (dispatch D m v r e f s)) = view s"
  by (cases "idt_gate_callback s (unat v)")
     (simp_all add: dispatch_def kept_exception kept_handlers kept_power, simp add: outcome_state_def)

lemma kept_returned: "dispatch D m v r e f s = Returned t \<Longrightarrow> view t = view s"
  using kept_dispatch [of D m v r e f s] by (simp add: outcome_state_def)

text \<open>The stages of the kernel.\<close>

lemma kept_prepare: "kmain_prepare s = Some t \<Longrightarrow> view t = view s"
  by (auto simp: kmain_prepare_def Let_def kept_simps no_NUL dest: kept_cmos split: bind_splits)

lemma kept_devices: "kmain_devices k m s = Some (m', t) \<Longrightarrow> view t = view s"
  by (auto simp: kmain_devices_def kept_simps dest!: kept_timer_config kept_acpi_init split: bind_splits)

lemma kept_vendor:
  assumes "kmain_vendor k m s = Some t" shows "view t = view s"
proof -
  obtain p stack u where call: "cpu_cpuid_manufacturer (cpuid_stack k) (vendor_buffer k)
      (lin (page_directory k - KERNEL_CONFIG_VMA) m) s = (p, stack, u)" by (rule prod_cases3)
  have p: "p = vendor_buffer k" "view u = view s"
    using call by (auto simp: cpu_cpuid_manufacturer_def cpu_cpuid_def Let_def split_beta kept_simps)
  have ends: "stack (p + of_nat 12) = 0"
    using vendor_ends [of "cpuid_stack k" "vendor_buffer k" "lin (page_directory k - KERNEL_CONFIG_VMA) m" s] call p(1) by simp
  obtain n where n: "strlen stack p = Some n"
    and t: "t = print ''CPU Vendor: %s\<newline>'' [Str (map (\<lambda>i. stack (p + of_nat i)) [0..<unat n])] u"
    using assms call by (auto simp: kmain_vendor_def)
  have "unat n \<le> 12" by (rule strlen_bound [OF n ends])
  moreover have "0 \<notin> set (map (\<lambda>i. stack (p + of_nat i)) [0..<unat n])" using strlen_first(1) [OF n] by force
  ultimately show ?thesis unfolding t by (subst kept_string) (simp_all add: p)
qed

text \<open>\<open>kmain\<close>, but for the boot arguments, whose text has no bound of its own.\<close>

lemma kept_kmain:
  assumes "kmain k magic mbi m s = Some (m', t)"
    and "\<And>a b. kmain_arguments k magic mbi m' a = Some b \<Longrightarrow> view b = view a"
  shows "view t = view s"
proof -
  obtain a b c where "kmain_prepare s = Some a" "kmain_devices k m a = Some (m', b)"
    "kmain_arguments k magic mbi m' b = Some c" "kmain_vendor k m' c = Some t"
    using assms(1) by (auto simp: kmain_def split: bind_splits)
  then show ?thesis using assms(2) kept_prepare kept_devices kept_vendor by metis
qed

lemma kept_advance:
  assumes "advance k magic mbi (g, m, s) = Some (g', m', t)"
    and "\<And>a b. kmain_arguments k magic mbi m a = Some b \<Longrightarrow> view b = view a"
  shows "view t = view s"
  using assms kept_timer_config kept_acpi_init kept_vendor by (cases g) (auto simp: kept_simps)

lemma kept_idle: "idle D m s vs t \<Longrightarrow> view t = view s"
  by (induction rule: idle.induct) (auto simp: kept_simps dest: kept_returned)

lemma kept_short_arguments:
  assumes "kmain_arguments k magic mbi m s = Some t" "magic = 0x2BADB002 \<Longrightarrow> short_cmdline k mbi m"
  shows "view t = view s"
proof -
  have found: "view (print ''Multiboot Args Found !\<newline>'' [] s) = view s" by (simp add: kept_simps no_NUL)
  have "view (print ''    Args = %s\<newline>'' [Str x] u) = view u" if "length x \<le> 4082" "0 \<notin> set x" for x u
    unfolding print_def using that by (intro kept_event unnoticed) (simp_all add: control_def arguments_printable)
  with found show ?thesis using arguments_printed [OF assms] by metis
qed

end

section \<open>The entry code\<close>

text \<open>The entry code fills the tables and loads the registers that say where they are.\<close>

locale boot_observer = observer view seen for view :: "'a acpi_scheme \<Rightarrow> 'v" and seen :: "event \<Rightarrow> bool" +
  assumes boot_unnoticed: "control e \<Longrightarrow> \<not> seen e"
    and gate_fields: "view (s\<lparr>idt_gate := g\<rparr>) = view s" "view (s\<lparr>lidt_limit := l\<rparr>) = view s" "view (s\<lparr>lidt_base := a\<rparr>) = view s"
begin

lemma kept_control [kept_simps]:
  "view (emit (MovCr k v) s) = view s" "view (emit (Lidt l a) s) = view s"
  "view (emit (Lgdt l a) s) = view s" "view (emit (LoadSegment g x) s) = view s"
  by (rule kept_event, rule boot_unnoticed, simp add: control_def)+

lemmas kept_gate_fields [kept_simps] = gate_fields

lemma kept_idt_loop [kept_simps]: "view (idt_init_loop h i s) = view s"
proof (induction h i s rule: idt_init_loop.induct)
  case (1 h i s)
  then show ?case by (subst idt_init_loop.simps) (simp add: idt_init_step_def kept_simps)
qed

lemma kept_idt_init [kept_simps]: "view (idt_init a h s) = view s"
  by (simp add: idt_init_def idt_set_table_def Let_def kept_simps no_NUL)

lemma kept_gdt_init [kept_simps]: "view (snd (gdt_init g l m s)) = view s"
  by (simp add: gdt_init_def gdt_set_table_def gdt_flush_def Let_def kept_simps no_NUL)

lemma kept_map_loop: "paging_map_loop d e a m s = Some c \<Longrightarrow> view (snd c) = view s"
proof (rule paging_map_loop.raw_induct [where P = "\<lambda>d e a m s c. view (snd c) = view s"], goal_cases)
  case (1 f d e a m s c)
  then show ?case
    by (auto simp: Let_def split_beta paging_map_4mb_def paging_flush_ptbl_entry_def kept_simps no_NUL split: if_splits)
qed

lemma kept_paging_init: "paging_init d t e m s = Some (m', u) \<Longrightarrow> view u = view s"
  by (auto simp: paging_init_def paging_set_page_directory_def paging_enable_def Let_def split_beta kept_simps no_NUL
      dest!: kept_map_loop)

lemma kept_pair:
  "entry_init_paging d (r, m, s) = (r', m', s') \<Longrightarrow> view s' = view s"
  "gdt_init g l m u = (m', u') \<Longrightarrow> view u' = view u"
  using kept_gdt_init [of g l m u] by (auto simp: entry_init_paging_def Let_def kept_simps)

lemma kept_entry_low: "entry_low k scratch (r, m, s) = Some (r', m', s') \<Longrightarrow> view s' = view s"
  by (auto simp: entry_low_def Let_def kept_control kept_idt_init dest!: stack_machine kept_pair split: bind_splits prod.splits)

lemma kept_entry_high: "entry_higher_half k scratch (r, m, s) = Some (r', m', s') \<Longrightarrow> view s' = view s"
  by (auto simp: entry_higher_half_def Let_def dest!: stack_machine dest: kept_paging_init split: bind_splits prod.splits)

end

end
