(* ===== verification/Console.thy ===== *)
theory Console
  imports KlibStdio KlibMem
begin

text \<open>
  The text console, ksrc/printk.c: \<open>console_putc\<close>, \<open>console_puts\<close> and \<open>printk\<close> on the linear
  memory of the kernel, which holds the video memory, the width and height the BIOS left in
  its data area, the strings and the stack buffer of \<open>printk\<close>. The two static variables are
  fields of the state.

  The specification is a screen of character cells with a cursor. The code refines it (locale
  \<open>simulation\<close>), so that what a line of text does is proved on the screen.
\<close>

unbundle bit_operations_syntax

section \<open>The code\<close>

record console =
  vmem :: mem
  column :: u32
  row :: u32

abbreviation (input) video :: u32 where "video \<equiv> 0xC00B8000"

text \<open>\<open>bda_VideoControl1->NumberOfColumns\<close> and \<open>bda_VideoControl2->NumberOfRows\<close>.\<close>

definition NumberOfColumns :: "mem \<Rightarrow> u32" where
  "NumberOfColumns m = ucast (load16 m 0xC000044A)"

definition NumberOfRows :: "mem \<Rightarrow> u32" where
  "NumberOfRows m = ucast (m 0xC0000484)"

text \<open>\<open>0xF100|c\<close> with a signed char, stored to 16 bits.\<close>

definition attr :: "u8 \<Rightarrow> u16" where
  "attr c = ucast ((0xF100 :: u32) OR scast c)"

definition console_wrap :: "console \<Rightarrow> console" where
  "console_wrap s = (if NumberOfColumns (vmem s) \<le> column s then s\<lparr>column := 0, row := row s + 1\<rparr> else s)"

definition console_scroll :: "console \<Rightarrow> console" where
  "console_scroll s =
     (if NumberOfRows (vmem s) + 1 \<le> row s then
        let s = s\<lparr>vmem := fst (memcpy (vmem s) video (video + 2 * (1 * NumberOfColumns (vmem s)))
              ((row s * NumberOfColumns (vmem s) + column s) * 2))\<rparr>
        in s\<lparr>row := NumberOfRows (vmem s), column := 0\<rparr>
      else s)"

definition console_clear :: "console \<Rightarrow> console" where
  "console_clear s =
     (if column s = 0 then
        s\<lparr>vmem := fst (memset (vmem s) (video + 2 * (row s * NumberOfColumns (vmem s))) 0
            (row s * NumberOfColumns (vmem s) * 2))\<rparr>
      else s)"

definition console_putc :: "u8 \<Rightarrow> console \<Rightarrow> console" where
  "console_putc c s =
     (let s = console_wrap s;
          s = console_scroll s
      in if c = 10 then s\<lparr>column := 0, row := row s + 1\<rparr>
         else
           let s = console_clear s;
               s = s\<lparr>vmem := store16 (vmem s) (video + 2 * (row s * NumberOfColumns (vmem s) + column s)) (attr c)\<rparr>
           in s\<lparr>column := column s + 1\<rparr>)"

partial_function (option) console_puts :: "u32 \<Rightarrow> console \<Rightarrow> console option" where
  "console_puts tmp s =
     (if vmem s tmp \<noteq> 0 then console_puts (tmp + 1) (console_putc (vmem s tmp) s) else Some s)"

abbreviation (input) KERNEL_CONFIG_PRINTK_BUFFER :: u32 where "KERNEL_CONFIG_PRINTK_BUFFER \<equiv> 4096"

text \<open>\<open>buf\<close> is the address of the local buffer, \<open>argp\<close> that of the first variable argument.\<close>

definition printk :: "u32 \<Rightarrow> u32 \<Rightarrow> u32 \<Rightarrow> console \<Rightarrow> console option" where
  "printk buf fmt argp s =
     (let s = s\<lparr>vmem := fst (memset (vmem s) buf 0 KERNEL_CONFIG_PRINTK_BUFFER)\<rparr>
      in Option.bind (vsprintf (vmem s) buf fmt argp) (\<lambda>(len, m). console_puts buf (s\<lparr>vmem := m\<rparr>)))"

section \<open>The screen\<close>

text \<open>
  A screen of \<open>C\<close> columns whose last line is number \<open>R\<close>. Going past the last line is put off
  until the next character: line \<open>R + 1\<close>, column 0.
\<close>

record screen =
  cells :: "nat \<Rightarrow> u16"
  col :: nat
  line :: nat

definition wrapped :: "nat \<Rightarrow> screen \<Rightarrow> screen" where
  "wrapped C z = (if C \<le> col z then z\<lparr>col := 0, line := line z + 1\<rparr> else z)"

definition scrolled :: "nat \<Rightarrow> nat \<Rightarrow> screen \<Rightarrow> screen" where
  "scrolled C R z =
     (if R < line z then z\<lparr>cells := \<lambda>k. if k < (R + 1) * C then cells z (k + C) else cells z k,
        col := 0, line := R\<rparr> else z)"

definition cleared_line :: "nat \<Rightarrow> screen \<Rightarrow> screen" where
  "cleared_line C z =
     (if col z = 0 then z\<lparr>cells := \<lambda>k. if line z * C \<le> k \<and> k < 2 * (line z * C) then 0 else cells z k\<rparr>
      else z)"

definition put :: "nat \<Rightarrow> nat \<Rightarrow> u8 \<Rightarrow> screen \<Rightarrow> screen" where
  "put C R c z =
     (let z = scrolled C R (wrapped C z)
      in if c = 10 then z\<lparr>col := 0, line := line z + 1\<rparr>
         else let z = cleared_line C z
           in z\<lparr>cells := (cells z)(line z * C + col z := attr c), col := col z + 1\<rparr>)"

text \<open>Where the cursor may be.\<close>

definition on_screen :: "nat \<Rightarrow> nat \<Rightarrow> screen \<Rightarrow> bool" where
  "on_screen C R z \<longleftrightarrow> col z \<le> C \<and> (line z \<le> R \<or> line z = R + 1 \<and> col z = 0)"

lemma on_screen_put: "0 < C \<Longrightarrow> on_screen C R z \<Longrightarrow> on_screen C R (put C R c z)"
  by (auto simp: put_def on_screen_def wrapped_def scrolled_def cleared_line_def Let_def)

section \<open>Lines of text\<close>

text \<open>A line of text written from the start of a line on.\<close>

definition written :: "nat \<Rightarrow> u8 list \<Rightarrow> screen \<Rightarrow> screen" where
  "written C t z = (let b = line z * C in
     z\<lparr>cells := \<lambda>k. if b \<le> k \<and> k < b + length t then attr (t ! (k - b))
        else if b \<le> k \<and> k < 2 * b then 0 else cells z k, col := length t\<rparr>)"

lemma put_more:
  assumes "z' = written C t z" "t \<noteq> []" "length t < C" "line z \<le> R" "c \<noteq> 10"
  shows "put C R c z' = written C (t @ [c]) z"
  using assms by (intro screen.equality)
    (auto simp: put_def written_def wrapped_def scrolled_def cleared_line_def Let_def nth_append less_Suc_eq intro!: ext)

lemma put_first:
  assumes "col z = 0" "line z \<le> R" "0 < C" "c \<noteq> 10"
  shows "put C R c z = written C [c] z"
  using assms by (auto simp: put_def written_def wrapped_def scrolled_def cleared_line_def Let_def fun_eq_iff)

lemma put_scrolled:
  assumes "col z = 0" "0 < C"
  shows "put C R c z = put C R c (scrolled C R z)"
  using assms by (simp add: put_def wrapped_def scrolled_def Let_def)

lemma fold_put_line:
  assumes "col z = 0" "line z \<le> R" "t \<noteq> []" "length t \<le> C" "10 \<notin> set t"
  shows "fold (put C R) t z = written C t z"
  using assms(3-5)
proof (induction t rule: rev_induct)
  case (snoc c t)
  show ?case
  proof (cases "t = []")
    case True
    then show ?thesis using snoc.prems put_first [OF assms(1,2)] by simp
  next
    case False
    then show ?thesis using snoc put_more [OF snoc.IH, of R c] assms(2) by simp
  qed
qed simp

section \<open>Video memory as cells\<close>

definition vcell :: "mem \<Rightarrow> nat \<Rightarrow> u16" where
  "vcell m k = load16 m (video + of_nat (2 * k))"

abbreviation (input) in_video :: "u32 \<Rightarrow> bool" where "in_video \<equiv> in_range 0xC00B8000 0x8000"

text \<open>The BIOS reports \<open>C\<close> columns and last line \<open>R\<close>, a screen whose double fits the 32 KB of video
  memory.\<close>

definition geometry :: "nat \<Rightarrow> nat \<Rightarrow> mem \<Rightarrow> bool" where
  "geometry C R m \<longleftrightarrow> NumberOfColumns m = of_nat C \<and> NumberOfRows m = of_nat R
     \<and> 0 < C \<and> (2 * R + 2) * C \<le> 0x4000"

text \<open>A change of video memory only.\<close>

definition only_video :: "mem \<Rightarrow> mem \<Rightarrow> bool" where
  "only_video m m' \<longleftrightarrow> (\<forall>x. \<not> in_video x \<longrightarrow> m' x = m x)"

lemma only_video_refl: "only_video m m"
  and only_video_trans: "only_video m m' \<Longrightarrow> only_video m' m'' \<Longrightarrow> only_video m m''"
  by (simp_all add: only_video_def)

lemma geometry_only_video:
  assumes "only_video m m'" shows "geometry C R m' = geometry C R m"
proof -
  have "\<not> in_video 0xC000044A" "\<not> in_video 0xC000044B" "\<not> in_video 0xC0000484"
    by (simp_all add: in_range_def)
  with assms show ?thesis
    by (simp add: geometry_def NumberOfColumns_def NumberOfRows_def load16_def only_video_def)
qed

lemma in_range_rel:
  assumes "a + n \<le> 2 ^ 32" "i < 2 ^ 32"
  shows "in_range (b + of_nat a) n (b + of_nat i) \<longleftrightarrow> a \<le> i \<and> i < a + n"
proof (cases "n = 0")
  case False
  have "b + of_nat i - (b + of_nat a) = (of_nat i - of_nat a :: u32)" by simp
  then show ?thesis
    using assms False unfolding in_range_def
    by (simp add: unat_sub_if' unat_of_nat take_bit_nat_eq_self_iff) arith
qed simp

lemma in_video_part: "in_range (video + of_nat a) n x \<Longrightarrow> a + n \<le> 0x8000 \<Longrightarrow> in_video x"
  by (rule in_range_part [where k = "0x8000"]) simp_all

lemma vcell_bytes:
  "vcell m k = ucast (m (video + of_nat (2 * k))) OR push_bit 8 (ucast (m (video + of_nat (2 * k + 1))))"
  by (simp add: vcell_def load16_def add.commute add.left_commute)

lemma store_cell:
  assumes "j < 0x4000" "k < 0x4000"
  shows "vcell (store16 m (video + of_nat (2 * j)) v) k = (if k = j then v else vcell m k)"
proof -
  have "apart (video + of_nat (2 * j)) 2 (video + of_nat (2 * k)) 2" if "j \<noteq> k"
    using that assms apart_offsets [of "2 * j" 2 "2 * k" 2] apart_offsets [of "2 * k" 2 "2 * j" 2]
    by (cases "j < k") (simp_all add: apart_commute del: of_nat_mult)
  then show ?thesis by (auto simp: vcell_def half.ld_st half.ld_st_apart simp del: of_nat_mult)
qed

lemma store_video:
  "j < 0x4000 \<Longrightarrow> only_video m (store16 m (video + of_nat (2 * j)) v)"
  unfolding only_video_def
  by (intro allI impI half.st_other) (use in_video_part [of "2 * j" 2] in auto)

lemma clear_cells:
  assumes "a + n \<le> 0x4000" "k < 0x4000"
  shows "vcell (fst (memset m (video + of_nat (2 * a)) 0 (of_nat (2 * n)))) k
    = (if a \<le> k \<and> k < a + n then 0 else vcell m k)"
proof -
  have n: "unat (of_nat (2 * n) :: u32) = 2 * n"
    using assms(1) by (simp add: unat_of_nat take_bit_nat_eq_self del: of_nat_mult)
  have "in_range (video + of_nat (2 * a)) (2 * n) (video + of_nat (2 * k)) \<longleftrightarrow> a \<le> k \<and> k < a + n"
    "in_range (video + of_nat (2 * a)) (2 * n) (video + of_nat (2 * k + 1)) \<longleftrightarrow> a \<le> k \<and> k < a + n"
    using assms by (auto simp: in_range_rel simp del: of_nat_add of_nat_mult of_nat_Suc)
  then show ?thesis unfolding vcell_bytes memset_filled fst_conv filled_def n by simp
qed

lemma clear_video:
  assumes "a + n \<le> 0x4000"
  shows "only_video m (fst (memset m (video + of_nat (2 * a)) 0 (of_nat (2 * n))))"
proof -
  have n: "unat (of_nat (2 * n) :: u32) = 2 * n"
    using assms(1) by (simp add: unat_of_nat take_bit_nat_eq_self del: of_nat_mult)
  then show ?thesis unfolding memset_filled fst_conv filled_def n only_video_def
    using in_video_part [of "2 * a" "2 * n"] assms by auto
qed

lemma scroll_cells:
  assumes "n + C \<le> 0x4000" "0 < C"
  shows "k < 0x4000 \<Longrightarrow> vcell (fst (memcpy m video (video + of_nat (2 * C)) (of_nat (2 * n)))) k
    = (if k < n then vcell m (k + C) else vcell m k)"
    and "only_video m (fst (memcpy m video (video + of_nat (2 * C)) (of_nat (2 * n))))"
proof -
  have n: "unat (of_nat (2 * n) :: u32) = 2 * n" "unat (of_nat (2 * C) :: u32) = 2 * C"
    using assms(1) by (simp_all add: unat_of_nat take_bit_nat_eq_self del: of_nat_mult)
  have "unat (- of_nat (2 * C) :: u32) = 2 ^ 32 - 2 * C"
    using assms(1,2) n(2) unat_sub_if' [of 0 "of_nat (2 * C) :: u32"] by (simp del: of_nat_mult)
  then have "forward_ok video (video + of_nat (2 * C)) (unat (of_nat (2 * n) :: u32))"
  proof -
    have "video - (video + of_nat (2 * C)) = (- of_nat (2 * C) :: u32)" by simp
    then show ?thesis
      using \<open>unat (- of_nat (2 * C) :: u32) = _\<close> assms(1) unfolding forward_ok_def n(1)
      by (intro disjI2) (simp only:, simp)
  qed
  from memcpy_copied [OF this, of m]
  have eq: "fst (memcpy m video (video + of_nat (2 * C)) (of_nat (2 * n)))
      = copied m video (video + of_nat (2 * C)) (2 * n)" by (simp only: n fst_conv)
  have "in_range video (2 * n) (video + of_nat i) \<longleftrightarrow> i < 2 * n" if "i < 2 ^ 32" for i
    using that by simp
  moreover have "video + of_nat (2 * C) + (video + of_nat i - video) = video + of_nat (2 * C + i)" for i
    by simp
  ultimately have "copied m video (video + of_nat (2 * C)) (2 * n) (video + of_nat i)
      = (if i < 2 * n then m (video + of_nat (2 * C + i)) else m (video + of_nat i))" if "i < 2 ^ 32" for i
    unfolding copied_def using that by presburger
  note b = this
  have "2 * C + 2 * k = 2 * (k + C)" "2 * C + (2 * k + 1) = 2 * (k + C) + 1" by simp_all
  then show "vcell (fst (memcpy m video (video + of_nat (2 * C)) (of_nat (2 * n)))) k
    = (if k < n then vcell m (k + C) else vcell m k)" if "k < 0x4000"
    unfolding eq vcell_bytes using b [of "2 * k"] b [of "2 * k + 1"] that
    by (simp only:) (auto simp del: of_nat_add of_nat_mult of_nat_Suc)
  show "only_video m (fst (memcpy m video (video + of_nat (2 * C)) (of_nat (2 * n))))"
    unfolding eq only_video_def copied_def using in_video_part [of 0 "2 * n"] assms(1) by auto
qed

section \<open>The code refines the screen\<close>

definition video_cells :: "mem \<Rightarrow> nat \<Rightarrow> u16" where
  "video_cells m = (\<lambda>k. if k < 0x4000 then vcell m k else 0)"

definition screen_of :: "console \<Rightarrow> screen" where
  "screen_of s = \<lparr>cells = video_cells (vmem s),
     col = unat (column s), line = unat (row s)\<rparr>"

definition console_ok :: "nat \<Rightarrow> nat \<Rightarrow> console \<Rightarrow> bool" where
  "console_ok C R s \<longleftrightarrow> geometry C R (vmem s) \<and> on_screen C R (screen_of s)"

lemma screen_words: "column s = of_nat (col (screen_of s))" "row s = of_nat (line (screen_of s))"
  by (simp_all add: screen_of_def)

lemma cells_screen: "cells (screen_of s) = video_cells (vmem s)"
  by (simp add: screen_of_def)

lemma geometry_words:
  assumes "geometry C R m"
  shows "NumberOfColumns m = of_nat C" "NumberOfRows m = of_nat R" "unat (of_nat C :: u32) = C"
    "unat (of_nat R :: u32) = R" "unat (of_nat R + 1 :: u32) = R + 1" "0 < C" "(2 * R + 2) * C \<le> 0x4000" "R < 0x2000"
proof -
  have C: "0 < C" "(2 * R + 2) * C \<le> 0x4000" using assms by (simp_all only: geometry_def)
  have "2 * R + 2 \<le> (2 * R + 2) * C" "C \<le> (2 * R + 2) * C"
    using mult_le_mono2 [of 1 C "2 * R + 2"] mult_le_mono1 [of 1 "2 * R + 2" C] C(1) by simp_all
  from this [THEN order_trans, OF C(2)] have "C \<le> 0x4000" "R < 0x2000" by simp_all
  then show "R < 0x2000" "unat (of_nat C :: u32) = C" "unat (of_nat R :: u32) = R" "unat (of_nat R + 1 :: u32) = R + 1"
    by (simp_all add: unat_of_nat unat_word_ariths)
qed (use assms in \<open>simp_all add: geometry_def\<close>)

lemma wrap_screen:
  assumes "geometry C R (vmem s)" "on_screen C R (screen_of s)"
  shows "screen_of (console_wrap s) = wrapped C (screen_of s)" "vmem (console_wrap s) = vmem s"
proof -
  have "line (screen_of s) \<le> R + 1" using assms(2) by (auto simp: on_screen_def)
  then have "unat (row s) < 2 ^ 32 - 1" using geometry_words [OF assms(1)] by (auto simp: screen_of_def)
  then have "unat (row s + 1) = unat (row s) + 1" by (simp add: unat_word_ariths)
  then show "screen_of (console_wrap s) = wrapped C (screen_of s)"
    using geometry_words [OF assms(1)]
    by (simp add: console_wrap_def wrapped_def screen_of_def word_le_nat_alt)
qed (simp add: console_wrap_def)

lemma product_le:
  assumes "(2 * R + 2) * C \<le> (0x4000 :: nat)" "l \<le> R" "c \<le> C"
  shows "l * C + c + (l * C + C) \<le> 0x4000"
proof -
  have "l * C \<le> R * C" using assms(2) by simp
  moreover have "2 * (R * C) + 2 * C \<le> 0x4000" using assms(1) by (simp add: add_mult_distrib)
  ultimately show ?thesis using assms(3) by linarith
qed

lemma scroll_screen:
  assumes "geometry C R (vmem s)" "col (screen_of s) \<le> C" "line (screen_of s) \<le> R
    \<or> line (screen_of s) = R + 1 \<and> col (screen_of s) = 0"
  shows "screen_of (console_scroll s) = scrolled C R (screen_of s)"
    and "only_video (vmem s) (vmem (console_scroll s))"
proof -
  note g = geometry_words [OF assms(1)]
  define l c where "l = line (screen_of s)" and "c = col (screen_of s)"
  have rc: "row s = of_nat l" "column s = of_nat c" "unat (row s) = l"
    by (simp_all add: l_def c_def screen_of_def)
  have test: "NumberOfRows (vmem s) + 1 \<le> row s \<longleftrightarrow> R < l"
    using g(2,5) rc(3) by (auto simp: word_le_nat_alt Suc_le_eq)
  have "screen_of (console_scroll s) = scrolled C R (screen_of s)
    \<and> only_video (vmem s) (vmem (console_scroll s))"
  proof (cases "R < l")
    case True
    then have l: "l = R + 1" "c = 0" using assms(3) by (auto simp: l_def c_def)
    let ?m = "fst (memcpy (vmem s) video (video + of_nat (2 * C)) (of_nat (2 * (l * C))))"
    have fit: "l * C + C \<le> 0x4000" using product_le [OF g(7), of R C] l(1) by simp
    have words: "(row s * NumberOfColumns (vmem s) + column s) * 2 = of_nat (2 * (l * C))"
      "2 * (1 * NumberOfColumns (vmem s)) = of_nat (2 * C)"
      using rc l(2) g(1) by (simp_all add: mult.commute)
    note sc = scroll_cells [OF fit g(6)]
    have "geometry C R ?m" using geometry_only_video [OF sc(2)] assms(1) by simp
    then have "NumberOfRows ?m = of_nat R" by (rule geometry_words)
    moreover have "console_scroll s = (let s = s\<lparr>vmem := ?m\<rparr> in s\<lparr>row := NumberOfRows (vmem s), column := 0\<rparr>)"
      unfolding console_scroll_def words test using True by simp
    ultimately have s': "console_scroll s = s\<lparr>vmem := ?m, row := of_nat R, column := 0\<rparr>"
      by (simp add: Let_def)
    have "video_cells ?m = (\<lambda>k. if k < l * C then video_cells (vmem s) (k + C) else video_cells (vmem s) k)"
      using sc(1) fit by (auto simp: video_cells_def fun_eq_iff)
    moreover have "l * C = (R + 1) * C" by (simp add: l(1))
    ultimately show ?thesis using True sc(2) g(4) unfolding s' scrolled_def l_def [symmetric] cells_screen
      by (simp add: screen_of_def)
  next
    case False
    then show ?thesis using test by (simp add: console_scroll_def scrolled_def l_def only_video_refl)
  qed
  then show "screen_of (console_scroll s) = scrolled C R (screen_of s)"
    "only_video (vmem s) (vmem (console_scroll s))" by simp_all
qed

lemma clear_screen:
  assumes "geometry C R (vmem s)" "line (screen_of s) \<le> R"
  shows "screen_of (console_clear s) = cleared_line C (screen_of s)"
    and "only_video (vmem s) (vmem (console_clear s))"
proof -
  note g = geometry_words [OF assms(1)]
  define l where "l = line (screen_of s)"
  have rc: "row s = of_nat l" by (simp add: l_def screen_of_def)
  let ?m = "fst (memset (vmem s) (video + of_nat (2 * (l * C))) 0 (of_nat (2 * (l * C))))"
  have words: "2 * (row s * NumberOfColumns (vmem s)) = of_nat (2 * (l * C))"
    "row s * NumberOfColumns (vmem s) * 2 = of_nat (2 * (l * C))" using rc g(1) by simp_all
  have fit: "l * C + l * C \<le> 0x4000" using product_le [OF g(7), of l 0] assms(2) by (simp add: l_def)
  have "column s = 0 \<longleftrightarrow> col (screen_of s) = 0" by (simp add: screen_of_def unat_eq_0)
  then have s': "console_clear s = (if col (screen_of s) = 0 then s\<lparr>vmem := ?m\<rparr> else s)"
    unfolding console_clear_def words by simp
  have "video_cells ?m = (\<lambda>k. if l * C \<le> k \<and> k < 2 * (l * C) then 0 else video_cells (vmem s) k)"
    using clear_cells [OF fit] fit by (auto simp: video_cells_def fun_eq_iff)
  then show "screen_of (console_clear s) = cleared_line C (screen_of s)"
    unfolding s' cleared_line_def l_def [symmetric] cells_screen by (simp add: screen_of_def)
  show "only_video (vmem s) (vmem (console_clear s))"
    using clear_video [OF fit] by (simp add: s' only_video_refl)
qed

lemma putc_screen:
  assumes "console_ok C R s"
  shows "screen_of (console_putc c s) = put C R c (screen_of s)"
    and "only_video (vmem s) (vmem (console_putc c s))"
proof -
  have ok: "geometry C R (vmem s)" "on_screen C R (screen_of s)" using assms by (simp_all add: console_ok_def)
  note g = geometry_words [OF ok(1)]
  define s1 where "s1 = console_wrap s"
  note w = wrap_screen [OF ok, folded s1_def]
  have "col (screen_of s1) \<le> C" "line (screen_of s1) \<le> R \<or> line (screen_of s1) = R + 1 \<and> col (screen_of s1) = 0"
    using ok(2) w(1) g(6) by (auto simp: wrapped_def on_screen_def)
  moreover have "geometry C R (vmem s1)" using ok(1) w(2) by simp
  moreover define s2 where "s2 = console_scroll s1"
  ultimately have sc: "screen_of s2 = scrolled C R (screen_of s1)" "only_video (vmem s) (vmem s2)"
    unfolding s2_def w(2) [symmetric] by (blast intro: scroll_screen)+
  have inside: "line (screen_of s2) \<le> R" "col (screen_of s2) < C"
    using ok(2) sc(1) w(1) g(6) by (auto simp: on_screen_def wrapped_def scrolled_def split: if_splits)
  define l where "l = line (screen_of s2)"
  have l: "unat (row s2) = l" "row s2 = of_nat l" by (simp_all add: l_def screen_of_def)
  have next_row: "unat (row s2 + 1) = l + 1"
    using inside(1) g(8) l(1) by (simp add: l_def unat_word_ariths)
  have z: "scrolled C R (wrapped C (screen_of s)) = screen_of s2" using sc(1) w(1) by simp
  have "screen_of (console_putc c s) = put C R c (screen_of s) \<and> only_video (vmem s) (vmem (console_putc c s))"
  proof (cases "c = 10")
    case True
    then have s': "console_putc c s = s2\<lparr>column := 0, row := row s2 + 1\<rparr>"
      by (simp add: console_putc_def s2_def s1_def Let_def)
    then show ?thesis using True sc(2) next_row l(1) unfolding put_def z Let_def s' by (simp add: screen_of_def)
  next
    case False
    define s3 where "s3 = console_clear s2"
    have g2: "geometry C R (vmem s2)" using geometry_only_video [OF sc(2)] ok(1) by simp
    note cl = clear_screen [OF g2 inside(1), folded s3_def]
    have g3: "geometry C R (vmem s3)" using geometry_only_video [OF cl(2)] g2 by simp
    define k where "k = col (screen_of s2)"
    have at: "row s3 = of_nat l" "column s3 = of_nat k" "unat (column s3) = k" "unat (row s3) = l"
      using l by (simp_all add: s3_def console_clear_def k_def screen_of_def)
    have "unat (column s3 + 1) = k + 1"
      using inside(2) geometry_words(3) [OF g2] unsigned_less [of "of_nat C :: u32", where 'a = nat] at(3)
      by (simp add: k_def [symmetric] unat_word_ariths)
    moreover have "2 * (row s3 * NumberOfColumns (vmem s3) + column s3) = of_nat (2 * (l * C + k))"
      using at(1,2) geometry_words(1) [OF g3] by simp
    moreover define m where "m = store16 (vmem s3) (video + of_nat (2 * (l * C + k))) (attr c)"
    ultimately have s': "console_putc c s = s3\<lparr>vmem := m, column := column s3 + 1\<rparr>"
      using False by (simp add: console_putc_def s3_def s2_def s1_def Let_def del: of_nat_add of_nat_mult)
    have lt: "l * C + k < 0x4000"
      using product_le [OF g(7), of l k] inside g(6) by (simp add: l_def k_def)
    have "video_cells m = (video_cells (vmem s3))(l * C + k := attr c)"
      using store_cell [OF lt] lt by (auto simp: video_cells_def m_def fun_eq_iff simp del: of_nat_add of_nat_mult)
    moreover have "cleared_line C (screen_of s2) = screen_of s3" using cl(1) by simp
    ultimately have "screen_of (console_putc c s) = put C R c (screen_of s)"
      using False at(3,4) \<open>unat (column s3 + 1) = k + 1\<close> unfolding put_def z Let_def s'
      by (simp add: screen_of_def)
    moreover have "only_video (vmem s3) m" unfolding m_def by (rule store_video [OF lt])
    then have "only_video (vmem s) (vmem (console_putc c s))"
      using sc(2) cl(2) unfolding s' by (auto intro: only_video_trans)
    ultimately show ?thesis by blast
  qed
  then show "screen_of (console_putc c s) = put C R c (screen_of s)"
    "only_video (vmem s) (vmem (console_putc c s))" by simp_all
qed

text \<open>A concrete machine follows an abstract one, as long as its states stay good.\<close>

locale simulation =
  fixes good :: "'s \<Rightarrow> bool" and abs :: "'s \<Rightarrow> 'z" and step :: "'a \<Rightarrow> 's \<Rightarrow> 's" and astep :: "'a \<Rightarrow> 'z \<Rightarrow> 'z"
    and same :: "'s \<Rightarrow> 's \<Rightarrow> bool"
  assumes step_abs: "good s \<Longrightarrow> abs (step a s) = astep a (abs s)"
    and step_good: "good s \<Longrightarrow> good (step a s)"
    and step_same: "good s \<Longrightarrow> same s (step a s)"
    and same_refl: "same s s"
    and same_trans: "same s t \<Longrightarrow> same t u \<Longrightarrow> same s u"
begin

lemma run_abs: "good s \<Longrightarrow> abs (fold step as s) = fold astep as (abs s)"
  by (induction as arbitrary: s) (simp_all add: step_abs step_good)

lemma run_good: "good s \<Longrightarrow> good (fold step as s)"
  by (induction as arbitrary: s) (simp_all add: step_good)

lemma run_same: "good s \<Longrightarrow> same s (fold step as s)"
  by (induction as arbitrary: s) (auto simp: same_refl intro: step_good same_trans [OF step_same])

end

interpretation display: simulation "console_ok C R" screen_of console_putc "put C R" "\<lambda>s t. only_video (vmem s) (vmem t)"
proof unfold_locales
  fix s c assume ok: "console_ok C R s"
  then have "0 < C" by (simp add: console_ok_def geometry_def)
  with ok show "console_ok C R (console_putc c s)"
    using putc_screen [OF ok, of c] geometry_only_video by (simp add: console_ok_def on_screen_put)
qed (auto simp: putc_screen only_video_refl intro: only_video_trans)

text \<open>C11. \<open>console_putc\<close> implements the screen: on video memory, the width and the height as the
  BIOS reports them, and a cursor on the screen, it does to the characters and the cursor what
  the screen's \<open>put\<close> does, scrolling and clearing included; the cursor stays on the screen, and no
  byte outside the 32 KB of video memory changes.\<close>

theorem console_putc_refines:
  assumes "console_ok C R s"
  shows "screen_of (console_putc c s) = put C R c (screen_of s) \<and> console_ok C R (console_putc c s)
    \<and> only_video (vmem s) (vmem (console_putc c s))"
  using assms by (simp add: display.step_abs display.step_good display.step_same)

text \<open>A line of text that fits the width, written from column 0 on: its characters are in the
  cells of the cursor's line and the lines above are unchanged. With the cursor past the last
  line, the screen first moves up by one line. (Behind the text, the code clears as many cells
  as there are before the line, and none on the first line.)\<close>

theorem console_line:
  assumes "console_ok C R s" "column s = 0" "t \<noteq> []" "length t \<le> C" "10 \<notin> set t"
  shows "screen_of (fold console_putc t s) = written C t (scrolled C R (screen_of s))"
proof -
  have z: "col (screen_of s) = 0" "0 < C" using assms(1,2) by (simp_all add: screen_of_def console_ok_def geometry_def)
  then obtain c u where t: "t = c # u" using assms(3) by (cases t) auto
  have "fold (put C R) t (screen_of s) = fold (put C R) t (scrolled C R (screen_of s))"
    using put_scrolled [OF z] by (simp add: t)
  also have "\<dots> = written C t (scrolled C R (screen_of s))"
    using z(1) assms(3-5) by (intro fold_put_line) (simp_all add: scrolled_def)
  finally show ?thesis using display.run_abs [OF assms(1)] by simp
qed

section \<open>Strings and formats\<close>

lemma puts_text:
  assumes "console_ok C R s" "cstr (vmem s) p t" "apart video 0x8000 p (Suc (length t))"
  shows "console_puts p s = Some (fold console_putc t s)"
  using assms
proof (induction t arbitrary: p s)
  case Nil
  then show ?case by (subst console_puts.simps) simp
next
  case (Cons c t)
  let ?s = "console_putc c s"
  have "apart (p + of_nat 1) (Suc (length t)) video 0x8000"
    by (rule apart_shift [where n = "Suc (length (c # t))"]) (use Cons.prems in \<open>simp_all add: apart_commute\<close>)
  then have rest: "apart video 0x8000 (p + 1) (Suc (length t))" by (simp add: apart_commute)
  have "only_video (vmem s) (vmem ?s)" using Cons.prems(1) by (rule display.step_same)
  then have "cstr (vmem ?s) (p + 1) t"
    using Cons.prems(2) rest by (auto intro!: cstr_cong [of "vmem s"] simp: only_video_def apart_iff)
  from Cons.IH [OF display.step_good [OF Cons.prems(1)] this rest]
  show ?case using Cons.prems(2) by (subst console_puts.simps) simp
qed

text \<open>The caller's format and arguments survive a change of the buffer.\<close>

lemma caller_keeps:
  assumes "\<And>x. \<not> in_range b n x \<Longrightarrow> m' x = m x" "n' \<le> n"
  shows "vargs m b n ap as \<Longrightarrow> vargs m' b n' ap as" "fmt_at m b n fmt f \<Longrightarrow> fmt_at m' b n' fmt f"
proof -
  have cs: "cstr m' a s" if "cstr m a s" "apart b n a (Suc (length s))" for a s
    using that assms(1) by (auto intro!: cstr_cong [of m a s] simp: apart_iff)
  show "vargs m' b n' ap as" if "vargs m b n ap as" using that
  proof (induction as arbitrary: ap)
    case (Cons a as)
    then have "apart b n ap 4" by simp
    then have "apart ap 4 b n" by (rule apart_commute [THEN iffD1])
    then have "load32 m' ap = load32 m ap" by (rule quad.ld_outside [rotated]) (rule assms(1))
    then show ?case using Cons assms(2) cs by (auto split: arg.splits elim: apart_mono)
  qed simp
  show "fmt_at m' b n' fmt f" if "fmt_at m b n fmt f"
    using that cs assms(2) by (auto simp: fmt_at_def elim: apart_mono)
qed

text \<open>What does not concern the console: any change of memory but that of the screen and of the two fields
  that give its size. The static variables belong to \<open>console_putc\<close>.\<close>

definition undisturbed :: "console \<Rightarrow> console \<Rightarrow> bool" where
  "undisturbed c d \<longleftrightarrow> column d = column c \<and> row d = row c
     \<and> (\<forall>x. in_range 0xC00B8000 0x8000 x \<or> x \<in> {0xC000044A, 0xC000044B, 0xC0000484} \<longrightarrow> vmem d x = vmem c x)"

lemma undisturbed_screen:
  assumes "undisturbed c d" shows "screen_of d = screen_of c" "console_ok C R d = console_ok C R c"
proof -
  have "in_range 0xC00B8000 0x8000 (0xC00B8000 + of_nat i)" if "i < 0x8000" for i
    using that by simp
  then have "vmem d (0xC00B8000 + of_nat i) = vmem c (0xC00B8000 + of_nat i)" if "i < 0x8000" for i
    using assms that unfolding undisturbed_def by blast
  then have "vcell (vmem d) k = vcell (vmem c) k" if "k < 0x4000" for k
    unfolding vcell_bytes using that by (simp only:)
  then have "video_cells (vmem d) = video_cells (vmem c)" by (auto simp: video_cells_def fun_eq_iff)
  then show s: "screen_of d = screen_of c" using assms by (simp add: screen_of_def undisturbed_def)
  show "console_ok C R d = console_ok C R c"
    using assms unfolding console_ok_def s
    by (simp add: geometry_def NumberOfColumns_def NumberOfRows_def load16_def undisturbed_def)
qed

text \<open>The buffer after \<open>memset\<close> and \<open>vsprintf\<close>.\<close>

lemma printk_buffer:
  assumes "fits f as" "length (format f as) + 2 \<le> 4096" "fmt_at m buf 4096 fmt f" "vargs m buf 4096 argp as"
  shows "\<exists>m'. vsprintf (fst (memset m buf 0 4096)) buf fmt argp = Some (of_nat (length (format f as)), m')
    \<and> cstr m' buf (format f as) \<and> (\<forall>x. \<not> in_range buf 4096 x \<longrightarrow> m' x = m x)"
proof -
  let ?out = "format f as"
  define m1 where "m1 = fst (memset m buf 0 4096)"
  have m1: "m1 x = (if in_range buf 4096 x then 0 else m x)" for x
    by (simp add: m1_def memset_filled filled_def)
  have "zeroed m1 buf (length ?out + 2)"
    using assms(2) m1 unfolding zeroed_def by (simp add: in_range_offset)
  moreover have "vargs m1 buf (length ?out + 2) argp as"
    by (rule caller_keeps(1) [OF _ assms(2,4)]) (simp add: m1)
  moreover have "fmt_at m1 buf (length ?out + 2) fmt f"
    by (rule caller_keeps(2) [OF _ assms(2,3)]) (simp add: m1)
  ultimately have "printing m1 fmt buf argp f as" using assms(1,2) by (simp add: printing_def Let_def)
  note out = vsprintf_eq [OF this]
  have other: "put_bytes m1 buf (?out @ [0]) x = m x" if "\<not> in_range buf 4096 x" for x
    using that assms(2) in_range_mono [of buf "length (?out @ [0])" x 4096]
    by (subst put_bytes_other) (auto simp: m1)
  have "0 \<notin> set f" using assms(3) by (auto simp: fmt_at_def cstr_iff)
  then have "0 \<notin> set ?out" using vargs_nonzero [OF assms(4)] by (rule format_nonzero)
  then have "cstr (put_bytes m1 buf (?out @ [0])) buf ?out" using assms(2) by (intro cstr_put_bytes) simp_all
  then show ?thesis using out other unfolding m1_def by blast
qed

text \<open>\<open>printk\<close> returns, and shows on the screen exactly the reference text of its format and
  arguments, when the text fits its buffer and the buffer, the format, the arguments and the
  video memory do not overlap: nothing but the buffer and the video memory changes.\<close>

theorem printk_shows:
  assumes "console_ok C R s" "fits f as" "length (format f as) + 2 \<le> 4096"
    and "fmt_at (vmem s) buf 4096 fmt f" "vargs (vmem s) buf 4096 argp as"
    and "apart video 0x8000 buf 4096" "apart buf 4096 0xC000044A 2" "apart buf 4096 0xC0000484 1"
  shows "\<exists>s'. printk buf fmt argp s = Some s'
    \<and> screen_of s' = fold (put C R) (format f as) (screen_of s) \<and> console_ok C R s'
    \<and> (\<forall>x. \<not> in_video x \<longrightarrow> \<not> in_range buf 4096 x \<longrightarrow> vmem s' x = vmem s x)"
proof -
  let ?out = "format f as"
  obtain m2 where out: "vsprintf (fst (memset (vmem s) buf 0 4096)) buf fmt argp = Some (of_nat (length ?out), m2)"
    and text_at: "cstr m2 buf ?out" and m2: "\<And>x. \<not> in_range buf 4096 x \<Longrightarrow> m2 x = vmem s x"
    using printk_buffer [OF assms(2-5)] by blast
  define s2 where "s2 = s\<lparr>vmem := m2\<rparr>"
  have "m2 x = vmem s x" if "in_range a k x" "apart buf 4096 a k" for a k x
    using m2 [of x] that by (auto simp: apart_iff)
  from this [OF _ assms(7)] this [OF _ assms(8)] this [of video "0x8000"] have "undisturbed s s2"
    using assms(6) by (auto simp: undisturbed_def s2_def apart_commute in_range_def)
  note ok = undisturbed_screen(2) [OF this, THEN iffD2, OF assms(1)] and same = undisturbed_screen(1) [OF this]
  have "apart video 0x8000 buf (Suc (length ?out))" using assms(3,6) by (auto elim: apart_mono)
  then have puts: "console_puts buf s2 = Some (fold console_putc ?out s2)"
    using text_at by (intro puts_text [OF ok]) (simp_all add: s2_def)
  have "printk buf fmt argp s = Some (fold console_putc ?out s2)"
    using puts out unfolding printk_def by (simp add: Let_def s2_def)
  moreover have "vmem (fold console_putc ?out s2) x = vmem s x" if "\<not> in_video x" "\<not> in_range buf 4096 x" for x
    using display.run_same [OF ok, of ?out] that m2 by (simp add: only_video_def s2_def)
  ultimately show ?thesis
    using display.run_abs [OF ok, of ?out] display.run_good [OF ok, of ?out] same by auto
qed

section \<open>Examples\<close>

text \<open>A screen of 80 by 25, and at 0x1000 the string \<open>Hi\<close>.\<close>

definition example_console :: console where
  "example_console = \<lparr>vmem = \<lambda>x. if x = 0xC000044A then 80 else if x = 0xC0000484 then 24
     else if x = 0x1000 then 72 else if x = 0x1001 then 105 else 0, column = 0, row = 0\<rparr>"

lemma example_console_ok: "console_ok 80 24 example_console"
  by (simp add: console_ok_def geometry_def NumberOfColumns_def NumberOfRows_def load16_def
      example_console_def on_screen_def screen_of_def)

lemma console_putc_refines_witness:
  "line (screen_of (console_putc 10 example_console)) = 1"
  using console_putc_refines [OF example_console_ok, of 10]
  by (simp add: put_def wrapped_def scrolled_def Let_def screen_of_def example_console_def)

lemma console_line_witness:
  "cells (screen_of (fold console_putc [72, 105] example_console)) 1 = 0xF169"
  using console_line [OF example_console_ok, of "[72, 105]"]
  by (simp add: written_def scrolled_def Let_def screen_of_def example_console_def attr_def)

lemma printk_shows_witness:
  "\<exists>s'. printk 0x2000 0x1000 0x3000 example_console = Some s'
    \<and> screen_of s' = fold (put 80 24) [72, 105] (screen_of example_console)"
proof -
  have f: "format [72, 105] [] = [72, 105]" "fits [72, 105] []" by simp_all
  have "fmt_at (vmem example_console) 0x2000 4096 0x1000 [72, 105]"
    by (simp add: fmt_at_def example_console_def apart_def)
  from printk_shows [OF example_console_ok f(2) _ this, of "0x3000"] show ?thesis
    unfolding f by (simp add: apart_def) blast
qed

end
