(* ===== verification/Output.thy ===== *)
theory Output
  imports Observers Console
begin

text \<open>
  The output of the kernel. The drivers call \<open>printk\<close> (ksrc/printk.c) through events; this theory
  composes the two. Every call of \<open>printk\<close> in the kernel passes the arguments its format asks
  for and prints a text that fits the buffer, but for the command line of the loader, which has no
  bound. A run of \<open>printk\<close> over the calls of a trace then leaves on the screen exactly the text of
  the trace.
\<close>

section \<open>Calls that fit the buffer\<close>

definition prints_fit :: "'a machine_scheme \<Rightarrow> bool" where
  "prints_fit s \<longleftrightarrow> list_all (printable 4096) (trace s)"

text \<open>Every operation of the kernel keeps it: it prints nothing, or what fits.\<close>

interpretation prints: boot_observer prints_fit "\<lambda>e. \<not> printable 4096 e"
  by unfold_locales (auto simp: prints_fit_def control_def split: event.splits)

text \<open>The events behind the first \<open>n\<close> fit the buffer.\<close>

definition recent_fit :: "nat \<Rightarrow> 'a machine_scheme \<Rightarrow> bool" where
  "recent_fit n s \<longleftrightarrow> list_all (printable 4096) (drop n (trace s))"

interpretation recent: observer "recent_fit n" "\<lambda>e. \<not> printable 4096 e" for n
proof unfold_locales
  fix s t :: "'a acpi_scheme" and es
  assume "trace t = trace s @ es" "list_all (\<lambda>e. \<not> \<not> printable 4096 e) es"
  then show "recent_fit n t = recent_fit n s" by (auto simp: recent_fit_def list_all_iff dest: in_set_dropD)
qed (simp_all add: recent_fit_def)

lemma new_events_fit:
  assumes "recent_fit (length (trace s)) t = recent_fit (length (trace s)) s" "trace t = trace s @ es"
  shows "list_all (printable 4096) es"
  using assms by (simp add: recent_fit_def)

lemma fit_kmain:
  assumes "kmain k magic mbi m s = Some (m', t)" "magic = 0x2BADB002 \<Longrightarrow> short_cmdline k mbi m'"
  shows "prints_fit t = prints_fit s"
  using prints.kept_kmain [OF assms(1)] prints.kept_short_arguments [OF _ assms(2)] by blast

text \<open>The run of \<open>kmain\<close> inside a run from the loader's state.\<close>

lemma start_kmain:
  fixes r :: idt_registers and s :: "'a acpi_scheme"
  assumes "boot_ok k m" "loader_state s" "start k scratch scratch' (r, m, s) = Some (m', t)"
  shows "\<exists>m0 s0. kmain (kernel_image k) (fst scratch') (ebx r + KERNEL_CONFIG_VMA) m0 s0 = Some (m', t)
    \<and> prints_fit s0 = prints_fit s"
proof -
  define b where "b = stack_top k - 12 - KERNEL_CONFIG_VMA"
  note ok = boot_okD [OF assms(1), folded b_def]
  obtain r1 m1 s1 where one: "entry_low k scratch (r, m, s) = Some (r1, m1, s1)" "ebx r1 = ebx r + KERNEL_CONFIG_VMA" "esp r1 = b + 8"
    and out: "\<And>x. \<not> in_range b 12 x \<Longrightarrow> \<not> in_range (gdt_table k - KERNEL_CONFIG_VMA) 80 x
      \<Longrightarrow> \<not> in_range (gdt_pointer k - KERNEL_CONFIG_VMA) 6 x \<Longrightarrow> m1 x = m x"
    using entry_low_effect [OF assms(1,2), of scratch r, folded b_def] by blast
  have bound: "load32 m1 (kernel_end k) = load32 m (kernel_end k)"
    using ok(4,12,13) by (intro quad.ld_cong out) (auto simp: apart_iff)
  obtain r2 m2 s2 where two: "entry_higher_half k scratch' (r1, m1, s1) = Some (r2, m2, s2)"
    "argument 0 (r2, m2, s2) = Some (fst scratch')" "argument 1 (r2, m2, s2) = Some (ebx r1)"
    using entry_high_effect [of k m1 b r1 scratch' s1] ok(5,6,14-16,19,20) one(3) unfolding bound by blast
  have "kmain (kernel_image k) (fst scratch') (ebx r + KERNEL_CONFIG_VMA) m2 s2 = Some (m', t)"
    using assms(3) by (simp add: start_def calls_kmain_def one(1,2) two del: One_nat_def)
  moreover have "prints_fit s2 = prints_fit s"
    using prints.kept_entry_low [OF one(1)] prints.kept_entry_high [OF two(1)] by simp
  ultimately show ?thesis by blast
qed

section \<open>Calls on the screen\<close>

text \<open>The characters a trace prints.\<close>

definition transcript :: "event list \<Rightarrow> u8 list" where
  "transcript es = concat (map (\<lambda>e. case e of Print f as \<Rightarrow> format (chars f) as | _ \<Rightarrow> []) es)"

text \<open>What a call needs of memory: the buffer on the stack apart from the screen, its size, the format and
  the arguments.\<close>

definition called_with :: "console \<Rightarrow> u32 \<Rightarrow> u32 \<Rightarrow> u32 \<Rightarrow> u8 list \<Rightarrow> arg list \<Rightarrow> bool" where
  "called_with c buf fmt argp f as \<longleftrightarrow> fmt_at (vmem c) buf 4096 fmt f \<and> vargs (vmem c) buf 4096 argp as
     \<and> apart 0xC00B8000 0x8000 buf 4096 \<and> apart buf 4096 0xC000044A 2 \<and> apart buf 4096 0xC0000484 1"

text \<open>\<open>displays c es d\<close>: the console is \<open>d\<close> after the events \<open>es\<close>, every print among them being a
  call of \<open>printk\<close>.\<close>

inductive displays :: "console \<Rightarrow> event list \<Rightarrow> console \<Rightarrow> bool" for c where
  nothing: "displays c [] c"
| elsewhere: "displays c es d \<Longrightarrow> undisturbed d d' \<Longrightarrow> displays c es d'"
| silent: "displays c es d \<Longrightarrow> (\<And>f as. e \<noteq> Print f as) \<Longrightarrow> displays c (es @ [e]) d"
| call: "displays c es d \<Longrightarrow> called_with d buf fmt argp (chars f) as \<Longrightarrow> printk buf fmt argp d = Some d'
    \<Longrightarrow> displays c (es @ [Print f as]) d'"

lemma transcript_simps [simp]:
  "transcript [] = []" "transcript (es @ es') = transcript es @ transcript es'"
  "transcript (Print f as # es) = format (chars f) as @ transcript es"
  "(\<And>f as. e \<noteq> Print f as) \<Longrightarrow> transcript (e # es) = transcript es"
  by (simp_all add: transcript_def split: event.split)

lemma printable_call:
  assumes "console_ok C R d" "printable 4096 (Print f as)" "called_with d buf fmt argp (chars f) as"
  shows "\<exists>d'. printk buf fmt argp d = Some d' \<and> console_ok C R d'
    \<and> screen_of d' = fold (put C R) (format (chars f) as) (screen_of d)"
  using printk_shows [OF assms(1)] assms(2,3) by (fastforce simp: printable_def called_with_def)

lemma displays_transcript:
  assumes "displays c es d" "list_all (printable 4096) es" "console_ok C R c"
  shows "screen_of d = fold (put C R) (transcript es) (screen_of c) \<and> console_ok C R d"
  using assms
proof (induction rule: displays.induct)
  case (elsewhere es d d')
  then show ?case using undisturbed_screen by simp
next
  case (call es d buf fmt argp f as d')
  then show ?case using printable_call [of C R d f as buf fmt argp] by auto
qed simp_all

lemma calls_return:
  assumes "list_all (printable 4096) es" "console_ok C R c" "es = as @ Print f l # bs" "displays c as d'" "called_with d' buf fmt argp (chars f) l"
  shows "\<exists>d''. printk buf fmt argp d' = Some d'' \<and> displays c (as @ [Print f l]) d''"
proof -
  have "list_all (printable 4096) as" "printable 4096 (Print f l)" using assms(1,3) by simp_all
  then show ?thesis
    using displays_transcript [OF assms(4) _ assms(2)] printable_call [of C R d' f l buf fmt argp] assms(5) displays.call [OF assms(4,5)]
    by blast
qed

section \<open>Properties\<close>

text \<open>C7. From the loader's state on, through the entry code, \<open>kmain\<close> and any sequence of interrupts, every
  call of \<open>printk\<close> passes arguments of the number and types its format asks for, and its text fits
  the buffer, provided that the command line of the loader has at most 4082 characters.\<close>

theorem kernel_prints_fit:
  fixes s :: "'a acpi_scheme"
  assumes "boot_ok k m" "loader_state s" "prints_fit s" "start k scratch scratch' (r, m, s) = Some (m', t)"
    and "idle (page_directory (kernel_image k) - KERNEL_CONFIG_VMA) m' t vs w"
    and "fst scratch' = 0x2BADB002 \<Longrightarrow> short_cmdline (kernel_image k) (ebx r + KERNEL_CONFIG_VMA) m'"
  shows "prints_fit w \<and> (\<forall>v r e f. case dispatch (page_directory (kernel_image k) - KERNEL_CONFIG_VMA) m' v r e f w of
      Returned x \<Rightarrow> prints_fit x | Halted x \<Rightarrow> prints_fit x)"
proof -
  obtain m0 s0 where run: "kmain (kernel_image k) (fst scratch') (ebx r + KERNEL_CONFIG_VMA) m0 s0 = Some (m', t)"
    "prints_fit s0 = prints_fit s" using start_kmain [OF assms(1,2,4)] by blast
  have "prints_fit w" using fit_kmain [OF run(1) assms(6)] prints.kept_idle [OF assms(5)] run(2) assms(3) by simp
  moreover have "case dispatch (page_directory (kernel_image k) - KERNEL_CONFIG_VMA) m' v r e f w of
      Returned x \<Rightarrow> prints_fit x | Halted x \<Rightarrow> prints_fit x" for v r e f
    using calculation prints.kept_dispatch [of "page_directory (kernel_image k) - KERNEL_CONFIG_VMA" m' v r e f w]
    by (simp add: outcome_state_def split: outcome.splits)
  ultimately show ?thesis by blast
qed

lemma fit_executes:
  assumes "executes k magic mbi (g0, m, s) vs c" "prints_fit s"
    and "fst c = Vendor \<or> fst c = Idle \<Longrightarrow> magic = 0x2BADB002 \<Longrightarrow> short_cmdline k mbi (fst (snd c))"
  shows "prints_fit (snd (snd c))"
  using assms
proof (induction rule: executes.induct)
  case (calls vs c' c'')
  obtain g m' t where c': "c' = (g, m', t)" by (rule prod_cases3)
  show ?case
    using calls.prems calls.hyps(2) calls.IH unfolding c'
    by (cases g) (auto simp: prints.kept_emit prints.kept_inputs dest: prints.kept_timer_config prints.kept_acpi_init prints.kept_short_arguments prints.kept_vendor)
qed (auto dest: prints.kept_returned)

text \<open>C8. The composition with \<open>printk\<close>: whatever the rest of the kernel does to memory outside the screen
  between its calls, and with interrupts between the calls of \<open>kmain\<close>, every call of \<open>printk\<close> whose
  format, arguments and buffer are laid out returns, and the screen at the end is the one that the
  text of all calls so far makes of the screen at the start.\<close>

theorem kernel_output:
  fixes s t :: "'a acpi_scheme"
  assumes "prints_fit s" "executes k magic mbi (g0, m, s) vs (g, m', t)"
    and "g = Vendor \<or> g = Idle \<Longrightarrow> magic = 0x2BADB002 \<Longrightarrow> short_cmdline k mbi m'"
    and "console_ok C R c" "displays c (trace t) d"
  shows "screen_of d = fold (put C R) (transcript (trace t)) (screen_of c) \<and> console_ok C R d
    \<and> (\<forall>es f as es' d' buf fmt argp. trace t = es @ Print f as # es' \<and> displays c es d'
        \<and> called_with d' buf fmt argp (chars f) as \<longrightarrow>
        (\<exists>d''. printk buf fmt argp d' = Some d'' \<and> displays c (es @ [Print f as]) d''))"
proof -
  have fit: "list_all (printable 4096) (trace t)"
    using fit_executes [OF assms(2,1)] assms(3) by (simp add: prints_fit_def)
  then show ?thesis using displays_transcript [OF assms(5) fit assms(4)] calls_return [OF fit assms(4)] by blast
qed

text \<open>C32. A text of \<open>printk\<close> longer than its buffer is written to memory behind it. For a call with one \<open>%s\<close>
  (the command line of the loader is printed with \<open>    Args = %s\<close> and a line feed) and a string that
  does not fit: \<open>vsprintf\<close> writes every character of it, the ones behind the buffer too, over whatever
  is there, and \<open>printk\<close> goes on with that memory. In the kernel the memory behind the buffer is the
  frame of \<open>printk\<close>, then its arguments; the argument itself may be among what is overwritten.\<close>

theorem printk_overflow:
  fixes c :: console and pre post x :: "u8 list"
  assumes "cstr (vmem c) fmt (pre @ [37, 115] @ post)" "37 \<notin> set pre" "37 \<notin> set post"
    and "cstr (vmem c) (load32 (vmem c) argp) x" "4096 < length (pre @ x)" "length pre \<le> 4096"
    and "n = length (pre @ x @ post) + 3" "n \<le> 2 ^ 32" "apart buf n fmt (length (pre @ post) + 3)"
    and "apart buf 4096 argp 4" "apart buf n (load32 (vmem c) argp) (Suc (length x))"
  shows "\<exists>m'. printk buf fmt argp c = console_puts buf (c\<lparr>vmem := m'\<rparr>)
    \<and> (\<forall>i < length (pre @ x). m' (buf + of_nat i) = (pre @ x) ! i)
    \<and> (\<forall>y. \<not> in_range buf n y \<longrightarrow> m' y = vmem c y)"
proof -
  let ?m = "fst (memset (vmem c) buf 0 4096)"
  have m: "?m y = (if in_range buf 4096 y then 0 else vmem c y)" for y by (simp add: memset_filled filled_def)
  have big: "4096 \<le> n" using assms(5,7) by simp
  have keep: "?m y = vmem c y" if "\<not> in_range buf n y" for y
    using that in_range_mono [OF _ big, of buf y] by (auto simp: m)
  have arg: "load32 ?m argp = load32 (vmem c) argp"
    using assms(10) by (intro quad.ld_cong) (auto simp: m apart_iff)
  have f: "cstr ?m fmt (pre @ [37, 115] @ post)"
    by (rule cstr_cong [OF assms(1)]) (use keep assms(9) in \<open>auto simp: apart_iff numeral_3_eq_3\<close>)
  have x: "cstr ?m (load32 ?m argp) x"
    unfolding arg by (rule cstr_cong [OF assms(4)]) (use keep assms(11) in \<open>auto simp: apart_iff\<close>)
  have ap: "apart buf (length pre) argp 4" using assms(10,6) by (rule apart_mono) simp
  define gap where "gap = (if ?m (buf + of_nat (Suc (length pre + length x))) = 0 then [] else [0 :: u8])"
  have n: "length pre + length x + length post + 3 = n" using assms(7) by simp
  have v: "vsprintf ?m buf fmt argp = Some (of_nat (length pre + length x + length gap + length post), put_bytes ?m buf (pre @ x @ gap @ post @ [0]))"
    unfolding gap_def
    by (rule vsprintf_one_string [OF f assms(2,3) x, unfolded n, OF assms(8) _ ap]) (use assms(9,11) in \<open>simp_all add: arg\<close>)
  have gap: "length gap \<le> 1" by (simp add: gap_def)
  define out where "out = pre @ x @ gap @ post @ [0]"
  have len: "length out \<le> n" "length (pre @ x) < 2 ^ 32" using gap assms(7,8) by (simp_all add: out_def)
  have "put_bytes ?m buf out (buf + of_nat i) = (pre @ x) ! i" if "i < length (pre @ x)" for i
  proof -
    have "out = (pre @ x) @ gap @ post @ [0]" by (simp add: out_def)
    then have "out ! i = (pre @ x) ! i" "i < length out" using that by (simp_all only: nth_append if_True) simp
    then show ?thesis using that len(2) by (simp add: put_bytes_def unat_of_nat take_bit_nat_eq_self)
  qed
  moreover have "put_bytes ?m buf out y = vmem c y" if "\<not> in_range buf n y" for y
    using keep [OF that] that in_range_mono [OF _ len(1), of buf y] put_bytes_other [of buf out y ?m] by auto
  moreover have "printk buf fmt argp c = console_puts buf (c\<lparr>vmem := put_bytes ?m buf out\<rparr>)"
    by (simp add: printk_def v out_def)
  ultimately show ?thesis by blast
qed

section \<open>What the initialisation prints\<close>

text \<open>The calls of \<open>printk\<close> in a trace.\<close>

definition print_calls :: "event list \<Rightarrow> (string \<times> arg list) list" where
  "print_calls es = concat (map (\<lambda>e. case e of Print f as \<Rightarrow> [(f, as)] | _ \<Rightarrow> []) es)"

lemma print_calls_simps [simp]:
  "print_calls [] = []" "print_calls (es @ es') = print_calls es @ print_calls es'"
  "print_calls (Print f as # es) = (f, as) # print_calls es"
  "(\<And>f as. e \<noteq> Print f as) \<Longrightarrow> print_calls (e # es) = print_calls es"
  by (simp_all add: print_calls_def split: event.split)

lemma transcript_calls: "transcript es = concat (map (\<lambda>(f, as). format (chars f) as) (print_calls es))"
  by (induction es) (simp_all add: transcript_def print_calls_def split: event.split)

named_theorems text_simps

lemma text_machine [text_simps]:
  "print_calls (trace (io_port_outb p b s)) = print_calls (trace s)"
  "print_calls (trace (snd (io_port_inb p s))) = print_calls (trace s)"
  "print_calls (trace (mmio_write a v s)) = print_calls (trace s)"
  "print_calls (trace (snd (mmio_read a s))) = print_calls (trace s)"
  "print_calls (trace (snd (cpu_msr_read n s))) = print_calls (trace s)"
  "print_calls (trace (cpu_msr_write n d x s)) = print_calls (trace s)"
  "print_calls (trace (emit Sti s)) = print_calls (trace s)"
  "print_calls (trace (print f as s)) = print_calls (trace s) @ [(f, as)]"
  by (simp_all add: cpu_msr_read_def cpu_msr_write_def split_beta)

lemma text_ioapic [text_simps]:
  "print_calls (trace (ioapic_write a r v s)) = print_calls (trace s)"
  "print_calls (trace (snd (ioapic_read a r s))) = print_calls (trace s)"
  by (simp_all add: ioapic_write_def ioapic_read_def Let_def text_simps)

lemma text_ioapic_loop [text_simps]: "print_calls (trace (ioapic_loop i n s)) = print_calls (trace s)"
proof (induction i n s rule: ioapic_loop.induct)
  case (1 i n s)
  then show ?case by (subst ioapic_loop.simps) (simp add: Let_def text_simps)
qed

lemma text_inits [text_simps]:
  "print_calls (trace (pic_init s)) = print_calls (trace s) @ [(''Initializing PIC 8259A !\<newline>'', [])]"
  "print_calls (trace (pic_mask_all s)) = print_calls (trace s)"
  "print_calls (trace (ioapic_init s)) = print_calls (trace s) @ [(''Initializing IOAPIC 82093AA !\<newline>'', [])]"
  by (simp_all add: pic_init_def pic_mask_all_def pic_unmask_all_def ioapic_init_def Let_def split_beta text_simps)

lemma text_lapic_init [text_simps]:
  "print_calls (trace (lapic_init s)) = print_calls (trace s) @ [(''Initializing LAPIC 82489DX !\<newline>'', [])]"
  by (simp add: lapic_init_def lapic_get_base_def lapic_enable_def lapic_write_def lapic_read_def Let_def split_beta text_simps)

lemma text_cmos: "cmos_read_rtc s = Some (r, t) \<Longrightarrow> print_calls (trace t) = print_calls (trace s)"
proof -
  assume "cmos_read_rtc s = Some (r, t)"
  then obtain u where u: "cmos_wait (cmos_select 0x0A s) = Some u" "t = snd (cmos_read_all u)"
    by (auto simp: cmos_read_rtc_def)
  have "print_calls (concat (map cmos_events vs)) = []" for vs by (induction vs) (simp_all add: cmos_events_def)
  then have "print_calls (trace u) = print_calls (trace s)"
    using cmos.loop_trace [OF u(1)] by (auto simp: cmos_events_def cmos_select_def)
  then show ?thesis
    by (simp add: u(2) cmos_read_all_def cmos_get_def cmos_bcd2dec_read_def cmos_read_def cmos_select_def split_beta Let_def text_simps)
qed

lemma prepare_calls:
  assumes "kmain_prepare s = Some t" "trace t = trace s @ es"
  shows "\<exists>rtc u. cmos_read_rtc s = Some (rtc, u) \<and> print_calls es =
    [(''KERNEL Init Today at: %u/%u/%u %u:%u:%u !\<newline>'', [Num (date_of_month rtc), Num (month rtc), Num (year rtc),
        Num (hours rtc), Num (minutes rtc), Num (seconds rtc)]),
     (''Initializing PIC 8259A !\<newline>'', []), (''Initializing LAPIC 82489DX !\<newline>'', []), (''Initializing IOAPIC 82093AA !\<newline>'', [])]"
proof -
  obtain rtc u where u: "cmos_read_rtc s = Some (rtc, u)"
    using assms(1) by (auto simp: kmain_prepare_def split: bind_splits)
  define cs where "cs = [(''KERNEL Init Today at: %u/%u/%u %u:%u:%u !\<newline>'', [Num (date_of_month rtc), Num (month rtc), Num (year rtc),
        Num (hours rtc), Num (minutes rtc), Num (seconds rtc)]),
     (''Initializing PIC 8259A !\<newline>'', []), (''Initializing LAPIC 82489DX !\<newline>'', []), (''Initializing IOAPIC 82093AA !\<newline>'', [])]"
  have "print_calls (trace t) = print_calls (trace s) @ cs"
    using assms(1) by (auto simp: kmain_prepare_def Let_def text_simps text_cmos [OF u] u cs_def)
  then have "print_calls es = cs" by (simp add: assms(2))
  then show ?thesis using u unfolding cs_def by blast
qed

lemma prepare_fits:
  fixes s t :: "'a acpi_scheme"
  assumes "kmain_prepare s = Some t" "trace t = trace s @ es" shows "list_all (printable 4096) es"
  using recent.kept_prepare [OF assms(1)] assms(2) by (rule new_events_fit)

text \<open>C21. What stands on the screen when \<open>kmain\<close> enables interrupts: through \<open>printk\<close>, \<open>vsprintf\<close> and
  \<open>console_putc\<close> on the memory of the console, with any other changes of memory between the calls,
  the screen is the one before \<open>kmain\<close> with the date and the time of the clock put on it as decimal
  numbers, and one line for each controller in the order of their initialisation; and each of
  these calls returns once its format, arguments and buffer are laid out.\<close>

theorem prepare_text:
  fixes s t :: "'a acpi_scheme"
  assumes "kmain_prepare s = Some t" "trace t = trace s @ es" "console_ok C R c" "displays c es d"
  shows "(\<exists>rtc u. cmos_read_rtc s = Some (rtc, u) \<and> screen_of d = fold (put C R)
    (chars ''KERNEL Init Today at: '' @ dec_text (unat (date_of_month rtc)) @ chars ''/'' @ dec_text (unat (month rtc))
      @ chars ''/'' @ dec_text (unat (year rtc)) @ chars '' '' @ dec_text (unat (hours rtc)) @ chars '':''
      @ dec_text (unat (minutes rtc)) @ chars '':'' @ dec_text (unat (seconds rtc))
      @ chars '' !\<newline>Initializing PIC 8259A !\<newline>Initializing LAPIC 82489DX !\<newline>Initializing IOAPIC 82093AA !\<newline>'') (screen_of c))
    \<and> console_ok C R d
    \<and> (\<forall>as bs f l d' buf fmt argp. es = as @ Print f l # bs \<and> displays c as d' \<and> called_with d' buf fmt argp (chars f) l
        \<longrightarrow> (\<exists>d''. printk buf fmt argp d' = Some d'' \<and> displays c (as @ [Print f l]) d''))"
proof -
  note fit = prepare_fits [OF assms(1,2)]
  obtain rtc u where u: "cmos_read_rtc s = Some (rtc, u)" and calls: "print_calls es =
    [(''KERNEL Init Today at: %u/%u/%u %u:%u:%u !\<newline>'', [Num (date_of_month rtc), Num (month rtc), Num (year rtc),
        Num (hours rtc), Num (minutes rtc), Num (seconds rtc)]),
     (''Initializing PIC 8259A !\<newline>'', []), (''Initializing LAPIC 82489DX !\<newline>'', []), (''Initializing IOAPIC 82093AA !\<newline>'', [])]"
    using prepare_calls [OF assms(1,2)] by blast
  have "transcript es = chars ''KERNEL Init Today at: '' @ dec_text (unat (date_of_month rtc)) @ chars ''/'' @ dec_text (unat (month rtc))
    @ chars ''/'' @ dec_text (unat (year rtc)) @ chars '' '' @ dec_text (unat (hours rtc)) @ chars '':''
    @ dec_text (unat (minutes rtc)) @ chars '':'' @ dec_text (unat (seconds rtc))
    @ chars '' !\<newline>Initializing PIC 8259A !\<newline>Initializing LAPIC 82489DX !\<newline>Initializing IOAPIC 82093AA !\<newline>''"
    unfolding transcript_calls calls by (simp add: chars_def conv_text_def)
  with displays_transcript [OF assms(4) fit assms(3)] u show ?thesis
    using calls_return [OF fit assms(3)] by auto
qed

section \<open>Examples\<close>

text \<open>A keyboard interrupt in the idle loop: one byte is read, acknowledged and printed.\<close>

definition typing :: acpi where
  "typing = \<lparr>hw = quiet\<lparr>port8 := \<lambda>es p. 30\<rparr>, trace = [], lapic_base = 0xFEE00000, lapic_ticks_per_ms = 0,
     lapic_ticks_per_us = 0, idt_gate = \<lambda>i. 0, idt_gate_callback = \<lambda>i. Kbd_irq_handler, lidt_limit = 0, lidt_base = 0,
     global_fadt = 0\<rparr>"

lemma typing_printed:
  "\<exists>t. dispatch D m 33 r e f typing = Returned t
    \<and> trace t = [InB 0x60 30, MmioWrite 0xFEE000B0 33] @ [Print ''KBD %u, IRQ %d |'' [Num 30, Num 33]]"
  by (simp add: dispatch_def typing_def kbd_irq_handler_def lapic_eio_def lapic_write_def io_port_inb_def mmio_write_def
      print_def emit_def quiet_def Let_def)

text \<open>The console of 80 by 25 with the format at 0x1000, the arguments at 0x2000 and the buffer at 0x4000.\<close>

definition typing_console :: console where
  "typing_console = \<lparr>vmem = memory_of ([(0xC000044A, 80), (0xC0000484, 24), (0x2000, 30), (0x2004, 33)]
     @ place 0x1000 (chars ''KBD %u, IRQ %d |'')), column = 0, row = 0\<rparr>"

lemma typing_console_ok: "console_ok 80 24 typing_console"
  by (simp add: console_ok_def geometry_def NumberOfColumns_def NumberOfRows_def load16_def
      typing_console_def on_screen_def screen_of_def memory_of_def place_def chars_def)

lemma typing_laid_out:
  "called_with typing_console 0x4000 0x1000 0x2000 (chars ''KBD %u, IRQ %d |'') [Num 30, Num 33]"
  by (simp add: called_with_def fmt_at_def typing_console_def memory_of_def place_def chars_def load32_def apart_def)

lemma kernel_output_witness:
  "\<exists>t d. executes example_image 0 0 (Idle, \<lambda>a. 0, typing) [33] (Idle, \<lambda>a. 0, t) \<and> displays typing_console (trace t) d
    \<and> screen_of d = fold (put 80 24) (chars ''KBD 30, IRQ 33 |'') (screen_of typing_console)"
proof -
  obtain r f t where t: "dispatch (page_directory example_image - KERNEL_CONFIG_VMA) (\<lambda>a. 0) 33 r 0 f typing = Returned t"
    "trace t = [InB 0x60 30, MmioWrite 0xFEE000B0 33] @ [Print ''KBD %u, IRQ %d |'' [Num 30, Num 33]]"
    using typing_printed by blast
  have "executes example_image 0 0 (Idle, \<lambda>a. 0, typing) ([] @ [33]) (Idle, \<lambda>a. 0, t)"
    by (rule executes.interrupted [OF executes.begins _ _ t(1)]) simp_all
  then have run: "executes example_image 0 0 (Idle, \<lambda>a. 0, typing) [33] (Idle, \<lambda>a. 0, t)" by simp
  have fit: "prints_fit typing" by (simp add: prints_fit_def typing_def)
  have "displays typing_console ([] @ [InB 0x60 30]) typing_console"
    by (intro displays.silent displays.nothing) simp
  then have "displays typing_console (([] @ [InB 0x60 30]) @ [MmioWrite 0xFEE000B0 33]) typing_console"
    by (rule displays.silent) simp
  then have "displays typing_console [InB 0x60 30, MmioWrite 0xFEE000B0 33] typing_console" by simp
  moreover have "printable 4096 (Print ''KBD %u, IRQ %d |'' [Num 30, Num 33])"
    using fit_executes [OF run fit] by (simp add: prints_fit_def t(2))
  then obtain d where "printk 0x4000 0x1000 0x2000 typing_console = Some d"
    using printable_call [OF typing_console_ok _ typing_laid_out] by blast
  ultimately have d: "displays typing_console (trace t) d"
    using displays.call [OF _ typing_laid_out] unfolding t(2) by blast
  have "dec_text 30 = chars ''30''" "int_text 33 = chars ''33''"
    by (simp_all add: dec_text_def int_text_def digits.simps dec_char_def chars_def)
  then have "transcript (trace t) = chars ''KBD 30, IRQ 33 |''" by (simp add: t(2) chars_def conv_text_def)
  then show ?thesis using kernel_output [OF fit run _ typing_console_ok d] run d by auto
qed

lemma kernel_prints_fit_witness:
  "\<exists>m' t. start example_boot (0, 0, 0) (0x80000011, 0, 0)
      (idt_registers.make 0 0 0 0 0x9500 0 0 0x2BADB002, boot_memory, example_machine) = Some (m', t) \<and> prints_fit t"
proof -
  obtain m' t where t: "start example_boot (0, 0, 0) (0x80000011, 0, 0)
      (idt_registers.make 0 0 0 0 0x9500 0 0 0x2BADB002, boot_memory, example_machine) = Some (m', t)"
    by (rule boot_reaches_idle)
  have "prints_fit example_machine" by (simp add: prints_fit_def example_machine_def example_acpi_def)
  from kernel_prints_fit [OF example_boot_ok this t idle.start] t show ?thesis by auto
qed

text \<open>5000 characters A at 0x10000, a format at 0x1000, and the argument where the compiler puts it, 0x18 bytes
  behind the buffer at 0x20000.\<close>

definition long_memory :: mem where
  "long_memory x = (if in_range 0x10000 5000 x then 65 else if x = 0x1000 then 61 else if x = 0x1001 then 37
     else if x = 0x1002 then 115 else if x = 0x1003 then 10 else if x = 0x2101A then 1 else if in_range 0x21000 0x18 x then 0xEE else 0)"

lemma printk_overflow_witness:
  "\<exists>m'. printk 0x20000 0x1000 0x21018 \<lparr>vmem = long_memory, column = 0, row = 0\<rparr>
      = console_puts 0x20000 \<lparr>vmem = m', column = 0, row = 0\<rparr> \<and> m' (0x20000 + 4096) = 65 \<and> long_memory (0x20000 + 4096) = 0xEE"
proof -
  let ?c = "\<lparr>vmem = long_memory, column = 0, row = 0\<rparr>" and ?x = "replicate 5000 65 :: u8 list"
  have cells: "long_memory (0x10000 + of_nat i) = (if i < 5000 then 65 else 0)" if "i < 5001" for i
  proof -
    have "apart 0x10000 5001 0x21000 0x18" by (simp add: apart_def)
    then have "\<not> in_range 0x21000 0x18 (0x10000 + of_nat i)" using that by (auto simp: apart_iff)
    then show ?thesis
      using that by (auto simp: long_memory_def in_range_def unat_of_nat take_bit_nat_eq_self word_unat_eq_iff unat_word_ariths)
  qed
  have "load32 long_memory 0x21018 = 0x10000" by (simp add: load32_def long_memory_def in_range_def)
  moreover have "cstr long_memory 0x10000 ?x"
    unfolding cstr_iff using cells cells [of 5000] by auto
  ultimately have h: "cstr (vmem ?c) (load32 (vmem ?c) 0x21018) ?x" "load32 (vmem ?c) 0x21018 = 0x10000" by simp_all
  have f: "cstr (vmem ?c) 0x1000 ([61] @ [37, 115] @ [10])" "37 \<notin> set [61 :: u8]" "37 \<notin> set [10 :: u8]"
    by (simp_all add: long_memory_def in_range_def)
  have len: "4096 < length ([61] @ ?x)" "length [61 :: u8] \<le> 4096" "5005 = length ([61] @ ?x @ [10]) + 3" "(5005 :: nat) \<le> 2 ^ 32" by simp_all
  have ap: "apart 0x20000 5005 0x1000 (length ([61] @ [10 :: u8]) + 3)" "apart 0x20000 4096 0x21018 4"
    "apart 0x20000 5005 (load32 (vmem ?c) 0x21018) (Suc (length ?x))"
    by (simp_all only: h(2)) (simp_all add: apart_def)
  from printk_overflow [OF f h(1) len ap] obtain m' where m': "printk 0x20000 0x1000 0x21018 ?c = console_puts 0x20000 (?c\<lparr>vmem := m'\<rparr>)"
    "\<forall>i < length ([61] @ ?x). m' (0x20000 + of_nat i) = ([61] @ ?x) ! i" by blast
  from m'(2) [rule_format, of 4096] have "m' (0x20000 + 4096) = 65" by (simp add: nth_append)
  moreover have "long_memory (0x20000 + 4096) = 0xEE" by (simp add: long_memory_def in_range_def)
  ultimately show ?thesis using m'(1) by auto
qed

text \<open>Calls with numbers only can be laid out anywhere: here the format at 0x1000, the arguments at 0x2000
  and the buffer at 0x4000.\<close>

primrec store_args :: "u32 \<Rightarrow> u32 list \<Rightarrow> mem \<Rightarrow> mem" where
  "store_args a [] m = m"
| "store_args a (w # ws) m = store32 (store_args (a + 4) ws m) a w"

lemma store_args_other:
  assumes "\<not> in_range a (4 * length ws) x" "4 * length ws < 2 ^ 32" shows "store_args a ws m x = m x"
  using assms
proof (induction ws arbitrary: a)
  case (Cons w ws)
  have "\<not> in_range (a + of_nat 4) (4 * length ws) x"
    using Cons.prems in_range_part [of a 4 "4 * length ws" x "4 * length (w # ws)"] by auto
  moreover have "\<not> in_range a 4 x" using Cons.prems(1) in_range_mono [of a 4 x "4 * length (w # ws)"] by auto
  ultimately show ?case using Cons by (simp add: quad.st_other)
qed simp

lemma vargs_numbers_cong:
  assumes "\<And>x. in_range a (4 * length ws) x \<Longrightarrow> m' x = m x" "4 * length ws < 2 ^ 32" "vargs m b n a (map Num ws)"
  shows "vargs m' b n a (map Num ws)"
  using assms
proof (induction ws arbitrary: a)
  case (Cons w ws)
  have "load32 m' a = load32 m a"
    by (rule quad.ld_cong) (rule Cons.prems(1), erule in_range_mono, simp)
  moreover have "m' x = m x" if "in_range (a + 4) (4 * length ws) x" for x
    using Cons.prems(1,2) in_range_part [of a 4 "4 * length ws" x "4 * length (w # ws)"] that by auto
  ultimately show ?case using Cons.IH [of "a + 4"] Cons.prems(2,3) by simp
qed simp

lemma store_args_vargs:
  assumes "apart b n ap (4 * length ws)" "4 * length ws < 2 ^ 32"
  shows "vargs (store_args ap ws m) b n ap (map Num ws)"
  using assms
proof (induction ws arbitrary: ap m)
  case (Cons w ws)
  have "apart ap (4 * length (w # ws)) b n" using Cons.prems(1) by (simp add: apart_commute)
  then have "apart (ap + of_nat 4) (4 * length ws) b n" "apart ap 4 b n"
    using Cons.prems(2) apart_shift [of ap "4 * length (w # ws)" b n 4 "4 * length ws"] by (auto elim: apart_mono)
  then have part: "apart b n (ap + 4) (4 * length ws)" "apart b n ap 4" by (simp_all add: apart_commute)
  have small: "4 * length ws < 2 ^ 32" using Cons.prems(2) by simp
  have same: "store32 (store_args (ap + 4) ws m) ap w x = store_args (ap + 4) ws m x" if "in_range (ap + 4) (4 * length ws) x" for x
  proof (rule quad.st_other)
    have "apart (ap + of_nat 0) 4 (ap + of_nat 4) (4 * length ws)"
      using Cons.prems(2) by (intro apart_offsets) simp_all
    then show "\<not> in_range ap 4 x" using that by (auto simp: apart_iff)
  qed
  have "vargs (store32 (store_args (ap + 4) ws m) ap w) b n (ap + 4) (map Num ws)"
    by (rule vargs_numbers_cong [OF same small Cons.IH [OF part(1) small]])
  then show ?case using part(2) by (simp add: quad.ld_st)
qed simp

lemma numbers_laid_out:
  assumes "length f < 4000" "0 \<notin> set f" "length ws < 1000"
  shows "\<exists>d'. undisturbed d d' \<and> called_with d' 0x4000 0x1000 0x2000 f (map Num ws)"
proof -
  define m where "m = store_args 0x2000 ws (put_bytes (vmem d) 0x1000 (f @ [0]))"
  have other: "m x = vmem d x" if "\<not> in_range 0x1000 0x3000 x" for x
  proof -
    have "\<not> in_range (0x1000 + of_nat 0x1000) (4 * length ws) x" "\<not> in_range 0x1000 (length (f @ [0])) x"
      using that in_range_part [of "0x1000" "0x1000" "4 * length ws" x "0x3000"] in_range_mono [of "0x1000" "length (f @ [0])" x "0x3000"] assms
      by auto
    then show ?thesis using assms(3) by (simp add: m_def store_args_other put_bytes_other)
  qed
  have "undisturbed d (d\<lparr>vmem := m\<rparr>)"
  proof -
    have "apart 0xC00B8000 0x8000 0x1000 0x3000" by (simp add: apart_def)
    then show ?thesis using other by (auto simp: undisturbed_def apart_iff in_range_def)
  qed
  moreover have "called_with (d\<lparr>vmem := m\<rparr>) 0x4000 0x1000 0x2000 f (map Num ws)"
  proof -
    have "apart 0x4000 4096 0x2000 4000" "apart 0x4000 4096 0x1000 4000" "apart 0x2000 4000 0x1000 4000" by (simp_all add: apart_def)
    then have ap: "apart 0x4000 4096 0x2000 (4 * length ws)" "apart 0x4000 4096 0x1000 (Suc (length f))" "apart 0x2000 (4 * length ws) 0x1000 (Suc (length f))"
      using assms by (auto elim: apart_mono)
    have "cstr (put_bytes (vmem d) 0x1000 (f @ [0])) 0x1000 f" using assms by (intro cstr_put_bytes) simp_all
    then have "cstr m 0x1000 f"
      by (rule cstr_cong) (use ap(3) assms(3) in \<open>auto simp: m_def apart_iff intro!: store_args_other\<close>)
    moreover have "vargs m 0x4000 4096 0x2000 (map Num ws)"
      unfolding m_def using ap(1) assms(3) by (intro store_args_vargs) simp_all
    ultimately show ?thesis using ap(2) by (simp add: called_with_def fmt_at_def) (simp add: apart_def)
  qed
  ultimately show ?thesis by blast
qed

lemma numbers_displayed:
  assumes "list_all (\<lambda>(f, l). length f < 4000 \<and> (\<exists>ws. l = map Num ws \<and> length ws < 1000)) (print_calls es)"
    and "list_all (printable 4096) es" "console_ok C R c"
  shows "\<exists>d. displays c es d"
  using assms(1,2)
proof (induction es rule: rev_induct)
  case Nil
  show ?case using displays.nothing by blast
next
  case (snoc e es)
  then obtain d where d: "displays c es d" by auto
  show ?case
  proof (cases "\<exists>f l. e = Print f l")
    case False
    then show ?thesis using displays.silent [OF d] by blast
  next
    case True
    then obtain f l where e: "e = Print f l" by blast
    with snoc.prems obtain ws where l: "l = map Num ws" "length ws < 1000" "length f < 4000" by auto
    have "0 \<notin> set (chars f)" using snoc.prems(2) by (simp add: e printable_def)
    with l obtain d' where "undisturbed d d'" "called_with d' 0x4000 0x1000 0x2000 (chars f) l"
      using numbers_laid_out [of "chars f" ws d] by (auto simp: chars_def)
    from calls_return [OF snoc.prems(2) assms(3) _ displays.elsewhere [OF d this(1)] this(2), of "[]"] show ?thesis
      by (auto simp: e)
  qed
qed

lemma prepare_text_witness:
  "\<exists>rtc u t d. cmos_read_rtc example_machine = Some (rtc, u) \<and> kmain_prepare example_machine = Some t
    \<and> displays typing_console (trace t) d \<and> console_ok 80 24 d \<and> (\<exists>text. screen_of d
      = fold (put 80 24) (chars ''KERNEL Init Today at: '' @ dec_text (unat (date_of_month rtc)) @ text) (screen_of typing_console))"
proof -
  obtain t where t: "kmain_prepare example_machine = Some t" using prepare_returns [of example_machine] by auto
  have tr: "trace t = trace example_machine @ trace t" by (simp add: example_machine_def example_acpi_def)
  have "list_all (\<lambda>(f, l). length f < 4000 \<and> (\<exists>ws. l = map Num ws \<and> length ws < 1000)) (print_calls (trace t))"
  proof -
    have "\<exists>ws. [Num a, Num b, Num c, Num d, Num e, Num f] = map Num ws \<and> length ws < 1000" for a b c d e f
      by (rule exI [of _ "[a, b, c, d, e, f]"]) simp
    then show ?thesis using prepare_calls [OF t tr] by auto
  qed
  then obtain d where d: "displays typing_console (trace t) d"
    using numbers_displayed [OF _ prepare_fits [OF t tr] typing_console_ok] by blast
  from prepare_text [OF t tr typing_console_ok d] t d show ?thesis by blast
qed

end
