(* ===== verification/KernelMemory.thy ===== *)
theory KernelMemory
  imports Entry
begin

text \<open>
  The memory of the running kernel. After the entry code \<open>acpi_init\<close> (ksrc/acpi.c) changes physical memory, by
  mapping the two pages of the ACPI root table; all else that changes is the stack and what \<open>printk\<close> writes,
  the video memory and the statics of its cursor. The invariant \<open>kernel_memory\<close>
  of the page tables and the descriptor table survives that, whatever the address of the root
  table: the first 4 MB of the kernel's half stay where they are, and the descriptor table
  stays the flat one.

  The bound of \<open>paging_init\<close> is the marker word of the linker script, which is 0 (ksrc/linker.ld.S),
  so that one 4 MB page is all of the kernel's half that is mapped.
\<close>

unbundle bit_operations_syntax

section \<open>The invariant\<close>

definition directory :: "boot \<Rightarrow> u32" where
  "directory k = page_directory (kernel_image k) - KERNEL_CONFIG_VMA"

definition tables :: "boot \<Rightarrow> u32" where
  "tables k = page_tables (kernel_image k) - KERNEL_CONFIG_VMA"

text \<open>What the console of ksrc/printk.c writes: the video memory and the statics \<open>column\<close> and \<open>row\<close> of
  \<open>console_putc\<close>, by physical addresses.\<close>

definition screen_objects :: "boot \<Rightarrow> (u32 \<times> nat) list" where
  "screen_objects k = [(0xB8000, 0x8000), (column_at k - KERNEL_CONFIG_VMA, 4), (row_at k - KERNEL_CONFIG_VMA, 4)]"

definition screen_part :: "boot \<Rightarrow> u32 \<Rightarrow> bool" where
  "screen_part k y = list_ex (\<lambda>(a, n). in_range a n y) (screen_objects k)"

text \<open>The loaded kernel: the marker is 0, and the first page of physical memory, the video memory, the
  console's statics and the regions of the kernel do not overlap.\<close>

definition image_ok :: "boot \<Rightarrow> mem \<Rightarrow> bool" where
  "image_ok k m \<longleftrightarrow> boot_ok k m \<and> load32 m (kernel_end k) = 0
     \<and> spaced ((0, 4096) # screen_objects k @ regions k)"

text \<open>Directory entry 768 is the only 4 MB page, and maps physical address 0; at most \<open>n\<close> tables
  are in use.\<close>

definition kernel_memory :: "boot \<Rightarrow> nat \<Rightarrow> mem \<Rightarrow> bool" where
  "kernel_memory k n m \<longleftrightarrow> tables_ok (directory k) (tables k) m \<and> pde (directory k) m 768 = 0x83
     \<and> (\<forall>i < 1024. bit (pde (directory k) m i) 0 \<longrightarrow> bit (pde (directory k) m i) 7 \<longrightarrow> i = 768)
     \<and> card (used_tables (tables k) m) \<le> n \<and> gdt_flat k m"

text \<open>The kernel's first 4 MB.\<close>

definition kernel_part :: "u32 \<Rightarrow> nat \<Rightarrow> bool" where
  "kernel_part x n \<longleftrightarrow> 0xC0000000 \<le> unat x \<and> unat x + n \<le> 0xC0400000"

lemma image_okD:
  assumes "image_ok k m"
  shows "boot_ok k m" "load32 m (kernel_end k) = 0" "placed (directory k) (tables k)"
    "apart 0 4096 (directory k) 4096" "apart 0 4096 (tables k) 40960" "apart 0 4096 (gdt_table k - KERNEL_CONFIG_VMA) 80"
    "apart (gdt_table k - KERNEL_CONFIG_VMA) 80 (directory k) 4096"
    "apart (gdt_table k - KERNEL_CONFIG_VMA) 80 (tables k) 40960"
proof -
  show b: "boot_ok k m" and "load32 m (kernel_end k) = 0" using assms by (simp_all add: image_ok_def)
  note ok = boot_okD [OF b, folded directory_def tables_def]
  show "placed (directory k) (tables k)" "apart (gdt_table k - KERNEL_CONFIG_VMA) 80 (directory k) 4096"
    "apart (gdt_table k - KERNEL_CONFIG_VMA) 80 (tables k) 40960" by (rule ok)+
  show "apart 0 4096 (directory k) 4096" "apart 0 4096 (tables k) 40960" "apart 0 4096 (gdt_table k - KERNEL_CONFIG_VMA) 80"
    using assms by (simp_all add: image_ok_def regions_def directory_def tables_def screen_objects_def)
qed

lemma image_screen:
  assumes "image_ok k m"
  shows "list_all (\<lambda>(a, n). apart a n (directory k) 4096 \<and> apart a n (tables k) 40960 \<and> apart a n (gdt_table k - KERNEL_CONFIG_VMA) 80
      \<and> apart 0 4096 a n) (screen_objects k)"
    "apart (column_at k - KERNEL_CONFIG_VMA) 4 (row_at k - KERNEL_CONFIG_VMA) 4"
    "apart 0xB8000 0x8000 (column_at k - KERNEL_CONFIG_VMA) 4" "apart 0xB8000 0x8000 (row_at k - KERNEL_CONFIG_VMA) 4"
  using assms by (simp_all add: image_ok_def regions_def directory_def tables_def screen_objects_def)

lemma kernel_part_walk:
  assumes "placed (directory k) (tables k)" "kernel_memory k n m" "kernel_part x i" "0 < i"
  shows "walk (directory k) m x = Some (x - KERNEL_CONFIG_VMA)"
proof -
  have x: "0xC0000000 \<le> unat x" "unat x < 0xC0400000" using assms(3,4) by (simp_all add: kernel_part_def)
  have d: "di x = 768"
    using x by (simp add: di_def unat_drop_bit_eq drop_bit_eq_div unat_div)
  have "unat (x AND 0x3FFFFF) = unat x mod 0x400000"
    unfolding paging_masks by (simp flip: take_bit_eq_mask) (simp add: take_bit_eq_mod unat_mod)
  also have "\<dots> = unat x - 0xC0000000"
  proof -
    have "unat x = (unat x - 0xC0000000) + 768 * 0x400000" using x(1) by simp
    then have "unat x mod 0x400000 = (unat x - 0xC0000000) mod 0x400000" by (metis mod_mult_self1)
    then show ?thesis using x by simp
  qed
  also have "\<dots> = unat (x - KERNEL_CONFIG_VMA)" using x(1) by (simp add: unat_sub word_le_nat_alt)
  finally have off: "x AND 0x3FFFFF = x - KERNEL_CONFIG_VMA" by (simp add: word_unat_eq_iff)
  have "pde (directory k) m 768 = 0x83" using assms(2) by (simp add: kernel_memory_def)
  then show ?thesis unfolding walk_entries [OF assms(1)] d by (simp add: off)
qed

section \<open>Mappings keep it\<close>

lemma gdt_flat_apart:
  assumes "gdt_flat k m" "\<And>x. \<not> in_range a i x \<Longrightarrow> \<not> in_range b j x \<Longrightarrow> \<not> in_range c l x \<Longrightarrow> m' x = m x"
    and "apart (gdt_table k - KERNEL_CONFIG_VMA) 80 a i" "apart (gdt_table k - KERNEL_CONFIG_VMA) 80 b j"
    "apart (gdt_table k - KERNEL_CONFIG_VMA) 80 c l"
  shows "gdt_flat k m'"
  using assms(1) by (rule gdt_flat_kept) (use assms(2-5) in \<open>auto simp: apart_iff\<close>)

text \<open>A mapping inside the 4 MB page overwrites a word of the first page of physical memory; any
  other takes a table or uses the one there is.\<close>

lemma map_keeps:
  fixes s :: "'a machine_scheme" and p y :: u32 and k :: boot and m :: mem
  defines "m' \<equiv> fst (paging_map_4kb (directory k + KERNEL_CONFIG_VMA) (tables k + KERNEL_CONFIG_VMA) p y 3 m s)"
  assumes ok: "image_ok k m0" and mem: "kernel_memory k n m" and n: "n < 10"
  shows "kernel_memory k (Suc n) m'"
    "\<not> in_range 0 4096 x \<Longrightarrow> \<not> in_range (directory k) 4096 x \<Longrightarrow> \<not> in_range (tables k) 40960 x \<Longrightarrow> m' x = m x"
proof -
  let ?D = "directory k" and ?T = "tables k"
  note img = image_okD [OF ok]
  have inv: "tables_ok ?D ?T m" "pde ?D m 768 = 0x83" "card (used_tables ?T m) \<le> n" "gdt_flat k m"
    "\<And>i. i < 1024 \<Longrightarrow> bit (pde ?D m i) 0 \<Longrightarrow> bit (pde ?D m i) 7 \<Longrightarrow> i = 768"
    using mem by (simp_all add: kernel_memory_def)
  have "kernel_memory k (Suc n) m' \<and> (\<forall>x. \<not> in_range 0 4096 x \<and> \<not> in_range ?D 4096 x \<and> \<not> in_range ?T 40960 x \<longrightarrow> m' x = m x)"
  proof (cases "bit (pde ?D m (di y)) 0 \<and> bit (pde ?D m (di y)) 7")
    case True
    then have "di y = 768" using inv(5) [OF di_less] by blast
    then have m': "m' = store32 m (of_nat (4 * ti y)) ((p AND 0xFFFFF000) OR 3)"
      using map_4kb_entry [of ?D m y ?T p 3 s] True inv(2) by (simp add: m'_def)
    have same: "m' x = m x" if "\<not> in_range 0 4096 x" for x
      unfolding m' using that in_range_part [of 0 "4 * ti y" 4 x 4096] ti_less [of y]
      by (intro quad.st_other) (auto simp del: of_nat_mult)
    have "m' x = m x" if "in_range ?D 4096 x \<or> in_range ?T 40960 x" for x
      using that img(4,5) by (intro same) (auto simp: apart_iff)
    note kept = directory_kept [OF img(3) inv(1) this]
    have "gdt_flat k m'"
      by (rule gdt_flat_kept [OF inv(4)]) (use same img(6) in \<open>auto simp: apart_iff\<close>)
    then have "kernel_memory k (Suc n) m'"
      using kept inv by (simp add: kernel_memory_def)
    with same show ?thesis by blast
  next
    case False
    then have free: "if bit (pde ?D m (di y)) 0 then \<not> bit (pde ?D m (di y)) 7 else \<exists>t < 10. \<not> in_use ?T m t"
      using used_tables_free [of ?T m] inv(3) n by auto
    have "(3 :: u32) AND 0xFFFFF000 = 0" "bit (3 :: u32) 0" by simp_all
    note new = map_4kb_walk [OF img(3) inv(1) this free, of p s, folded m'_def, unfolded Let_def]
    have used: "card (used_tables ?T m') \<le> Suc n"
      using map_4kb_used [OF img(3) inv(1) free, of p 3 s] inv(3) by (simp add: m'_def)
    have "di y \<noteq> 768" using False inv(2) by auto
    then have big: "pde ?D m' 768 = 0x83" using new inv(2) by simp
    have "i = 768" if "i < 1024" "bit (pde ?D m' i) 0" "bit (pde ?D m' i) 7" for i
    proof (cases "i = di y")
      case True
      then show ?thesis using new that by (auto simp: owns_def)
    qed (use new that inv(5) in auto)
    moreover have same: "m' x = m x" if "\<not> in_range ?D 4096 x" "\<not> in_range ?T 40960 x" for x
      using map_4kb_step [OF img(3) inv(1) free, of s p 3] that by (simp add: paging_step_def m'_def)
    moreover have "gdt_flat k m'"
      by (rule gdt_flat_kept [OF inv(4)]) (use same img(7,8) in \<open>auto simp: apart_iff\<close>)
    ultimately show ?thesis using new used big by (simp add: kernel_memory_def)
  qed
  then show "kernel_memory k (Suc n) m'" "\<not> in_range 0 4096 x \<Longrightarrow> \<not> in_range ?D 4096 x \<Longrightarrow> \<not> in_range ?T 40960 x \<Longrightarrow> m' x = m x"
    by blast+
qed

lemma rsdt_keeps:
  assumes ok: "image_ok k m0" and mem: "kernel_memory k n m" and n: "n < 9"
    and m': "m' = fst (rsdt_mapped (directory k + KERNEL_CONFIG_VMA) (tables k + KERNEL_CONFIG_VMA) rsdt m s)"
  shows "kernel_memory k (n + 2) m'"
    "\<not> in_range 0 4096 x \<Longrightarrow> \<not> in_range (directory k) 4096 x \<Longrightarrow> \<not> in_range (tables k) 40960 x \<Longrightarrow> m' x = m x"
proof -
  define c where "c = paging_map_4kb (directory k + KERNEL_CONFIG_VMA) (tables k + KERNEL_CONFIG_VMA)
    (rsdt AND 0xFFFFF000) ((rsdt AND 0xFFFFF000) + KERNEL_CONFIG_VMA) 3 m s"
  have m'': "m' = fst (paging_map_4kb (directory k + KERNEL_CONFIG_VMA) (tables k + KERNEL_CONFIG_VMA)
    ((rsdt AND 0xFFFFF000) + 0x1000) ((rsdt AND 0xFFFFF000) + 0xC0001000) 3 (fst c) (snd c))"
    by (simp add: m' rsdt_mapped_def Let_def split_beta c_def)
  have n': "n < 10" "Suc n < 10" using n by simp_all
  note one = map_keeps [OF ok mem n'(1), where s = s and p = "rsdt AND 0xFFFFF000" and y = "(rsdt AND 0xFFFFF000) + KERNEL_CONFIG_VMA", folded c_def]
  note two = map_keeps [OF ok one(1) n'(2), where s = "snd c" and p = "(rsdt AND 0xFFFFF000) + 0x1000"
    and y = "(rsdt AND 0xFFFFF000) + 0xC0001000", folded m'']
  show "kernel_memory k (n + 2) m'" using two(1) by simp
  show "m' x = m x" if "\<not> in_range 0 4096 x" "\<not> in_range (directory k) 4096 x" "\<not> in_range (tables k) 40960 x"
    using one(2) two(2) that by simp
qed

section \<open>At the call of \<open>kmain\<close>, and through \<open>acpi_init\<close>\<close>

lemma acpi_init_mapped:
  assumes "acpi_init (D + KERNEL_CONFIG_VMA) pgtbls lit facp m s = Some (m', t)"
  obtains rsdt where "m' = fst (rsdt_mapped (D + KERNEL_CONFIG_VMA) pgtbls rsdt m s)"
proof -
  obtain rsdp where rsdp: "acpi_find_rsdp D m lit = Some rsdp"
    using assms by (auto simp: acpi_init_def Let_def split: bind_splits)
  obtain rsdt where "m' = fst (rsdt_mapped (D + KERNEL_CONFIG_VMA) pgtbls rsdt m (print ''Initializing ACPI !\<newline>'' [] s))"
    using assms unfolding init_unfold [OF rsdp] Let_def split_beta bind_eq_Some_conv map_option_eq_Some prod.inject
    by blast
  then show thesis using that rsdt_mapped_memory by metis
qed

lemma acpi_keeps:
  assumes ok: "image_ok k m0" and mem: "kernel_memory k 2 m"
    and "acpi_init (page_directory (kernel_image k)) (page_tables (kernel_image k)) lit facp m s = Some (m', t)"
  shows "kernel_memory k 4 m'"
proof -
  have D: "page_directory (kernel_image k) = directory k + KERNEL_CONFIG_VMA" "page_tables (kernel_image k) = tables k + KERNEL_CONFIG_VMA"
    by (simp_all add: directory_def tables_def)
  obtain rsdt where m': "m' = fst (rsdt_mapped (directory k + KERNEL_CONFIG_VMA) (tables k + KERNEL_CONFIG_VMA) rsdt m s)"
    using acpi_init_mapped assms(3) unfolding D by metis
  show ?thesis using rsdt_keeps(1) [OF ok mem _ m'] by simp
qed

text \<open>What the entry code hands to \<open>kmain\<close>.\<close>

lemma handed_memory:
  fixes s :: "'a acpi_scheme"
  assumes "image_ok k m" "loader_state s"
  obtains m1 s1 and u :: "'a acpi_scheme" where
    "calls_kmain k scratch scratch' (r, m, s) = Some (fst scratch', ebx r + KERNEL_CONFIG_VMA, m1, s1)"
    "\<And>n. translate n (trace s1) = walk (directory k) n" "gdtr (trace s1) = (80, gdt_table k)" "idtr (trace s1) = (2039, idt_table k)"
    "machine.more s1 = machine.more (idt_init (idt_table k) (stubs k) u)" "hw s1 = hw s" "kernel_memory k 2 m1"
    "\<And>x. list_all (\<lambda>(a, n). \<not> in_range a n x) (regions k) \<Longrightarrow> m1 x = m x"
proof -
  note img = image_okD [OF assms(1)]
  note boot = boot_effect [OF img(1) assms(2), of scratch scratch' r, folded directory_def tables_def, unfolded img(2)]
  then obtain m1 s1 and u :: "'a acpi_scheme" where
    run: "calls_kmain k scratch scratch' (r, m, s) = Some (fst scratch', ebx r + KERNEL_CONFIG_VMA, m1, s1)"
    and regs: "\<And>n. translate n (trace s1) = walk (directory k) n" "gdtr (trace s1) = (80, gdt_table k)" "idtr (trace s1) = (2039, idt_table k)"
    and tabs: "tables_ok (directory k) (tables k) m1" "apic_table (directory k) (tables k) m1"
      "\<And>i. i < 1024 \<Longrightarrow> i \<noteq> 1019 \<Longrightarrow> pde (directory k) m1 i = kernel_pde 0 i" "gdt_flat k m1"
    and more: "machine.more s1 = machine.more (idt_init (idt_table k) (stubs k) u)" "hw s1 = hw s"
    and out: "\<And>x. list_all (\<lambda>(a, n). \<not> in_range a n x) (regions k) \<Longrightarrow> m1 x = m x"
    by metis
  have only: "i = 768" if i: "i < 1024" "bit (pde (directory k) m1 i) 0" "bit (pde (directory k) m1 i) 7" for i
  proof (cases "i = 1019")
    case True
    then show ?thesis using tabs(2) i by (auto simp: apic_table_def owns_def)
  next
    case False
    then show ?thesis using tabs(3) [OF i(1)] i(2) by (auto simp: kernel_pde_def split: if_splits)
  qed
  have "pde (directory k) m1 768 = 0x83" using tabs(3) [of 768] by (simp add: kernel_pde_def)
  then have "kernel_memory k 2 m1"
    using tabs(1,2,4) only by (simp add: kernel_memory_def apic_table_def)
  with run regs more show thesis using out by (rule that)
qed

end
