(* ===== verification/Delivery.thy ===== *)
theory Delivery
  imports KernelMemory Output
begin

text \<open>
  The delivery of an interrupt: what the processor does with the tables of ksrc/idt.c and ksrc/gdt.c
  in force, the stub of ksrc/idt.s on the kernel's stack in memory, the C handler, and the return
  to the interrupted code. The processor's part is the specification of the 80386 for code and
  handlers of ring 0: the gate is read through the table register, the segment of its selector
  through the descriptor table, flags, CS, EIP and error code are pushed; a fault on the way is
  the result None.

  Theory Interrupts has the stub on registers and a list of words, Kmain the choice of the handler. Here
  both run on the registers and the memory of theory Entry, and the calls of \<open>printk\<close> among the events
  of the handler run on that memory as the routine of theory Console: they write the screen and the statics
  of its cursor. Theory Preemption has the kernel with any number of such interrupts.
\<close>

unbundle bit_operations_syntax

section \<open>The processor\<close>

text \<open>A thread of execution: instruction pointer, code segment and flags, with registers, memory
  and machine.\<close>

type_synonym 'a thread = "idt_cpu_frame \<times> 'a cpu"

fun pushes :: "u32 list \<Rightarrow> 'a cpu \<Rightarrow> 'a cpu option" where
  "pushes [] c = Some c"
| "pushes (w # ws) c = Option.bind (push w c) (pushes ws)"

fun pops :: "nat \<Rightarrow> 'a cpu \<Rightarrow> (u32 list \<times> 'a cpu) option" where
  "pops 0 c = Some ([], c)"
| "pops (Suc n) c = Option.bind (pop c) (\<lambda>(w, c). map_option (\<lambda>(ws, c). (w # ws, c)) (pops n c))"

text \<open>The base of the code segment a selector names: an entry of the table in force, inside its
  limit, present, code, ring 0.\<close>

definition code_base :: "mem \<Rightarrow> event list \<Rightarrow> u16 \<Rightarrow> u32 option" where
  "code_base m es sel = (case gdtr es of (limit, base) \<Rightarrow>
     let entry = 8 * unat (drop_bit 3 sel)
     in if entry = 0 \<or> bit sel 2 \<or> unat limit < entry + 7 then None
        else do {
          low \<leftarrow> vload (translate m es) m (base + of_nat entry);
          high \<leftarrow> vload (translate m es) m (base + of_nat entry + 4);
          let d = ucast low OR push_bit 32 (ucast high);
          if bit d 47 \<and> bit d 44 \<and> bit d 43 \<and> \<not> bit d 45 \<and> \<not> bit d 46 then Some (descriptor_base d) else None })"

text \<open>The gate of a vector, read through the table register: inside the limit, in mapped memory,
  present, and an interrupt gate (type 14) or a trap gate (type 15). The table in memory at
  \<open>idt_table\<close> is the field \<open>idt_gate\<close> of the state.\<close>

definition gate_type :: "u64 \<Rightarrow> u16" where
  "gate_type g = take_bit 5 (drop_bit 8 (gate_flags g))"

definition gate_at :: "boot \<Rightarrow> nat \<Rightarrow> mem \<Rightarrow> 'a idt_scheme \<Rightarrow> u64 option" where
  "gate_at k v m s = (case idtr (trace s) of (limit, base) \<Rightarrow>
     if base \<noteq> idt_table k \<or> unat limit < 8 * v + 7 \<or> translate m (trace s) (base + of_nat (8 * v)) = None
       \<or> translate m (trace s) (base + of_nat (8 * v) + 4) = None then None
     else
       let g = idt_gate s v
       in if bit (gate_flags g) 15 \<and> gate_type g \<in> {14, 15} then Some g else None)"

text \<open>The flags of the handler: single step, nested task, resume and virtual mode are cleared, and
  behind an interrupt gate the interrupt flag (bit 9).\<close>

definition handler_flags :: "u64 \<Rightarrow> u32 \<Rightarrow> u32" where
  "handler_flags g e = (let e = e AND NOT 0x00034100 in if gate_type g = 14 then unset_bit 9 e else e)"

text \<open>Delivery: the number of the stub that the processor enters, and the thread there.\<close>

definition deliver :: "boot \<Rightarrow> nat \<Rightarrow> u32 \<Rightarrow> 'a thread \<Rightarrow> (nat \<times> 'a thread) option" where
  "deliver k v error t = (case t of (f, r, m, s) \<Rightarrow> do {
     g \<leftarrow> gate_at k v m s;
     base \<leftarrow> code_base m (trace s) (gate_selector g);
     n \<leftarrow> List.find (\<lambda>n. stubs k n = base + gate_offset g) [0..<256];
     c \<leftarrow> pushes ([eflags f, cs f, eip f] @ (if cpu_pushes_error v then [error] else [])) (r, m, s);
     Some (n, \<lparr>eip = gate_offset g, cs = ucast (gate_selector g), eflags = handler_flags g (eflags f)\<rparr>, c) })"

text \<open>\<open>iretl\<close> to code of the same ring.\<close>

definition iret :: "'a cpu \<Rightarrow> 'a thread option" where
  "iret c = do {
     (ws, r, m, s) \<leftarrow> pops 3 c;
     base \<leftarrow> code_base m (trace s) (ucast (ws ! 1));
     Some (\<lparr>eip = ws ! 0, cs = ws ! 1, eflags = ws ! 2\<rparr>, r, m, s) }"

section \<open>The stub\<close>

text \<open>Down to the call: the dummy error code, \<open>pusha\<close>, which saves the stack pointer it starts
  with, and the vector.\<close>

definition stub_call :: "nat \<Rightarrow> 'a cpu \<Rightarrow> 'a cpu option" where
  "stub_call n c = do {
     (r, m, s) \<leftarrow> if stub_expects_error n then Some c else push 0 c;
     c \<leftarrow> pushes (pusha_words r) (r, m, s);
     push (of_nat n) c }"

text \<open>From the return of the handler on: vector off the stack, \<open>popa\<close>, which leaves the stack
  pointer, error code off the stack, \<open>iretl\<close>.\<close>

definition stub_return :: "'a cpu \<Rightarrow> 'a thread option" where
  "stub_return c = do {
     (ws, r, m, s) \<leftarrow> pops 10 c;
     let r = popa_registers (take 8 (drop 1 ws)) r;
     iret (r, m, s) }"

text \<open>The words below a stack pointer, in the kernel's half, and what the frames of the C code leave
  there: any bytes. The return address of the call is among them. A handler keeps its arguments,
  which the stub needs back.\<close>

definition below :: "u32 \<Rightarrow> nat \<Rightarrow> u32 \<Rightarrow> bool" where
  "below x n = in_range (x - of_nat n - KERNEL_CONFIG_VMA) n"

definition frames_on :: "nat \<times> mem \<Rightarrow> u32 \<Rightarrow> mem \<Rightarrow> mem" where
  "frames_on frames x m = (\<lambda>y. if below x (fst frames) y then snd frames y else m y)"

text \<open>What a handler prints changes memory: \<open>printk\<close> has its frame on the stack, writes to the video memory
  and to the statics of \<open>console_putc\<close>. The console of theory Console on the memory of the kernel, by the
  kernel's half of the address space, and back:\<close>

definition console_at :: "boot \<Rightarrow> mem \<Rightarrow> console" where
  "console_at k m = \<lparr>vmem = upper m, column = load32 m (column_at k - KERNEL_CONFIG_VMA), row = load32 m (row_at k - KERNEL_CONFIG_VMA)\<rparr>"

definition console_back :: "boot \<Rightarrow> console \<Rightarrow> mem" where
  "console_back k c = store32 (store32 (lower (vmem c)) (column_at k - KERNEL_CONFIG_VMA) (column c)) (row_at k - KERNEL_CONFIG_VMA) (row c)"

text \<open>A call of \<open>printk\<close> with its buffer, format and arguments on a stack whose pointer is \<open>x\<close>: the frames of
  the code on the way to it are any bytes in the \<open>n\<close> below \<open>x\<close>.\<close>

type_synonym printk_call = "mem \<times> u32 \<times> u32 \<times> u32"

definition print_on :: "boot \<Rightarrow> u32 \<Rightarrow> nat \<Rightarrow> printk_call \<Rightarrow> mem \<Rightarrow> mem option" where
  "print_on k x n call m = (case call of (junk, buf, fmt, argp) \<Rightarrow>
     map_option (console_back k) (printk buf fmt argp (console_at k (frames_on (n, junk) x m))))"

text \<open>The calls for the prints among the events of a handler.\<close>

fun prints_on :: "boot \<Rightarrow> u32 \<Rightarrow> nat \<Rightarrow> printk_call list \<Rightarrow> event list \<Rightarrow> mem \<Rightarrow> mem option" where
  "prints_on k x n calls [] m = Some m"
| "prints_on k x n calls (e # es) m = (case e of
     Print f as \<Rightarrow> (case calls of
         [] \<Rightarrow> None
       | call # calls \<Rightarrow> Option.bind (print_on k x n call m) (prints_on k x n calls es))
   | _ \<Rightarrow> prints_on k x n calls es m)"

text \<open>One interrupt, from delivery to return or to the end of the kernel. A handler that stops the processor
  is left with the memory it started on: its report is in the events.\<close>

definition interrupt_on :: "boot \<Rightarrow> u32 \<times> u32 \<times> u32 \<Rightarrow> printk_call list \<Rightarrow> nat \<times> mem \<Rightarrow> nat \<Rightarrow> u32 \<Rightarrow> 'a thread \<Rightarrow> 'a thread outcome option" where
  "interrupt_on k scratch calls frames v error t = do {
     (n, f, c) \<leftarrow> deliver k v error t;
     (r, m, s) \<leftarrow> stub_call n c;
     (ws, _) \<leftarrow> pops 13 (r, m, s);
     let (vector, regs, err, frame) = handler_arguments ws;
     (case dispatch (directory k) m vector regs err frame s of
        Halted u \<Rightarrow> Some (Halted (f, r, m, u))
      | Returned u \<Rightarrow> do {
          m \<leftarrow> prints_on k (esp r) (fst frames) calls (drop (length (trace s)) (trace u)) m;
          map_option Returned (stub_return (called scratch r, frames_on frames (esp r) m, u)) }) }"

section \<open>The stack in memory\<close>

text \<open>The words of a push below physical address \<open>a\<close>.\<close>

fun pushed :: "u32 \<Rightarrow> u32 list \<Rightarrow> mem \<Rightarrow> mem" where
  "pushed a [] m = m"
| "pushed a (w # ws) m = pushed (a - 4) ws (store32 m (a - 4) w)"

text \<open>A stack with \<open>n\<close> free bytes below the stack pointer: mapped, and outside the tables, the data of the
  BIOS and what the console writes.\<close>

definition stack_room :: "boot \<Rightarrow> u32 \<Rightarrow> nat \<Rightarrow> bool" where
  "stack_room k x n \<longleftrightarrow> kernel_part (x - of_nat n) n \<and> list_all (\<lambda>(a, i). apart (x - of_nat n - KERNEL_CONFIG_VMA) n a i)
     ([(directory k, 4096), (tables k, 40960), (gdt_table k - KERNEL_CONFIG_VMA, 80), (0, 4096)] @ screen_objects k)"

lemma in_range_below:
  fixes a :: u32
  assumes "n \<le> j" "j < 2 ^ 32" "in_range (a - of_nat n) n x" shows "in_range (a - of_nat j) j x"
proof -
  have "in_range ((a - of_nat j) + of_nat (j - n)) n x" using assms by (simp add: of_nat_diff)
  from in_range_part [OF this] assms show ?thesis by simp
qed

lemma pushed_other:
  "4 * length ws < 2 ^ 32 \<Longrightarrow> \<not> in_range (a - of_nat (4 * length ws)) (4 * length ws) x \<Longrightarrow> pushed a ws m x = m x"
proof (induction ws arbitrary: a m)
  case (Cons w ws)
  let ?n = "4 * length (w # ws)"
  have "\<not> in_range (a - of_nat 4) 4 x"
    using Cons.prems in_range_below [of 4 ?n a x] by auto
  moreover have base: "a - 4 - of_nat (4 * length ws) = a - of_nat ?n" by simp
  have "\<not> in_range (a - 4 - of_nat (4 * length ws)) (4 * length ws) x"
  proof
    assume "in_range (a - 4 - of_nat (4 * length ws)) (4 * length ws) x"
    then have "in_range (a - of_nat ?n) (4 * length ws) x" by (simp only: base)
    then have "in_range (a - of_nat ?n) ?n x" by (rule in_range_mono) simp
    then show False using Cons.prems(2) by contradiction
  qed
  ultimately show ?case using Cons by (simp add: quad.st_other)
qed simp

lemma pushed_word:
  "4 * length ws < 2 ^ 32 \<Longrightarrow> i < length ws \<Longrightarrow> load32 (pushed a ws m) (a - of_nat (4 * Suc i)) = ws ! i"
proof (induction ws arbitrary: a m i)
  case (Cons w ws)
  show ?case
  proof (cases i)
    case 0
    let ?n = "4 * length ws"
    define b where "b = a - 4 - of_nat ?n"
    have "apart b ?n (b + of_nat ?n) 4"
      using apart_offsets [of 0 ?n ?n 4 b] Cons.prems(1) by simp
    then have "\<not> in_range (a - 4 - of_nat ?n) ?n x" if "in_range (a - 4) 4 x" for x
      using that by (auto simp: apart_iff b_def)
    then have "load32 (pushed (a - 4) ws (store32 m (a - 4) w)) (a - 4) = load32 (store32 m (a - 4) w) (a - 4)"
      using Cons.prems(1) by (intro quad.ld_cong pushed_other) auto
    then show ?thesis by (simp add: 0 quad.ld_st)
  next
    case (Suc j)
    have "a - of_nat (4 * Suc i) = a - 4 - of_nat (4 * Suc j)" by (simp add: Suc)
    moreover have "4 * length ws < 2 ^ 32" "j < length ws" using Cons.prems Suc by simp_all
    ultimately show ?thesis using Cons.IH [of j "a - 4" "store32 m (a - 4) w"] by (simp only: pushed.simps Suc nth_Cons_Suc)
  qed
qed simp

lemma kernel_part_part:
  assumes "kernel_part y n" "i + j \<le> n" shows "kernel_part (y + of_nat i) j"
proof -
  have i: "i \<le> 0x400000" using assms by (simp add: kernel_part_def)
  then have "unat (y + of_nat i) = unat y + i"
    using assms by (simp add: kernel_part_def unat_word_ariths unat_of_nat)
  then show ?thesis using assms by (simp add: kernel_part_def)
qed

lemma pushes_one: "pushes [w] = push w"
proof
  show "pushes [w] c = push w c" for c :: "'a cpu" by (cases "push w c") simp_all
qed

lemma pushes_append: "pushes (xs @ ys) c = Option.bind (pushes xs c) (pushes ys)"
  by (induction xs arbitrary: c) (auto split: bind_split)

lemma stack_room_part:
  assumes "stack_room k x n" "i + j \<le> n" shows "stack_room k (x - of_nat i) j"
proof -
  have y: "x - of_nat i - of_nat j = (x - of_nat n) + of_nat (n - i - j)" using assms(2) by (simp add: of_nat_diff)
  have "p + q - c = p - c + q" for p q c :: u32 by simp
  then have z: "x - of_nat i - of_nat j - KERNEL_CONFIG_VMA = (x - of_nat n - KERNEL_CONFIG_VMA) + of_nat (n - i - j)" by (simp only: y)
  have n: "n \<le> 0x400000" using assms(1) by (simp add: stack_room_def kernel_part_def)
  have sub: "n - i - j + j \<le> n" using assms(2) by simp
  have "apart (x - of_nat i - of_nat j - KERNEL_CONFIG_VMA) j a l" if "apart (x - of_nat n - KERNEL_CONFIG_VMA) n a l" for a l
    unfolding z by (rule apart_shift [OF that sub]) (use n in simp)
  moreover have "kernel_part (x - of_nat i - of_nat j) j"
    unfolding y using assms(1) sub by (intro kernel_part_part) (simp_all add: stack_room_def)
  ultimately show ?thesis using assms(1) by (auto simp: stack_room_def list_all_iff split_beta)
qed

text \<open>Stores below the stack pointer keep the tables of the kernel.\<close>

lemma room_keeps:
  assumes "placed (directory k) (tables k)" "kernel_memory k j m" "stack_room k x n"
    and "\<And>y. \<not> in_range (x - of_nat n - KERNEL_CONFIG_VMA) n y \<Longrightarrow> m' y = m y"
  shows "kernel_memory k j m'"
proof -
  have a: "apart (x - of_nat n - KERNEL_CONFIG_VMA) n (directory k) 4096" "apart (x - of_nat n - KERNEL_CONFIG_VMA) n (tables k) 40960"
    "apart (x - of_nat n - KERNEL_CONFIG_VMA) n (gdt_table k - KERNEL_CONFIG_VMA) 80"
    using assms(3) by (simp_all add: stack_room_def)
  have inv: "tables_ok (directory k) (tables k) m" "gdt_flat k m" using assms(2) by (simp_all add: kernel_memory_def)
  have "m' y = m y" if "in_range (directory k) 4096 y \<or> in_range (tables k) 40960 y" for y
    using that a by (intro assms(4)) (auto simp: apart_iff)
  note kept = directory_kept [OF assms(1) inv(1) this]
  have "gdt_flat k m'"
    by (rule gdt_flat_kept [OF inv(2)]) (use assms(4) a(3) in \<open>auto simp: apart_iff\<close>)
  then show ?thesis using assms(2) kept by (simp add: kernel_memory_def)
qed

lemma pushes_room:
  assumes tr: "\<And>m. translate m (trace s) = walk (directory k) m" and pl: "placed (directory k) (tables k)"
  shows "kernel_memory k j m \<Longrightarrow> stack_room k (esp r) (4 * length ws) \<Longrightarrow>
    pushes ws (r, m, s) = Some (r\<lparr>esp := esp r - of_nat (4 * length ws)\<rparr>, pushed (esp r - KERNEL_CONFIG_VMA) ws m, s)
    \<and> kernel_memory k j (pushed (esp r - KERNEL_CONFIG_VMA) ws m)"
proof (induction ws arbitrary: r m)
  case (Cons w ws)
  let ?a = "esp r - 4" and ?m = "store32 m (esp r - 4 - KERNEL_CONFIG_VMA) w"
  have top: "stack_room k (esp r) 4" and rest: "stack_room k ?a (4 * length ws)"
    using stack_room_part [OF Cons.prems(2), of 0 4] stack_room_part [OF Cons.prems(2), of 4 "4 * length ws"] by simp_all
  have at: "kernel_part ?a 4" using top by (simp add: stack_room_def)
  have "translate m (trace s) ?a = Some (?a - KERNEL_CONFIG_VMA)"
    unfolding tr by (rule kernel_part_walk [OF pl Cons.prems(1) at]) simp
  then have push: "push w (r, m, s) = Some (r\<lparr>esp := ?a\<rparr>, ?m, s)" by (simp add: push_def)
  have mem: "kernel_memory k j ?m"
    by (rule room_keeps [OF pl Cons.prems(1) top]) (simp add: quad.st_other)
  have "esp r - 4 - KERNEL_CONFIG_VMA = esp r - KERNEL_CONFIG_VMA - 4" by simp
  note order = this
  show ?case using Cons.IH [OF mem, of "r\<lparr>esp := ?a\<rparr>"] rest by (simp add: push order)
qed simp

lemma pops_room:
  assumes tr: "translate m (trace s) = walk (directory k) m" and pl: "placed (directory k) (tables k)" and mem: "kernel_memory k j m"
  shows "kernel_part (esp r) (4 * n) \<Longrightarrow>
    pops n (r, m, s) = Some (map (\<lambda>i. load32 m (esp r - KERNEL_CONFIG_VMA + of_nat (4 * i))) [0..<n], r\<lparr>esp := esp r + of_nat (4 * n)\<rparr>, m, s)"
proof (induction n arbitrary: r)
  case (Suc n)
  have "translate m (trace s) (esp r) = Some (esp r - KERNEL_CONFIG_VMA)"
    unfolding tr by (rule kernel_part_walk [OF pl mem Suc.prems]) simp
  then have pop: "pop (r, m, s) = Some (load32 m (esp r - KERNEL_CONFIG_VMA), r\<lparr>esp := esp r + 4\<rparr>, m, s)" by (simp add: pop_def)
  have rest: "kernel_part (esp r + 4) (4 * n)" using kernel_part_part [OF Suc.prems, of 4 "4 * n"] by simp
  have "map f [0..<Suc n] = f 0 # map (\<lambda>i. f (Suc i)) [0..<n]" for f :: "nat \<Rightarrow> u32"
    by (simp add: upt_conv_Cons map_Suc_upt [symmetric] comp_def del: upt_Suc)
  moreover have "esp r + 4 - KERNEL_CONFIG_VMA + of_nat (4 * i) = esp r - KERNEL_CONFIG_VMA + of_nat (4 * Suc i)" for i by simp
  ultimately show ?case
    using Suc.IH [of "r\<lparr>esp := esp r + 4\<rparr>"] rest by (simp add: pop algebra_simps del: upt_Suc of_nat_mult)
qed simp

text \<open>The words on the stack, top first, are the pushed ones.\<close>

lemma pushed_append: "pushed a (xs @ ys) m = pushed (a - of_nat (4 * length xs)) ys (pushed a xs m)"
  by (induction xs arbitrary: a m) (simp_all add: diff_diff_eq)

lemma pushed_rev:
  assumes "4 * length ws < 2 ^ 32" "j < length ws"
  shows "load32 (pushed a ws m) (a - of_nat (4 * length ws) + of_nat (4 * j)) = rev ws ! j"
proof -
  define i where "i = length ws - Suc j"
  have i: "i < length ws" "length ws = Suc i + j" using assms(2) by (simp_all add: i_def)
  have "a - of_nat (4 * length ws) + of_nat (4 * j) = a - of_nat (4 * Suc i)" by (simp add: i(2))
  moreover have "rev ws ! j = ws ! i" using assms(2) by (simp add: rev_nth i_def)
  ultimately show ?thesis using pushed_word [OF assms(1) i(1), of a m] by (simp only:)
qed

lemma pops_pushed:
  assumes "4 * length ws < 2 ^ 32" "i + n \<le> length ws"
  shows "map (\<lambda>j. load32 (pushed a ws m) (a - of_nat (4 * length ws) + of_nat (4 * i) + of_nat (4 * j))) [0..<n] = take n (drop i (rev ws))"
proof (rule nth_equalityI)
  fix j assume j: "j < length (map (\<lambda>j. load32 (pushed a ws m) (a - of_nat (4 * length ws) + of_nat (4 * i) + of_nat (4 * j))) [0..<n])"
  have "of_nat (4 * i) + of_nat (4 * j) = (of_nat (4 * (i + j)) :: u32)" by simp
  then have "a - of_nat (4 * length ws) + of_nat (4 * i) + of_nat (4 * j) = a - of_nat (4 * length ws) + of_nat (4 * (i + j))"
    by (simp only: add.assoc)
  note same = arg_cong [OF this, of "load32 (pushed a ws m)"]
  then show "map (\<lambda>j. load32 (pushed a ws m) (a - of_nat (4 * length ws) + of_nat (4 * i) + of_nat (4 * j))) [0..<n] ! j
      = take n (drop i (rev ws)) ! j"
    using same pushed_rev [OF assms(1), of "i + j" a m] assms(2) j by (simp add: nth_append del: of_nat_mult of_nat_add)
qed (use assms(2) in simp)

section \<open>The kernel in operation\<close>

text \<open>The registers and the gates, as the entry code leaves them.\<close>

definition running :: "boot \<Rightarrow> 'a acpi_scheme \<Rightarrow> bool" where
  "running k s \<longleftrightarrow> (\<forall>m. translate m (trace s) = walk (directory k) m) \<and> gdtr (trace s) = (80, gdt_table k)
     \<and> idtr (trace s) = (2039, idt_table k) \<and> (\<forall>v < 255. idt_gate s v = gate_for (stubs k) v 0)"

text \<open>The two tables lie in the mapped part, and every stub has its own address.\<close>

definition tables_mapped :: "boot \<Rightarrow> bool" where
  "tables_mapped k \<longleftrightarrow> kernel_part (idt_table k) 2040 \<and> kernel_part (gdt_table k) 80 \<and> inj_on (stubs k) {..<256}"

lemma fold_filter: "(\<And>e r. \<not> P e \<Longrightarrow> f e r = r) \<Longrightarrow> fold f (filter P es) = fold f es"
  by (induction es) (simp_all add: fun_eq_iff)

lemma control_registers:
  "loaded n (filter control es) = loaded n es" "gdtr (filter control es) = gdtr es" "idtr (filter control es) = idtr es"
  unfolding loaded_def gdtr_def idtr_def
  by (subst fold_filter; auto simp: control_def split: event.splits)+

lemma running_view:
  assumes "(idt_gate t, filter control (trace t)) = (idt_gate s, filter control (trace s))"
  shows "running k t = running k s"
proof -
  have "loaded n (trace t) = loaded n (trace s)" "gdtr (trace t) = gdtr (trace s)" "idtr (trace t) = idtr (trace s)" for n
    using assms control_registers(1) [of n "trace t"] control_registers(1) [of n "trace s"]
      control_registers(2,3) [of "trace t"] control_registers(2,3) [of "trace s"] by simp_all
  then show ?thesis using assms by (simp add: running_def translate_def fun_eq_iff)
qed

text \<open>No driver and no handler touches them.\<close>

interpretation registers: observer "\<lambda>s :: 'a acpi_scheme. (idt_gate s, filter control (trace s))" control
proof unfold_locales
  fix s t :: "'a acpi_scheme" and es
  assume t: "trace t = trace s @ es" "list_all (\<lambda>e. \<not> control e) es" "machine.more t = machine.more s"
  have "idt_gate t = idt_gate s" using t(3) by (cases s; cases t) simp
  moreover have "filter control es = []" using t(2) by (simp add: filter_empty_conv list_all_iff)
  ultimately show "(idt_gate t, filter control (trace t)) = (idt_gate s, filter control (trace s))" by (simp add: t(1))
qed simp_all

lemma arguments_registers:
  assumes "kmain_arguments k magic mbi m s = Some (t :: 'a acpi_scheme)"
  shows "(idt_gate t, filter control (trace t)) = (idt_gate s, filter control (trace s))"
proof -
  obtain es where es: "trace t = trace s @ es" "list_all port_event es" "hw t = hw s" "machine.more t = machine.more s"
    using arguments_port [OF assms] by (auto simp: port_step_def)
  have "list_all (\<lambda>e. \<not> control e) es"
    using es(2) by (rule list.pred_mono_strong) (auto simp: port_event_def control_def split: event.splits)
  from registers.traced [OF es(1) this es(3,4)] show ?thesis .
qed

lemma returned_running: "dispatch D m v r e f s = Returned t \<Longrightarrow> running k t = running k s"
  by (rule running_view) (rule registers.kept_returned)

section \<open>One interrupt\<close>

lemma code_base_flat:
  assumes "running k s" "placed (directory k) (tables k)" "kernel_memory k j m" "tables_mapped k"
  shows "code_base m (trace s) 8 = Some 0"
proof -
  have part: "kernel_part (gdt_table k) 80" using assms(4) by (simp add: tables_mapped_def)
  have regs: "translate m (trace s) = walk (directory k) m" "gdtr (trace s) = (80, gdt_table k)"
    using assms(1) by (simp_all add: running_def)
  have up: "load32 m (x - KERNEL_CONFIG_VMA) = load32 (upper m) x" for x
    by (simp add: load32_def upper_def algebra_simps)
  have read: "vload (walk (directory k) m) m (gdt_table k + of_nat i) = Some (load32 (upper m) (gdt_table k + of_nat i))" if "i + 4 \<le> 80" for i
    using kernel_part_walk [OF assms(2,3) kernel_part_part [OF part that]] by (simp add: vload_def up)
  define low high where "low = load32 (upper m) (gdt_table k + 8)" and "high = load32 (upper m) (gdt_table k + 8 + 4)"
  have words: "vload (walk (directory k) m) m (gdt_table k + of_nat 8) = Some low" "vload (walk (directory k) m) m (gdt_table k + of_nat 8 + 4) = Some high"
    using read [of 8] read [of 12] by (simp_all add: low_def high_def add.commute [of 12])
  have "descriptor (upper m) (gdt_table k + 8) = 0x00CF9A000000FFFF"
    using assms(3) unfolding kernel_memory_def gdt_flat_def by (elim conjE allE [where x = 1]) simp
  then have d: "ucast low OR push_bit 32 (ucast high) = (0x00CF9A000000FFFF :: u64)"
    by (simp only: descriptor_def low_def high_def)
  have entry: "8 * unat (drop_bit 3 (8 :: u16)) = 8" by simp
  have "descriptor_base 0x00CF9A000000FFFF = 0"
    by (simp add: descriptor_base_def gdt_entry_t_def layout_eval)
  then show ?thesis
    unfolding code_base_def regs prod.case Let_def entry words bind.bind_lunit d by simp
qed

lemma gate_at_running:
  assumes "running k s" "placed (directory k) (tables k)" "kernel_memory k j m" "tables_mapped k" "v < 255" "\<not> reserved v"
  shows "gate_at k v m s = Some (gate_for (stubs k) v 0)"
proof -
  have part: "kernel_part (idt_table k) 2040" using assms(4) by (simp add: tables_mapped_def)
  have regs: "translate m (trace s) = walk (directory k) m" "idtr (trace s) = (2039, idt_table k)" "idt_gate s v = gate_for (stubs k) v 0"
    using assms(1,5) by (simp_all add: running_def)
  have "walk (directory k) m (idt_table k + of_nat (8 * v)) = Some (idt_table k + of_nat (8 * v) - KERNEL_CONFIG_VMA)"
    by (rule kernel_part_walk [OF assms(2,3) kernel_part_part [OF part, of "8 * v" 8]]) (use assms(5) in simp_all)
  moreover have "walk (directory k) m (idt_table k + of_nat (8 * v + 4)) = Some (idt_table k + of_nat (8 * v + 4) - KERNEL_CONFIG_VMA)"
    by (rule kernel_part_walk [OF assms(2,3) kernel_part_part [OF part, of "8 * v + 4" 4]]) (use assms(5) in simp_all)
  moreover have "idt_table k + of_nat (8 * v + 4) = idt_table k + of_nat (8 * v) + 4" by simp
  ultimately show ?thesis
    using assms(5) by (simp add: gate_at_def regs gate_type_def gate_for_reads [OF assms(6)] Let_def del: of_nat_mult of_nat_add)
qed

lemma stub_found:
  assumes "tables_mapped k" "v < 256"
  shows "List.find (\<lambda>n. stubs k n = stubs k v) [0..<256] = Some v"
  unfolding find_Some_iff
proof (intro exI [of _ v] conjI allI impI)
  fix j assume "j < v"
  then have "j \<in> {..<256}" "v \<in> {..<256}" "j \<noteq> v" using assms(2) by simp_all
  then show "stubs k ([0..<256] ! j) \<noteq> stubs k v"
    using assms(1) by (auto simp: tables_mapped_def dest: inj_onD)
qed (use assms(2) in simp_all)

text \<open>The flags and the frame a handler runs with.\<close>

definition handler_frame :: "boot \<Rightarrow> nat \<Rightarrow> idt_cpu_frame \<Rightarrow> idt_cpu_frame" where
  "handler_frame k v f = \<lparr>eip = stubs k v, cs = 8, eflags = handler_flags (gate_for (stubs k) v 0) (eflags f)\<rparr>"

text \<open>The words from the frame of the processor to the vector.\<close>

definition saved :: "nat \<Rightarrow> u32 \<Rightarrow> idt_cpu_frame \<Rightarrow> idt_registers \<Rightarrow> u32 list" where
  "saved v e f r = [eflags f, cs f, eip f, if cpu_pushes_error v then e else 0] @ pusha_words (r\<lparr>esp := esp r - 16\<rparr>) @ [of_nat v]"

lemma saved_length [simp]: "length (saved v e f r) = 13"
  by (simp add: saved_def pusha_words_def)

lemma enter_stub:
  fixes s :: "'a acpi_scheme"
  assumes run: "running k s" and pl: "placed (directory k) (tables k)" and mem: "kernel_memory k j m" and tab: "tables_mapped k"
    and v: "v < 255" "\<not> reserved v" and room: "stack_room k (esp r) 52"
  shows "Option.bind (deliver k v e (f, r, m, s)) (\<lambda>(n, f, c). map_option (Pair f) (stub_call n c))
    = Some (handler_frame k v f, r\<lparr>esp := esp r - 52\<rparr>, pushed (esp r - KERNEL_CONFIG_VMA) (saved v e f r) m, s)"
proof -
  let ?a = "esp r - KERNEL_CONFIG_VMA"
  define fr where "fr = [eflags f, cs f, eip f] @ (if cpu_pushes_error v then [e] else [])"
  have tr: "translate m (trace s) = walk (directory k) m" for m using run by (simp add: running_def)
  have "v \<noteq> 21 \<and> v \<noteq> 29 \<and> v \<noteq> 30" using v(2) by (auto simp: reserved_def)
  then have same: "cpu_pushes_error v = stub_expects_error v"
    by (auto simp: cpu_pushes_error_def stub_expects_error_def)
  note gate = gate_at_running [OF run pl mem tab v] gate_for_reads [OF v(2), of "stubs k" 0]
  have len: "length fr = (if stub_expects_error v then 4 else 3)" by (simp add: fr_def same)
  have "stack_room k (esp r) (4 * length fr)" using stack_room_part [OF room, of 0 "4 * length fr"] by (simp add: len)
  note one = pushes_room [OF tr pl mem this]
  define r1 where "r1 = r\<lparr>esp := esp r - of_nat (4 * length fr)\<rparr>"
  define m1 where "m1 = pushed ?a fr m"
  have deliver: "deliver k v e (f, r, m, s) = Some (v, handler_frame k v f, r1, m1, s)"
    using v(1) by (simp add: deliver_def gate code_base_flat [OF run pl mem tab] stub_found [OF tab] handler_frame_def
        conjunct1 [OF one] r1_def del: append.simps flip: fr_def m1_def)
  note mem1 = conjunct2 [OF one, folded m1_def]
  have 2: "(if stub_expects_error v then Some (r1, m1, s) else push 0 (r1, m1, s))
      = pushes (if stub_expects_error v then [] else [0]) (r1, m1, s)" by (simp add: pushes_one del: pushes.simps(2))
  let ?zero = "if stub_expects_error v then [] else [0 :: u32]"
  have "stack_room k (esp r1) (4 * length ?zero)"
    using stack_room_part [OF room, of "4 * length fr" "4 * length ?zero"] by (simp add: r1_def len)
  note two = pushes_room [OF tr pl mem1 this]
  define r2 where "r2 = r\<lparr>esp := esp r - 16\<rparr>"
  define m2 where "m2 = pushed ?a (fr @ ?zero) m"
  have "r1\<lparr>esp := esp r1 - of_nat (4 * length ?zero)\<rparr> = r2" by (simp add: r1_def r2_def len)
  moreover have "pushed (esp r1 - KERNEL_CONFIG_VMA) ?zero m1 = m2"
    unfolding m2_def pushed_append m1_def r1_def by (simp add: algebra_simps)
  ultimately have zero: "pushes ?zero (r1, m1, s) = Some (r2, m2, s)" "kernel_memory k j m2" using two by simp_all
  let ?rest = "pusha_words r2 @ [of_nat v]"
  have "length ?rest = 9" by (simp add: pusha_words_def)
  moreover have "stack_room k (esp r2) (4 * 9)" using stack_room_part [OF room, of 16 36] by (simp add: r2_def)
  ultimately have "pushes ?rest (r2, m2, s) = Some (r2\<lparr>esp := esp r2 - 36\<rparr>, pushed (esp r2 - KERNEL_CONFIG_VMA) ?rest m2, s)"
    using pushes_room [OF tr pl zero(2), of r2 ?rest] by simp
  moreover have "pushed (esp r2 - KERNEL_CONFIG_VMA) ?rest m2 = pushed ?a (saved v e f r) m"
  proof -
    have words: "saved v e f r = (fr @ ?zero) @ ?rest" by (simp add: saved_def same r2_def fr_def)
    have "esp r2 - KERNEL_CONFIG_VMA = ?a - of_nat (4 * length (fr @ ?zero))" by (simp add: r2_def len)
    then show ?thesis unfolding words m2_def by (simp only: pushed_append [of _ "fr @ ?zero"])
  qed
  ultimately have "Option.bind (pushes (pusha_words r2) (r2, m2, s)) (push (of_nat v)) = Some (r\<lparr>esp := esp r - 52\<rparr>, pushed ?a (saved v e f r) m, s)"
    by (simp add: pushes_append pushes_one r2_def del: pushes.simps(2))
  then have "stub_call v (r1, m1, s) = Some (r\<lparr>esp := esp r - 52\<rparr>, pushed ?a (saved v e f r) m, s)"
    unfolding stub_call_def 2 zero(1) by simp
  then show ?thesis by (simp add: deliver)
qed

text \<open>What the handler finds, and what the stub takes back.\<close>

lemma saved_back:
  "handler_arguments (rev (saved v e f r)) = (of_nat v, r\<lparr>esp := esp r - 16\<rparr>, if cpu_pushes_error v then e else 0, f)"
  "popa_registers (take 8 (drop 1 (take 10 (rev (saved v e f r))))) q = r\<lparr>esp := esp q\<rparr>"
  "take 3 (drop 10 (rev (saved v e f r))) = [eip f, cs f, eflags f]"
  by (simp_all add: saved_def pusha_words_def handler_arguments_def popa_registers_def)

text \<open>The memory a handler starts on.\<close>

definition stacked :: "nat \<Rightarrow> u32 \<Rightarrow> idt_cpu_frame \<Rightarrow> idt_registers \<Rightarrow> mem \<Rightarrow> mem" where
  "stacked v e f r m = pushed (esp r - KERNEL_CONFIG_VMA) (saved v e f r) m"

lemma below_mono: "below x n y \<Longrightarrow> n \<le> j \<Longrightarrow> j < 2 ^ 32 \<Longrightarrow> below x j y"
  using in_range_below [of n j "x - KERNEL_CONFIG_VMA" y] by (simp add: below_def diff_diff_eq add.commute)

lemma below_base: "x - of_nat i - of_nat n - KERNEL_CONFIG_VMA = x - of_nat (i + n) - KERNEL_CONFIG_VMA"
  by (simp add: diff_diff_eq)

lemma below_part: "below (x - of_nat i) n y \<Longrightarrow> below x (i + n) y"
  unfolding below_def below_base by (erule in_range_mono) simp

lemma below_apart:
  assumes "i + n < 2 ^ 32" "below x i y" shows "\<not> below (x - of_nat i) n y"
proof -
  define b where "b = x - of_nat (i + n) - KERNEL_CONFIG_VMA"
  have "x - of_nat i - KERNEL_CONFIG_VMA = b + of_nat n" by (simp add: b_def)
  then have top: "in_range (b + of_nat n) i y" using assms(2) by (simp add: below_def)
  have "apart b n (b + of_nat n) i"
    using apart_offsets [of 0 n n i b] assms(1) by simp
  then show ?thesis using top unfolding below_def below_base b_def [symmetric] by (auto simp: apart_iff)
qed

lemma stacked_other: "\<not> below (esp r) 52 y \<Longrightarrow> stacked v e f r m y = m y"
  using pushed_other [of "saved v e f r" "esp r - KERNEL_CONFIG_VMA" y m] by (simp add: stacked_def below_def)

lemma room_small: "stack_room k x n \<Longrightarrow> n < 2 ^ 32"
  by (simp add: stack_room_def kernel_part_def)

section \<open>What a handler prints\<close>

text \<open>A change of memory below a stack pointer and on the screen.\<close>

definition outside :: "boot \<Rightarrow> u32 \<Rightarrow> nat \<Rightarrow> mem \<Rightarrow> mem \<Rightarrow> bool" where
  "outside k x n m m' \<longleftrightarrow> (\<forall>y. \<not> below x n y \<and> \<not> screen_part k y \<longrightarrow> m' y = m y)"

lemma outside_refl: "outside k x n m m"
  and outside_trans: "outside k x n m m' \<Longrightarrow> outside k x n m' m'' \<Longrightarrow> outside k x n m m''"
  by (simp_all add: outside_def)

lemma outside_inner: "outside k (x - of_nat i) n m m' \<Longrightarrow> i + n \<le> j \<Longrightarrow> j < 2 ^ 32 \<Longrightarrow> outside k x j m m'"
  using below_mono [of x "i + n" _ j] by (auto simp: outside_def dest!: below_part)

lemma room_apart:
  assumes "stack_room k x n" "below x n y"
  shows "\<not> screen_part k y" "\<not> in_range 0 4096 y"
  using assms by (auto simp: stack_room_def screen_part_def list_ex_iff list_all_iff below_def apart_iff)

lemma screen_apart:
  assumes "image_ok k m0" "screen_part k y"
  shows "\<not> in_range (directory k) 4096 y" "\<not> in_range (tables k) 40960 y" "\<not> in_range (gdt_table k - KERNEL_CONFIG_VMA) 80 y"
    "\<not> in_range 0 4096 y"
  using image_screen(1) [OF assms(1)] assms(2) by (auto simp: screen_part_def list_ex_iff list_all_iff apart_iff)

lemma outside_keeps:
  assumes img: "image_ok k m0" and mem: "kernel_memory k j m" and room: "stack_room k x n" and same: "outside k x n m m'"
  shows "kernel_memory k j m'"
proof -
  have a: "apart (x - of_nat n - KERNEL_CONFIG_VMA) n (directory k) 4096" "apart (x - of_nat n - KERNEL_CONFIG_VMA) n (tables k) 40960"
    "apart (x - of_nat n - KERNEL_CONFIG_VMA) n (gdt_table k - KERNEL_CONFIG_VMA) 80"
    using room by (simp_all add: stack_room_def)
  have inv: "tables_ok (directory k) (tables k) m" "gdt_flat k m" using mem by (simp_all add: kernel_memory_def)
  have "m' y = m y" if "in_range (directory k) 4096 y \<or> in_range (tables k) 40960 y" for y
    using that a screen_apart [OF img, of y] same by (auto simp: outside_def below_def apart_iff)
  note kept = directory_kept [OF image_okD(3) [OF img] inv(1) this]
  have "gdt_flat k m'"
    by (rule gdt_flat_kept [OF inv(2)]) (use screen_apart [OF img] same a(3) in \<open>auto simp: outside_def below_def apart_iff\<close>)
  then show ?thesis using mem kept by (simp add: kernel_memory_def)
qed

text \<open>A change that spares the screen, its size and the statics does not disturb the console.\<close>

lemma console_kept:
  assumes "\<And>y. screen_part k y \<or> in_range 0 4096 y \<Longrightarrow> m' y = m y"
  shows "undisturbed (console_at k m) (console_at k m')"
proof -
  have "load32 m' (column_at k - KERNEL_CONFIG_VMA) = load32 m (column_at k - KERNEL_CONFIG_VMA)"
    "load32 m' (row_at k - KERNEL_CONFIG_VMA) = load32 m (row_at k - KERNEL_CONFIG_VMA)"
    by (rule quad.ld_cong, rule assms, simp add: screen_part_def screen_objects_def)+
  moreover have "upper m' x = upper m x" if "in_range 0xC00B8000 0x8000 x \<or> x \<in> {0xC000044A, 0xC000044B, 0xC0000484}" for x
  proof -
    have "in_range 0xB8000 0x8000 (x - KERNEL_CONFIG_VMA) = in_range 0xC00B8000 0x8000 x"
      using in_range_moved [of "0xC00B8000" "0x8000" "x - KERNEL_CONFIG_VMA" KERNEL_CONFIG_VMA] by simp
    then have "screen_part k (x - KERNEL_CONFIG_VMA) \<or> in_range 0 4096 (x - KERNEL_CONFIG_VMA)"
      using that by (auto simp: screen_part_def screen_objects_def in_range_def)
    then show ?thesis by (simp add: upper_def assms)
  qed
  ultimately show ?thesis by (simp add: undisturbed_def console_at_def)
qed

lemma console_same:
  assumes "undisturbed c d"
  shows "screen_of d = screen_of c \<and> console_ok C R d = console_ok C R c"
  using undisturbed_screen [OF assms] by simp

text \<open>What the console leaves in memory is the console.\<close>

lemma console_stored:
  assumes "image_ok k m0" shows "undisturbed c (console_at k (console_back k c))"
proof -
  define a b where "a = column_at k - KERNEL_CONFIG_VMA" and "b = row_at k - KERNEL_CONFIG_VMA"
  note ap = image_screen(2-4) [OF assms, folded a_def b_def]
  have ap0: "apart 0 4096 a 4" "apart 0 4096 b 4"
    using image_screen(1) [OF assms] by (simp_all add: screen_objects_def a_def b_def)
  have "load32 (console_back k c) a = column c" "load32 (console_back k c) b = row c"
    using ap(1) by (simp_all add: console_back_def a_def [symmetric] b_def [symmetric] quad.ld_st quad.ld_st_apart apart_commute)
  moreover have "upper (console_back k c) x = vmem c x" if "in_range 0xC00B8000 0x8000 x \<or> x \<in> {0xC000044A, 0xC000044B, 0xC0000484}" for x
  proof -
    have "in_range 0xB8000 0x8000 (x - KERNEL_CONFIG_VMA) = in_range 0xC00B8000 0x8000 x"
      using in_range_moved [of "0xC00B8000" "0x8000" "x - KERNEL_CONFIG_VMA" KERNEL_CONFIG_VMA] by simp
    then have "in_range 0xB8000 0x8000 (x - KERNEL_CONFIG_VMA) \<or> in_range 0 4096 (x - KERNEL_CONFIG_VMA)"
      using that by (auto simp: in_range_def)
    then have "\<not> in_range a 4 (x - KERNEL_CONFIG_VMA)" "\<not> in_range b 4 (x - KERNEL_CONFIG_VMA)"
      using ap(2,3) ap0 by (auto simp: apart_iff)
    then show ?thesis by (simp add: upper_def lower_def console_back_def a_def [symmetric] b_def [symmetric] quad.st_other)
  qed
  ultimately show ?thesis by (simp add: undisturbed_def console_at_def a_def b_def)
qed

text \<open>A call that is laid out: the buffer on the stack below \<open>x\<close>, the format, the arguments and their strings
  in the kernel's part of memory, and none of them where \<open>printk\<close> writes.\<close>

definition laid_out :: "boot \<Rightarrow> u32 \<Rightarrow> nat \<Rightarrow> mem \<Rightarrow> printk_call \<Rightarrow> u8 list \<Rightarrow> arg list \<Rightarrow> bool" where
  "laid_out k x n m call f as \<longleftrightarrow> (case call of (junk, buf, fmt, argp) \<Rightarrow>
     let c = console_at k (frames_on (n, junk) x m)
     in 4096 \<le> unat (x - buf) \<and> unat (x - buf) \<le> n \<and> kernel_part fmt (Suc (length f)) \<and> kernel_part argp (4 * length as)
       \<and> list_all (\<lambda>(i, a). case a of Num w \<Rightarrow> True | Str t \<Rightarrow> kernel_part (load32 (vmem c) (argp + of_nat (4 * i))) (Suc (length t))) (enumerate 0 as)
       \<and> called_with c buf fmt argp f as)"

text \<open>All calls of a handler are, on every memory that satisfies \<open>P\<close>.\<close>

fun ready :: "boot \<Rightarrow> u32 \<Rightarrow> nat \<Rightarrow> (mem \<Rightarrow> bool) \<Rightarrow> printk_call list \<Rightarrow> event list \<Rightarrow> bool" where
  "ready k x n P calls [] \<longleftrightarrow> True"
| "ready k x n P calls (e # es) \<longleftrightarrow> (case e of
     Print f as \<Rightarrow> (case calls of
         [] \<Rightarrow> False
       | call # calls \<Rightarrow> (\<forall>m. P m \<longrightarrow> laid_out k x n m call (chars f) as) \<and> ready k x n P calls es)
   | _ \<Rightarrow> ready k x n P calls es)"

lemma frames_outside: "outside k x n m (frames_on (n, junk) x m)"
  by (simp add: outside_def frames_on_def)

lemma frames_console:
  assumes "stack_room k x n" shows "undisturbed (console_at k m) (console_at k (frames_on (n, junk) x m))"
  by (rule console_kept) (use room_apart [OF assms] in \<open>auto simp: frames_on_def\<close>)

lemma buffer_below:
  assumes "4096 \<le> unat (x - buf)" "unat (x - buf) \<le> n" "n < 2 ^ 32" "in_range buf 4096 (y + KERNEL_CONFIG_VMA)"
  shows "below x n y"
proof -
  define i where "i = n - unat (x - buf)"
  have "of_nat (unat (x - buf)) = x - buf" by simp
  then have "of_nat i = of_nat n - (x - buf)" using assms(2) by (simp add: i_def of_nat_diff)
  then have at: "buf - KERNEL_CONFIG_VMA = (x - of_nat n - KERNEL_CONFIG_VMA) + of_nat i" by simp
  have "in_range (buf - KERNEL_CONFIG_VMA) 4096 y" using assms(4) by (simp add: in_range_moved)
  from this [unfolded at] show ?thesis
    unfolding below_def by (rule in_range_part) (use assms(1-3) in \<open>simp_all add: i_def\<close>)
qed

lemma print_on_effect:
  assumes img: "image_ok k m0" and room: "stack_room k x n" and ok: "console_ok C R (console_at k m)"
    and fit: "printable 4096 (Print f as)" and laid: "laid_out k x n m call (chars f) as"
  shows "\<exists>m'. print_on k x n call m = Some m' \<and> outside k x n m m' \<and> console_ok C R (console_at k m')
    \<and> screen_of (console_at k m') = fold (put C R) (format (chars f) as) (screen_of (console_at k m))"
proof -
  obtain junk buf fmt argp where call: "call = (junk, buf, fmt, argp)" by (rule prod_cases4)
  define c where "c = console_at k (frames_on (n, junk) x m)"
  have place: "called_with c buf fmt argp (chars f) as" "4096 \<le> unat (x - buf)" "unat (x - buf) \<le> n"
    using laid by (simp_all add: laid_out_def call c_def Let_def)
  note same = console_same [OF frames_console [OF room, of m junk], folded c_def]
  obtain d where d: "printk buf fmt argp c = Some d" "screen_of d = fold (put C R) (format (chars f) as) (screen_of c)"
    "console_ok C R d" and frame: "\<And>y. \<not> in_range 0xC00B8000 0x8000 y \<Longrightarrow> \<not> in_range buf 4096 y \<Longrightarrow> vmem d y = vmem c y"
    using printk_shows [of C R c "chars f" as buf fmt argp] same ok fit place(1) by (auto simp: printable_def called_with_def)
  have "console_back k d y = m y" if y: "\<not> below x n y" "\<not> screen_part k y" for y
  proof -
    have "\<not> in_range 0xC00B8000 0x8000 (y + KERNEL_CONFIG_VMA)" "\<not> in_range (column_at k - KERNEL_CONFIG_VMA) 4 y"
      "\<not> in_range (row_at k - KERNEL_CONFIG_VMA) 4 y"
      using y(2) by (simp_all add: screen_part_def screen_objects_def in_range_moved)
    moreover from this(1) have "vmem d (y + KERNEL_CONFIG_VMA) = vmem c (y + KERNEL_CONFIG_VMA)"
      using frame buffer_below [OF place(2,3) room_small [OF room]] y(1) by blast
    moreover have "vmem c (y + KERNEL_CONFIG_VMA) = m y"
      using y(1) by (simp add: c_def console_at_def upper_def frames_on_def)
    ultimately show ?thesis by (simp add: console_back_def lower_def quad.st_other)
  qed
  then have "outside k x n m (console_back k d)" by (simp add: outside_def)
  moreover have "print_on k x n call m = Some (console_back k d)"
    using d(1) by (simp add: print_on_def call c_def)
  ultimately show ?thesis using console_same [OF console_stored [OF img, of d]] d(2,3) same by auto
qed

lemma prints_on_effect:
  assumes img: "image_ok k m0" and room: "stack_room k x n" and fit: "list_all (printable 4096) es"
    and ready: "ready k x n P calls es" and ok: "console_ok C R (console_at k m)" "P m"
    and stays: "\<And>m m'. P m \<Longrightarrow> outside k x n m m' \<Longrightarrow> P m'"
  shows "\<exists>m'. prints_on k x n calls es m = Some m' \<and> outside k x n m m' \<and> console_ok C R (console_at k m')
    \<and> screen_of (console_at k m') = fold (put C R) (transcript es) (screen_of (console_at k m))"
  using fit ready ok
proof (induction es arbitrary: calls m)
  case (Cons e es)
  show ?case
  proof (cases "\<exists>f as. e = Print f as")
    case True
    then obtain f as where print: "e = Print f as" by blast
    then obtain call calls' where e: "e = Print f as" "calls = call # calls'"
      using Cons.prems(2) by (cases calls) auto
    have rest: "ready k x n P calls' es" and laid: "laid_out k x n m call (chars f) as"
      using Cons.prems(2,4) by (simp_all add: e)
    obtain m1 where m1: "print_on k x n call m = Some m1" "outside k x n m m1" "console_ok C R (console_at k m1)"
      "screen_of (console_at k m1) = fold (put C R) (format (chars f) as) (screen_of (console_at k m))"
      using print_on_effect [OF img room Cons.prems(3) _ laid] Cons.prems(1) e(1) by auto
    have "list_all (printable 4096) es" using Cons.prems(1) by simp
    from Cons.IH [OF this rest m1(3) stays [OF Cons.prems(4) m1(2)]] show ?thesis
      using m1 outside_trans [OF m1(2)] by (auto simp: e)
  next
    case False
    then have "prints_on k x n calls (e # es) m = prints_on k x n calls es m" "ready k x n P calls es" "transcript (e # es) = transcript es"
      using Cons.prems(2) by (auto split: event.splits)
    then show ?thesis using Cons by simp
  qed
qed (simp add: outside_refl)

section \<open>The return\<close>

lemma stacked_pops:
  assumes tr: "translate m' (trace u) = walk (directory k) m'"
    and pl: "placed (directory k) (tables k)" and mem: "kernel_memory k j m'"
    and same: "\<And>y. below (esp r) 52 y \<Longrightarrow> m' y = stacked v e f r m y"
    and room: "stack_room k (esp r) 52" and in52: "i + n \<le> 13" and q: "esp q = esp r - 52 + of_nat (4 * i)"
  shows "pops n (q, m', u) = Some (take n (drop i (rev (saved v e f r))), q\<lparr>esp := esp r - 52 + of_nat (4 * (i + n))\<rparr>, m', u)"
proof -
  have "kernel_part (esp r - 52) 52" using room by (simp add: stack_room_def)
  from kernel_part_part [OF this, of "4 * i" "4 * n"] in52
  have part: "kernel_part (esp q) (4 * n)" by (simp add: q)
  have eq: "load32 m' (esp q - KERNEL_CONFIG_VMA + of_nat (4 * l)) = load32 (stacked v e f r m) (esp q - KERNEL_CONFIG_VMA + of_nat (4 * l))"
    if l: "l < n" for l
  proof (rule quad.ld_cong)
    have at: "esp q - KERNEL_CONFIG_VMA + of_nat (4 * l) = (esp r - of_nat 52 - KERNEL_CONFIG_VMA) + of_nat (4 * (i + l))"
      by (simp add: q)
    fix y assume "in_range (esp q - KERNEL_CONFIG_VMA + of_nat (4 * l)) 4 y"
    then have "in_range (esp r - of_nat 52 - KERNEL_CONFIG_VMA) 52 y"
      unfolding at by (rule in_range_part) (use l in52 in simp_all)
    then show "m' y = stacked v e f r m y" by (intro same) (simp add: below_def)
  qed
  have "map (\<lambda>l. load32 m' (esp q - KERNEL_CONFIG_VMA + of_nat (4 * l))) [0..<n]
      = map (\<lambda>l. load32 (stacked v e f r m) (esp q - KERNEL_CONFIG_VMA + of_nat (4 * l))) [0..<n]"
    by (rule map_cong [OF refl]) (simp only: eq set_upt atLeastLessThan_iff)
  also have "\<dots> = take n (drop i (rev (saved v e f r)))"
    using pops_pushed [of "saved v e f r" i n "esp r - KERNEL_CONFIG_VMA" m] in52
    by (simp add: stacked_def q algebra_simps)
  finally have words: "map (\<lambda>l. load32 m' (esp q - KERNEL_CONFIG_VMA + of_nat (4 * l))) [0..<n] = take n (drop i (rev (saved v e f r)))" .
  have "esp q + of_nat (4 * n) = esp r - 52 + of_nat (4 * (i + n))" by (simp add: q algebra_simps)
  then show ?thesis by (simp only: pops_room [OF tr pl mem part] words)
qed

text \<open>What the handler leaves: its frames, below what was printed.\<close>

lemma stacked_outside: "52 \<le> j \<Longrightarrow> j < 2 ^ 32 \<Longrightarrow> outside k (esp r) j m (stacked v e f r m)"
  unfolding outside_def using below_mono [of "esp r" 52 _ j] by (intro allI impI stacked_other) blast

lemma frames_after:
  assumes room: "stack_room k (esp r) (52 + n)" and same: "outside k (esp r - 52) n (stacked v e f r m) m2"
  shows "below (esp r) 52 y \<Longrightarrow> frames_on (n, junk) (esp r - 52) m2 y = stacked v e f r m y"
    and "outside k (esp r) (52 + n) m (frames_on (n, junk) (esp r - 52) m2)"
proof -
  have small: "52 + n < 2 ^ 32" using room by (rule room_small)
  show "below (esp r) 52 y \<Longrightarrow> frames_on (n, junk) (esp r - 52) m2 y = stacked v e f r m y"
    using same below_apart [of 52 n "esp r" y] small room_apart(1) [OF room] below_mono [of "esp r" 52 y "52 + n"]
    by (auto simp: outside_def frames_on_def)
  have "outside k (esp r) (52 + n) m (stacked v e f r m)" using small by (intro stacked_outside) simp_all
  moreover have "outside k (esp r - of_nat 52) n (stacked v e f r m) (frames_on (n, junk) (esp r - 52) m2)"
    using same by (auto simp: outside_def frames_on_def)
  from outside_inner [OF this order_refl small]
  have "outside k (esp r) (52 + n) (stacked v e f r m) (frames_on (n, junk) (esp r - 52) m2)" .
  ultimately show "outside k (esp r) (52 + n) m (frames_on (n, junk) (esp r - 52) m2)" by (rule outside_trans)
qed

lemma interrupt_step:
  fixes s :: "'a acpi_scheme"
  assumes run: "running k s" and img: "image_ok k m0" and mem: "kernel_memory k j m" and tab: "tables_mapped k"
    and v: "v < 255" "\<not> reserved v" and room: "stack_room k (esp r) (52 + fst frames)" and f: "cs f = 8"
    and printed: "\<And>u m2. dispatch (directory k) (stacked v e f r m) (of_nat v) (r\<lparr>esp := esp r - 16\<rparr>) (if cpu_pushes_error v then e else 0) f s
        = Returned u \<Longrightarrow> prints_on k (esp r - 52) (fst frames) calls (drop (length (trace s)) (trace u)) (stacked v e f r m) = Some m2
        \<Longrightarrow> outside k (esp r - 52) (fst frames) (stacked v e f r m) m2"
  shows "interrupt_on k scratch calls frames v e (f, r, m, s) = (case dispatch (directory k) (stacked v e f r m) (of_nat v)
      (r\<lparr>esp := esp r - 16\<rparr>) (if cpu_pushes_error v then e else 0) f s of
        Returned u \<Rightarrow> map_option (\<lambda>m2. Returned (f, r, frames_on frames (esp r - 52) m2, u))
          (prints_on k (esp r - 52) (fst frames) calls (drop (length (trace s)) (trace u)) (stacked v e f r m))
      | Halted u \<Rightarrow> Some (Halted (handler_frame k v f, r\<lparr>esp := esp r - 52\<rparr>, stacked v e f r m, u)))"
proof -
  let ?m = "stacked v e f r m"
  let ?d = "dispatch (directory k) ?m (of_nat v) (r\<lparr>esp := esp r - 16\<rparr>) (if cpu_pushes_error v then e else 0) f s"
  note pl = image_okD(3) [OF img]
  have room52: "stack_room k (esp r) 52" using stack_room_part [OF room, of 0 52] by simp
  have mem0: "kernel_memory k j ?m"
    by (rule room_keeps [OF pl mem room52]) (simp add: stacked_other below_def)
  obtain n c where enter: "deliver k v e (f, r, m, s) = Some (n, handler_frame k v f, c)" "stub_call n c = Some (r\<lparr>esp := esp r - 52\<rparr>, ?m, s)"
    using enter_stub [OF run pl mem tab v room52, of e f] unfolding stacked_def [symmetric] by (auto split: bind_splits)
  have tr: "translate n (trace s) = walk (directory k) n" for n using run by (simp add: running_def)
  have args: "pops 13 (r\<lparr>esp := esp r - 52\<rparr>, ?m, s) = Some (rev (saved v e f r), r, ?m, s)"
    using stacked_pops [OF tr pl mem0 refl room52, of 0 13 "r\<lparr>esp := esp r - 52\<rparr>"] by simp
  have resumed: "stub_return (called scratch (r\<lparr>esp := esp r - 52\<rparr>), frames_on frames (esp r - 52) m2, u) = Some (f, r, frames_on frames (esp r - 52) m2, u)"
    if d: "?d = Returned u" and out: "outside k (esp r - 52) (fst frames) ?m m2" for u m2
  proof -
    let ?m' = "frames_on frames (esp r - 52) m2"
    note after = frames_after [OF room out, where junk = "snd frames", unfolded prod.collapse]
    have mem': "kernel_memory k j ?m'" by (rule outside_keeps [OF img mem room after(2)])
    have run': "running k u" using returned_running [OF d] run by simp
    then have tr': "translate n (trace u) = walk (directory k) n" for n by (simp add: running_def)
    note pop = stacked_pops [OF tr' pl mem' after(1) room52]
    define q where "q = called scratch (r\<lparr>esp := esp r - 52\<rparr>)"
    have "esp q = esp r - 52" by (simp add: q_def called_def split: prod.split)
    then have ten: "pops 10 (q, ?m', u) = Some (take 10 (rev (saved v e f r)), q\<lparr>esp := esp r - 12\<rparr>, ?m', u)"
      using pop [of 0 10 q] by simp
    have leave: "popa_registers (take 8 (drop 1 (take 10 (rev (saved v e f r))))) (q\<lparr>esp := esp r - 12\<rparr>) = r\<lparr>esp := esp r - 12\<rparr>"
      unfolding saved_back(2) by simp
    have three: "pops 3 (r\<lparr>esp := esp r - 12\<rparr>, ?m', u) = Some ([eip f, cs f, eflags f], r, ?m', u)"
      using pop [of 10 3 "r\<lparr>esp := esp r - 12\<rparr>"] by (simp add: saved_back(3))
    have "iret (r\<lparr>esp := esp r - 12\<rparr>, ?m', u) = Some (f, r, ?m', u)"
      using code_base_flat [OF run' pl mem' tab] by (simp add: iret_def three f)
    then show ?thesis unfolding q_def [symmetric] stub_return_def ten bind.bind_lunit prod.case Let_def leave .
  qed
  show ?thesis
  proof (cases ?d)
    case (Returned u)
    show ?thesis
    proof (cases "prints_on k (esp r - 52) (fst frames) calls (drop (length (trace s)) (trace u)) ?m")
      case (Some m2)
      then show ?thesis
        using resumed [OF Returned printed [OF Returned Some]] by (simp add: interrupt_on_def enter args saved_back(1) Returned)
    qed (simp add: interrupt_on_def enter args saved_back(1) Returned)
  qed (simp add: interrupt_on_def enter args saved_back(1))
qed

section \<open>Interrupts of devices\<close>

text \<open>The processor takes an interrupt of a device while the interrupt flag is set.\<close>

definition accepts :: "'a thread \<Rightarrow> bool" where
  "accepts c = bit (eflags (fst c)) 9"

lemma device_gate: "32 \<le> v \<Longrightarrow> \<not> reserved v" "32 \<le> v \<Longrightarrow> v < 255 \<Longrightarrow> unat (of_nat v :: u32) = v"
  "32 \<le> v \<Longrightarrow> v < 255 \<Longrightarrow> (32 :: u32) \<le> of_nat v \<and> of_nat v < (255 :: u32)"
  by (simp_all add: reserved_def word_le_nat_alt word_less_nat_alt unat_of_nat take_bit_eq_mod)

text \<open>The events \<open>es\<close> have been put on the screen, and the console goes on from there.\<close>

definition put_on :: "boot \<Rightarrow> nat \<Rightarrow> nat \<Rightarrow> event list \<Rightarrow> mem \<Rightarrow> mem \<Rightarrow> bool" where
  "put_on k C R es m m' \<longleftrightarrow> console_ok C R (console_at k m')
     \<and> screen_of (console_at k m') = fold (put C R) (transcript es) (screen_of (console_at k m))"

text \<open>The calls of \<open>printk\<close> of a handler are laid out, on every memory that differs from the one at the interrupt
  only in the \<open>d\<close> bytes below the stack pointer and on the screen.\<close>

definition prints_ready :: "boot \<Rightarrow> nat \<Rightarrow> 'a thread \<Rightarrow> nat \<Rightarrow> printk_call list \<Rightarrow> event list \<Rightarrow> bool" where
  "prints_ready k d c n calls es \<longleftrightarrow> (case c of (f, r, m, s) \<Rightarrow> ready k (esp r - 52) n (outside k (esp r) d m) calls es)"

text \<open>The events since an earlier state.\<close>

definition since :: "'a machine_scheme \<Rightarrow> 'b machine_scheme \<Rightarrow> event list" where
  "since s t = drop (length (trace s)) (trace t)"

lemma since_fits:
  fixes s t :: "'a acpi_scheme"
  assumes "dispatch D m v r e f s = Returned t" shows "list_all (printable 4096) (since s t)"
  using recent.kept_returned [OF assms, of "length (trace s)"] by (simp add: recent_fit_def since_def)

text \<open>The machine after an interrupt is the one the handler returned.\<close>

lemma pops_machine: "pops n (r, m, s) = Some (ws, r', m', s') \<Longrightarrow> s' = s"
proof (induction n arbitrary: r m ws)
  case (Suc n)
  then obtain w r1 m1 s1 vs where "pop (r, m, s) = Some (w, r1, m1, s1)" "pops n (r1, m1, s1) = Some (vs, r', m', s')"
    by (auto split: bind_splits)
  then show ?case using stack_machine(2) Suc.IH by blast
qed simp

lemma stub_return_machine: "stub_return (r, m, s) = Some (f', r', m', s') \<Longrightarrow> s' = s"
  by (auto simp: stub_return_def iret_def Let_def split: bind_splits dest!: pops_machine)

lemma interrupt_machine:
  fixes s :: "'a acpi_scheme"
  assumes run: "running k s" and img: "image_ok k m0" and mem: "kernel_memory k j m" and tab: "tables_mapped k"
    and v: "v < 255" "\<not> reserved v" and room: "stack_room k (esp r) 52"
    and ret: "interrupt_on k scratch calls frames v e (f, r, m, s) = Some (Returned (f', r', m', u))"
  shows "dispatch (directory k) (stacked v e f r m) (of_nat v) (r\<lparr>esp := esp r - 16\<rparr>) (if cpu_pushes_error v then e else 0) f s = Returned u"
proof -
  let ?m = "stacked v e f r m"
  let ?d = "dispatch (directory k) ?m (of_nat v) (r\<lparr>esp := esp r - 16\<rparr>) (if cpu_pushes_error v then e else 0) f s"
  note pl = image_okD(3) [OF img]
  have mem0: "kernel_memory k j ?m"
    by (rule room_keeps [OF pl mem room]) (simp add: stacked_other below_def)
  obtain n c where enter: "deliver k v e (f, r, m, s) = Some (n, handler_frame k v f, c)" "stub_call n c = Some (r\<lparr>esp := esp r - 52\<rparr>, ?m, s)"
    using enter_stub [OF run pl mem tab v room, of e f] unfolding stacked_def [symmetric] by (auto split: bind_splits)
  have tr: "translate n (trace s) = walk (directory k) n" for n using run by (simp add: running_def)
  have args: "pops 13 (r\<lparr>esp := esp r - 52\<rparr>, ?m, s) = Some (rev (saved v e f r), r, ?m, s)"
    using stacked_pops [OF tr pl mem0 refl room, of 0 13 "r\<lparr>esp := esp r - 52\<rparr>"] by simp
  show ?thesis
  proof (cases ?d)
    case (Returned t)
    then obtain m2 where "stub_return (called scratch (r\<lparr>esp := esp r - 52\<rparr>), m2, t) = Some (f', r', m', u)"
      using ret by (auto simp: interrupt_on_def enter args saved_back(1) split: bind_splits)
    then show ?thesis using stub_return_machine Returned by metis
  next
    case (Halted t)
    then show ?thesis using ret by (simp add: interrupt_on_def enter args saved_back(1))
  qed
qed

lemma interrupt_served:
  fixes s :: "'a acpi_scheme"
  assumes run: "running k s" and img: "image_ok k m0" and mem: "kernel_memory k j m" and tab: "tables_mapped k"
    and v: "32 \<le> v" "v < 255" and room: "stack_room k (esp r) d" "52 + fst frames \<le> d" and f: "cs f = 8" and sv: "serviced s"
    and ok: "console_ok C R (console_at k m)"
  shows "case dispatch (directory k) (stacked v e f r m) (of_nat v) (r\<lparr>esp := esp r - 16\<rparr>) 0 f s of
      Returned u \<Rightarrow> served s u \<and> running k u
        \<and> (prints_ready k d (f, r, m, s) (fst frames) calls (since s u) \<longrightarrow>
            (\<exists>m'. interrupt_on k scratch calls frames v e (f, r, m, s) = Some (Returned (f, r, m', u))
              \<and> outside k (esp r) d m m' \<and> put_on k C R (since s u) m m'))
    | Halted u \<Rightarrow> idt_gate_callback s v = Acpi_interrupt_handler_power
        \<and> (\<exists>c. interrupt_on k scratch calls frames v e (f, r, m, s) = Some (Halted c))"
proof -
  let ?m = "stacked v e f r m"
  let ?d = "dispatch (directory k) ?m (of_nat v) (r\<lparr>esp := esp r - 16\<rparr>) 0 f s"
  have none: "\<not> cpu_pushes_error v" using v(1) by (auto simp: cpu_pushes_error_def)
  let ?prints = "\<lambda>u. prints_on k (esp r - 52) (fst frames) calls (since s u) ?m"
  have h: "is_interrupt_handler (idt_gate_callback s (unat (of_nat v :: u32)))"
    using servicedD [OF sv] device_gate(3) [OF v] by blast
  have rooms: "stack_room k (esp r) (52 + fst frames)" "stack_room k (esp r) 52" "stack_room k (esp r - 52) (fst frames)"
    using stack_room_part [OF room(1), of 0 "52 + fst frames"] stack_room_part [OF room(1), of 0 52]
      stack_room_part [OF room(1), of 52 "fst frames"] room(2) by simp_all
  have small: "d < 2 ^ 32" by (rule room_small [OF room(1)])
  show ?thesis
  proof (cases ?d)
    case (Returned u)
    have same: "undisturbed (console_at k m) (console_at k ?m)"
      by (rule console_kept) (use stacked_other room_apart [OF rooms(2)] in blast)
    have "outside k (esp r) d m ?m" using room(2) small by (intro stacked_outside) simp_all
    moreover have "outside k (esp r) d m b" if "outside k (esp r) d m a" "outside k (esp r - 52) (fst frames) a b" for a b
      using that outside_inner [of k "esp r" 52 "fst frames" a b d] room(2) small by (auto intro: outside_trans)
    ultimately have effect: "\<exists>m2. ?prints u = Some m2 \<and> outside k (esp r - 52) (fst frames) ?m m2 \<and> put_on k C R (since s u) m m2"
      if "prints_ready k d (f, r, m, s) (fst frames) calls (since s u)"
      using prints_on_effect [OF img rooms(3) since_fits [OF Returned], of "outside k (esp r) d m" calls C R ?m] that ok
        console_same [OF same] by (auto simp: prints_ready_def put_on_def)
    have "\<exists>m'. interrupt_on k scratch calls frames v e (f, r, m, s) = Some (Returned (f, r, m', u))
        \<and> outside k (esp r) d m m' \<and> put_on k C R (since s u) m m'"
      if ready: "prints_ready k d (f, r, m, s) (fst frames) calls (since s u)"
    proof -
      obtain m2 where m2: "?prints u = Some m2" "outside k (esp r - 52) (fst frames) ?m m2" "put_on k C R (since s u) m m2"
        using effect [OF ready] by blast
      let ?m' = "frames_on frames (esp r - 52) m2"
      have "interrupt_on k scratch calls frames v e (f, r, m, s) = Some (Returned (f, r, ?m', u))"
        by (subst interrupt_step [OF run img mem tab v(2) device_gate(1) [OF v(1)] rooms(1) f])
          (use m2 Returned in \<open>auto simp: since_def none\<close>)
      moreover have "outside k (esp r) (52 + fst frames) m ?m'"
        using frames_after(2) [OF rooms(1) m2(2), of "snd frames"] by simp
      then have "outside k (esp r) d m ?m'" using outside_inner [of k "esp r" 0 "52 + fst frames" m ?m' d] room(2) small by simp
      moreover have "put_on k C R (since s u) m ?m'"
        using m2(3) console_same [OF frames_console [OF rooms(3), of m2 "snd frames"]] by (simp add: put_on_def)
      ultimately show ?thesis by blast
    qed
    moreover have "served s u" using dispatch_served [OF Returned h] by simp
    moreover have "running k u" using returned_running [OF Returned] run by simp
    ultimately show ?thesis by (simp add: Returned)
  next
    case (Halted u)
    have "interrupt_on k scratch calls frames v e (f, r, m, s) = Some (Halted (handler_frame k v f, r\<lparr>esp := esp r - 52\<rparr>, ?m, u))"
      by (subst interrupt_step [OF run img mem tab v(2) device_gate(1) [OF v(1)] rooms(1) f]) (use Halted in \<open>auto simp: none\<close>)
    then show ?thesis using dispatch_halts [OF Halted h] by (simp add: device_gate(2) [OF v] Halted)
  qed
qed

text \<open>Registers, calls and frames a handler leaves matter only to its return.\<close>

lemma interrupt_halts:
  "interrupt_on k scratch calls frames v e t = Some (Halted c) \<Longrightarrow> interrupt_on k scratch' calls' frames' v e t = Some (Halted c)"
  by (auto simp: interrupt_on_def Let_def split: bind_splits outcome.splits prod.splits)

end
