(* ===== verification/Preemption.thy ===== *)
theory Preemption
  imports Delivery
begin

text \<open>
  The kernel from \<open>sti\<close> on with interrupts. Theory Interleaving has the calls of \<open>kmain\<close>
  (ksrc/_kmain.c) as steps, with handlers that run between them on the machine state. Here the
  thread of \<open>kmain\<close> has registers, flags and a stack, and an interrupt between two calls or in the
  idle loop is the one of theory Delivery, from the processor's look into the tables in memory to
  \<open>iretl\<close>, with the text the handler prints put on the screen in memory. What the frames of the C code
  leave on the stack is arbitrary, of calls as of handlers, and so is what a call of \<open>kmain\<close> prints.
\<close>

unbundle bit_operations_syntax

section \<open>Calls and interrupts\<close>

text \<open>The next call of \<open>kmain\<close>, and the thread that will make it.\<close>

type_synonym 'a point = "stage \<times> 'a thread"

text \<open>Between two calls the thread may have any registers, with \<open>d\<close> bytes of stack free, and what a call
  leaves on the stack and prints on the screen is arbitrary, as long as the console goes on from
  there, with its cursor on the screen and the size of the screen where the BIOS left it. The calls of
  \<open>printk\<close> of a handler are laid out. The list has the vectors served so far.\<close>

inductive runs :: "boot \<Rightarrow> nat \<Rightarrow> nat \<Rightarrow> u32 \<Rightarrow> u32 \<Rightarrow> nat \<Rightarrow> 'a point \<Rightarrow> nat list \<Rightarrow> 'a point \<Rightarrow> bool" for k C R magic mbi d p where
  begins: "runs k C R magic mbi d p [] p"
| calls: "runs k C R magic mbi d p vs (g, f, q, m, s) \<Longrightarrow> advance (kernel_image k) magic mbi (g, m, s) = Some (g', m', t)
    \<Longrightarrow> stack_room k (esp q') d \<Longrightarrow> cs f' = 8 \<Longrightarrow> outside k (esp q') d m' m'' \<Longrightarrow> console_ok C R (console_at k m'')
    \<Longrightarrow> runs k C R magic mbi d p vs (g', f', q', m'', t)"
| taken: "runs k C R magic mbi d p vs (g, f, q, m, s) \<Longrightarrow> accepts (f, q, m, s) \<Longrightarrow> 32 \<le> v \<Longrightarrow> v < 255 \<Longrightarrow> 52 + fst frames \<le> d
    \<Longrightarrow> interrupt_on k scratch calls frames v 0 (f, q, m, s) = Some (Returned (f', q', m', t))
    \<Longrightarrow> prints_ready k d (f, q, m, s) (fst frames) calls (since s t)
    \<Longrightarrow> runs k C R magic mbi d p (vs @ [v]) (g, f', q', m', t)"

section \<open>The invariant\<close>

text \<open>Page tables in use: two for the APICs, and from \<open>acpi_init\<close> on up to two for the root table.\<close>

definition tables_at :: "stage \<Rightarrow> nat" where
  "tables_at g = (if g = Lapic_timer_config \<or> g = Acpi_init then 2 else 4)"

definition point_ok :: "boot \<Rightarrow> nat \<Rightarrow> nat \<Rightarrow> nat \<Rightarrow> 'a point \<Rightarrow> bool" where
  "point_ok k C R d p = (case p of (g, f, q, m, s) \<Rightarrow> running k s \<and> kernel_memory k (tables_at g) m \<and> serviced s
     \<and> lapic_base s = 0xFEE00000 \<and> stack_room k (esp q) d \<and> cs f = 8 \<and> console_ok C R (console_at k m))"

lemma advance_running:
  fixes s t :: "'a acpi_scheme"
  assumes "advance i magic mbi (g, m, s) = Some (g', m', t)" shows "running k t = running k s"
  by (rule running_view, rule registers.kept_advance [OF assms]) (rule arguments_registers)

lemma advance_memory:
  fixes s t :: "'a acpi_scheme"
  assumes "image_ok k m0" "advance (kernel_image k) magic mbi (g, m, s) = Some (g', m', t)" "kernel_memory k (tables_at g) m"
  shows "kernel_memory k (tables_at g') m'"
  using assms acpi_keeps [OF assms(1)] by (cases g) (auto simp: tables_at_def split: option.splits)

lemma taken_point:
  fixes s :: "'a acpi_scheme"
  assumes p: "point_ok k C R d (g, f, q, m, s)" and img: "image_ok k m0" and tab: "tables_mapped k"
    and v: "32 \<le> v" "v < 255" and d: "52 + fst frames \<le> d"
    and ret: "interrupt_on k scratch calls frames v 0 (f, q, m, s) = Some (Returned (f', q', m', t))"
    and ready: "prints_ready k d (f, q, m, s) (fst frames) calls (since s t)"
  shows "f' = f \<and> q' = q \<and> served s t \<and> point_ok k C R d (g, f', q', m', t)"
proof -
  have ok: "running k s" "kernel_memory k (tables_at g) m" "serviced s" "lapic_base s = 0xFEE00000" "stack_room k (esp q) d" "cs f = 8"
    "console_ok C R (console_at k m)"
    using p by (simp_all add: point_ok_def)
  have "stack_room k (esp q) 52" using stack_room_part [OF ok(5), of 0 52] d by simp
  moreover have "\<not> cpu_pushes_error v" using v(1) by (auto simp: cpu_pushes_error_def)
  ultimately have disp: "dispatch (directory k) (stacked v 0 f q m) (of_nat v) (q\<lparr>esp := esp q - 16\<rparr>) 0 f s = Returned t"
    using interrupt_machine [OF ok(1) img ok(2) tab v(2) device_gate(1) [OF v(1)] _ ret] by simp
  then have "served s t" "running k t" and m': "outside k (esp q) d m m'" "put_on k C R (since s t) m m'" "f' = f" "q' = q"
    using interrupt_served [OF ok(1) img ok(2) tab v ok(5) d ok(6,3,7), where e = 0 and calls = calls and scratch = scratch] ret ready by auto
  moreover have "kernel_memory k (tables_at g) m'" by (rule outside_keeps [OF img ok(2,5) m'(1)])
  ultimately show ?thesis using ok by (simp add: point_ok_def served_def serviced_def put_on_def)
qed

lemma runs_invariant:
  fixes p c :: "'a point"
  assumes "runs k C R magic mbi d p vs c" "point_ok k C R d p" "image_ok k m0" "tables_mapped k"
  shows "point_ok k C R d c \<and> (case c of (g, f, q, m, s) \<Rightarrow> case p of (_, _, _, _, s0) \<Rightarrow>
     eois 0xFEE00000 (trace s) = length vs + eois 0xFEE00000 (trace s0))"
  using assms
proof (induction rule: runs.induct)
  case (calls vs g f q m s g' m' t q' f' m'')
  have ok: "running k s" "kernel_memory k (tables_at g) m" "serviced s" "lapic_base s = 0xFEE00000"
    using calls.IH calls.prems by (simp_all add: point_ok_def)
  have "kernel_memory k (tables_at g') m''"
    by (rule outside_keeps [OF calls.prems(2) advance_memory [OF calls.prems(2) calls.hyps(2) ok(2)] calls.hyps(3,5)])
  then show ?case
    using advance_invariant [OF calls.hyps(2) ok(3,4)] advance_running [OF calls.hyps(2), of k] ok calls.hyps(3,4,6) calls.IH calls.prems
    by (auto simp: point_ok_def silent_def split: prod.splits)
next
  case (taken vs g f q m s v frames scratch calls f' q' m' t)
  have ok: "point_ok k C R d (g, f, q, m, s)" using taken.IH taken.prems by simp
  note new = taken_point [OF ok taken.prems(2,3) taken.hyps(3-7)]
  have "lapic_base s = 0xFEE00000" using ok by (simp add: point_ok_def)
  then show ?case using new taken.IH taken.prems by (auto simp: served_def split: prod.splits)
qed (auto split: prod.splits)

text \<open>The invariant at \<open>sti\<close>.\<close>

lemma sti_point:
  fixes s u :: "'a acpi_scheme"
  assumes "image_ok k m" "loader_state s" "calls_kmain k scratch scratch' (r, m, s) = Some (magic, mbi, m1, s1)"
    and "kmain_prepare s1 = Some u" "lapic_base u = 0xFEE00000" "stack_room k (esp q) d" "cs f = 8"
    and "outside k (esp q) d m1 m0" "console_ok C R (console_at k m0)"
  shows "point_ok k C R d (Lapic_timer_config, f, q, m0, u)"
proof (rule handed_memory [OF assms(1,2), of scratch scratch' r])
  fix m2 s2 and v :: "'a acpi_scheme"
  assume run: "calls_kmain k scratch scratch' (r, m, s) = Some (fst scratch', ebx r + KERNEL_CONFIG_VMA, m2, s2)"
    and regs: "\<And>n. translate n (trace s2) = walk (directory k) n" "gdtr (trace s2) = (80, gdt_table k)" "idtr (trace s2) = (2039, idt_table k)"
    and more: "machine.more s2 = machine.more (idt_init (idt_table k) (stubs k) v)" and mem: "kernel_memory k 2 m2"
  have same: "m2 = m1" "s2 = s1" using run assms(3) by simp_all
  have "idt_gate s1 = idt_gate (idt_init (idt_table k) (stubs k) v)"
    using more unfolding same by (cases s1; cases "idt_init (idt_table k) (stubs k) v") simp
  then have "running k s1" using regs by (simp add: same running_def idt_init_gates)
  then have "running k u" using running_view [OF registers.kept_prepare [OF assms(4)]] by simp
  moreover have "serviced u"
    using idt_init_serviced [of "idt_table k" "stubs k" v]
    by (simp add: serviced_def prepare_callbacks [OF assms(4)] callback_more [OF more] flip: same)
  moreover have "kernel_memory k 2 m0" by (rule outside_keeps [OF assms(1) mem assms(6) assms(8) [folded same]])
  ultimately show ?thesis using assms(5-7,9) by (simp add: point_ok_def tables_at_def)
qed

section \<open>Every interrupt returns\<close>

text \<open>C1. Interrupts are invisible to the code they interrupt, but for what their handlers print. From the
  loader's state, through the entry code and \<open>kmain\<close> up to \<open>sti\<close>, then after any sequence of calls of \<open>kmain\<close>,
  its idle loop included, and of interrupts between them, each delivered by the processor through the
  tables in memory, served by stub and handler on the kernel's stack and ended by \<open>iretl\<close>: one end
  of interrupt has been written per interrupt; a handler runs with interrupts off; and the next
  interrupt of any vector of a device resumes the thread at the same instruction with the same
  registers and flags, or it is the power button that stops the processor. When the handler's calls
  of \<open>printk\<close> are laid out, memory changes only in the \<open>d\<close> bytes below the stack pointer that an
  interrupt may take (52 for processor and stub, the rest for the frames of the C code) and on the
  screen (video memory and the two statics of \<open>console_putc\<close>), where the text of the handler has
  been put. Without interrupts the calls are those of \<open>start\<close>.\<close>

theorem interrupts_resume:
  fixes s u w :: "'a acpi_scheme"
  assumes "image_ok k m" "tables_mapped k" "loader_state s" "calls_kmain k scratch scratch' (r, m, s) = Some (magic, mbi, m1, s1)"
    and "kmain_prepare s1 = Some u" "lapic_base u = 0xFEE00000" "stack_room k (esp q) d" "52 \<le> d" "cs f = 8"
    and "outside k (esp q) d m1 m0" "console_ok C R (console_at k m0)"
    and "runs k C R magic mbi d (Lapic_timer_config, f, q, m0, u) vs (g, f', q', m', w)"
  shows "eois 0xFEE00000 (trace w) = length vs + eois 0xFEE00000 (trace u)
    \<and> (\<forall>v e n h c. 32 \<le> v \<and> v < 255 \<and> deliver k v e (f', q', m', w) = Some (n, h, c) \<longrightarrow> \<not> accepts (h, c) \<and> n = v)
    \<and> (\<forall>v scratch calls frames. 32 \<le> v \<and> v < 255 \<and> 52 + fst frames \<le> d \<longrightarrow>
        (case dispatch (directory k) (stacked v 0 f' q' m') (of_nat v) (q'\<lparr>esp := esp q' - 16\<rparr>) 0 f' w of
          Returned x \<Rightarrow> served w x \<and> (prints_ready k d (f', q', m', w) (fst frames) calls (since w x) \<longrightarrow>
            (\<exists>m3. interrupt_on k scratch calls frames v 0 (f', q', m', w) = Some (Returned (f', q', m3, x))
              \<and> (\<forall>y. \<not> below (esp q') d y \<and> \<not> screen_part k y \<longrightarrow> m3 y = m' y) \<and> console_ok C R (console_at k m3)
              \<and> screen_of (console_at k m3) = fold (put C R) (transcript (since w x)) (screen_of (console_at k m'))))
        | Halted x \<Rightarrow> idt_gate_callback w v = Acpi_interrupt_handler_power
            \<and> (\<exists>c. interrupt_on k scratch calls frames v 0 (f', q', m', w) = Some (Halted c))))
    \<and> start k scratch scratch' (r, m, s)
      = map_option snd (advances 7 (kernel_image k) magic mbi (Lapic_timer_config, m1, u))"
proof -
  have pl: "placed (directory k) (tables k)" by (rule image_okD [OF assms(1)])
  note inv = runs_invariant [OF assms(12) sti_point [OF assms(1,3-7,9-11)] assms(1,2), unfolded prod.case]
  have run: "running k w" and mem: "kernel_memory k (tables_at g) m'" and room: "stack_room k (esp q') d" and cs: "cs f' = 8"
    and sv: "serviced w" and con: "console_ok C R (console_at k m')" using inv by (simp_all add: point_ok_def)
  have "\<not> accepts (h, c) \<and> n = v" if v: "32 \<le> v" "v < 255" and d: "deliver k v e (f', q', m', w) = Some (n, h, c)" for v e n h c
  proof -
    have v': "\<not> reserved v" by (rule device_gate(1) [OF v(1)])
    note gate = gate_at_running [OF run pl mem assms(2) v(2) v'] gate_for_reads [OF v', of "stubs k" 0] stub_found [OF assms(2), of v]
    have "gate_type (gate_for (stubs k) v 0) = 14" using v by (simp add: gate_type_def gate)
    then show ?thesis
      using d v by (auto simp: deliver_def gate code_base_flat [OF run pl mem assms(2)] handler_flags_def accepts_def bit_simps
          split: bind_splits)
  qed
  moreover have "case dispatch (directory k) (stacked v 0 f' q' m') (of_nat v) (q'\<lparr>esp := esp q' - 16\<rparr>) 0 f' w of
      Returned x \<Rightarrow> served w x \<and> (prints_ready k d (f', q', m', w) (fst frames) calls (since w x) \<longrightarrow>
        (\<exists>m3. interrupt_on k scratch calls frames v 0 (f', q', m', w) = Some (Returned (f', q', m3, x))
          \<and> (\<forall>y. \<not> below (esp q') d y \<and> \<not> screen_part k y \<longrightarrow> m3 y = m' y) \<and> console_ok C R (console_at k m3)
          \<and> screen_of (console_at k m3) = fold (put C R) (transcript (since w x)) (screen_of (console_at k m'))))
    | Halted x \<Rightarrow> idt_gate_callback w v = Acpi_interrupt_handler_power
        \<and> (\<exists>c. interrupt_on k scratch calls frames v 0 (f', q', m', w) = Some (Halted c))"
    if "32 \<le> v" "v < 255" "52 + fst frames \<le> d" for v scratch calls frames
    using interrupt_served [OF run assms(1) mem assms(2) that(1,2) room that(3) cs sv con, where e = 0 and scratch = scratch and calls = calls]
    unfolding outside_def put_on_def by (simp split: outcome.splits)
  moreover have "start k scratch scratch' (r, m, s) = map_option snd (advances 7 (kernel_image k) magic mbi (Lapic_timer_config, m1, u))"
    by (simp add: start_def assms(4,5) kmain_advances del: advances.simps)
  ultimately show ?thesis using inv by blast
qed

text \<open>The threads of the theorem above.\<close>

definition interruptible :: "boot \<Rightarrow> 'a thread \<Rightarrow> bool" where
  "interruptible k c \<longleftrightarrow> (\<exists>m s scratch scratch' r magic mbi m1 m0 s1 u f q d vs g C R. image_ok k m \<and> tables_mapped k \<and> loader_state s
     \<and> calls_kmain k scratch scratch' (r, m, s) = Some (magic, mbi, m1, s1) \<and> kmain_prepare s1 = Some u \<and> lapic_base u = 0xFEE00000
     \<and> stack_room k (esp q) d \<and> 52 \<le> d \<and> cs f = 8 \<and> outside k (esp q) d m1 m0 \<and> console_ok C R (console_at k m0)
     \<and> runs k C R magic mbi d (Lapic_timer_config, f, q, m0, u) vs (g, c))"

lemma interruptible_facts:
  assumes "interruptible k (f, q, m, w)"
  obtains j mi where "running k w" "image_ok k mi" "kernel_memory k j m" "tables_mapped k" "stack_room k (esp q) 52" "cs f = 8"
proof -
  obtain mi s scratch scratch' r magic mbi m1 m0 s1 u f0 q0 d vs g C R where h: "image_ok k mi" "tables_mapped k" "loader_state s"
    "calls_kmain k scratch scratch' (r, mi, s) = Some (magic, mbi, m1, s1)" "kmain_prepare s1 = Some u" "lapic_base u = 0xFEE00000"
    "stack_room k (esp q0) d" "52 \<le> d" "cs f0 = 8" "outside k (esp q0) d m1 m0" "console_ok C R (console_at k m0)"
    "runs k C R magic mbi d (Lapic_timer_config, f0, q0, m0, u) vs (g, f, q, m, w)"
    using assms unfolding interruptible_def by blast
  have ok: "point_ok k C R d (g, f, q, m, w)"
    using runs_invariant [OF h(12) sti_point [OF h(1,3-7,9-11)] h(1,2)] by simp
  then have "stack_room k (esp q) 52" using stack_room_part [of k "esp q" d 0 52] h(8) by (simp add: point_ok_def)
  then show thesis using that [of mi "tables_at g"] ok h(1,2) by (simp add: point_ok_def)
qed

text \<open>C17. The processor finds a gate for every vector but the reserved ones and 255: the table ends
  before its gate. The spurious interrupt of a local APIC whose vector register was never
  written has that vector.\<close>

theorem vectors_without_gate:
  assumes "interruptible k (f, q, m, w)"
  shows "deliver k v e (f, q, m, w) = None \<longleftrightarrow> reserved v \<or> 255 \<le> v"
proof (rule interruptible_facts [OF assms])
  fix j mi assume h: "running k w" "image_ok k mi" "kernel_memory k j m" "tables_mapped k" "stack_room k (esp q) 52" "cs f = 8"
  note ok = h(1) image_okD(3) [OF h(2)] h(3-6)
  show ?thesis
  proof (cases "reserved v \<or> 255 \<le> v")
    case True
    have regs: "idtr (trace w) = (2039, idt_table k)" "v < 255 \<Longrightarrow> idt_gate w v = gate_for (stubs k) v 0"
      using ok(1) by (simp_all add: running_def)
    have "\<not> bit (gate_flags 0) 15" by (simp add: gate_reads layout_eval)
    then have "gate_at k v m w = None"
      using True regs by (auto simp: gate_at_def gate_for_def Let_def)
    then show ?thesis using True by (simp add: deliver_def)
  next
    case False
    then have v: "v < 255" "\<not> reserved v" by simp_all
    show ?thesis
      using enter_stub [OF ok(1-4) v ok(5), of e f] False by (cases "deliver k v e (f, q, m, w)") simp_all
  qed
qed

text \<open>C14. An exception whose handler is the one of \<open>idt_init\<close> ends the kernel: interrupted registers,
  error code and frame reach the report, but for the stack pointer, which is the one after the
  processor has pushed the frame and the code.\<close>

theorem exceptions_reported:
  fixes w :: "'a acpi_scheme"
  assumes "interruptible k (f, q, m, w)" "v < 32" "\<not> reserved v" "idt_gate_callback w v = Idt_exception_handler"
  shows "\<exists>g r m' u es. interrupt_on k scratch calls frames v e (f, q, m, w) = Some (Halted (g, r, m', u))
    \<and> trace u = trace w @ es @ [Cli, Hlt]
    \<and> Print ''KERNEL PANIC: %s\<newline>'' [Str (chars (vinfo ! v))] = hd es
    \<and> Print ''ERROR: 0x%x\<newline>'' [Num (if cpu_pushes_error v then e else 0)] \<in> set es
    \<and> Print ''CPU FRAME: eip 0x%x, cs 0x%x, eflags 0x%x\<newline>'' [Num (eip f), Num 8, Num (eflags f)] \<in> set es
    \<and> Print ''REGISTERS:\<newline> edi 0x%x, esi 0x%x, ebp 0x%x, esp 0x%x,\<newline> ebx 0x%x, edx 0x%x, ecx 0x%x, eax 0x%x\<newline>''
        [Num (edi q), Num (esi q), Num (ebp q), Num (esp q - 16), Num (ebx q), Num (edx q), Num (ecx q), Num (eax q)] \<in> set es"
proof (rule interruptible_facts [OF assms(1)])
  fix j mi assume ok: "running k w" "image_ok k mi" "kernel_memory k j m" "tables_mapped k" "stack_room k (esp q) 52" "cs f = 8"
  have v: "v < 255" "unat (of_nat v :: u32) = v" "\<not> of_nat v > (31 :: u32)"
    using assms(2) by (simp_all add: unat_of_nat take_bit_eq_mod word_less_nat_alt)
  let ?d = "dispatch (directory k) (stacked v e f q m) (of_nat v) (q\<lparr>esp := esp q - 16\<rparr>) (if cpu_pushes_error v then e else 0) f w"
  have report: "?d = idt_exception_handler (of_nat v) (q\<lparr>esp := esp q - 16\<rparr>) (if cpu_pushes_error v then e else 0) f w"
    by (simp add: dispatch_def v(2) assms(4))
  then obtain u where u: "?d = Halted u" using exception_handler_stops by metis
  have "stack_room k (esp q) (52 + fst (0 :: nat, m))" using ok(5) by simp
  then have "interrupt_on k scratch [] (0, m) v e (f, q, m, w) = Some (Halted (handler_frame k v f, q\<lparr>esp := esp q - 52\<rparr>, stacked v e f q m, u))"
    by (subst interrupt_step [OF ok(1-4) v(1) assms(3) _ ok(6)]) (use u in auto)
  from interrupt_halts [OF this] show ?thesis
    using u report v ok(6) by (auto simp: idt_exception_handler_def Let_def)
qed

section \<open>Examples\<close>

lemma example_image_ok: "image_ok example_boot boot_memory" "tables_mapped example_boot" "stack_room example_boot 0xC003F000 0x2000"
proof -
  have "load32 (memory_of boot_cells) 0x50000 = 0" by code_simp
  then have "load32 boot_memory 0x50000 = 0" by (simp add: load32_def boot_memory_eq in_range_def)
  then show "image_ok example_boot boot_memory"
    using example_boot_ok(1) by (simp add: image_ok_def regions_def screen_objects_def example_boot_def example_image_def apart_def)
  have "inj_on (\<lambda>i. 0xC0070000 + of_nat (32 * i) :: u32) {..<256}"
    by (rule inj_onI) (auto simp: word_unat_eq_iff unat_word_ariths unat_of_nat take_bit_eq_mod)
  then show "tables_mapped example_boot" by (simp add: tables_mapped_def example_boot_def kernel_part_def)
  show "stack_room example_boot 0xC003F000 0x2000"
    by (simp add: stack_room_def kernel_part_def directory_def tables_def screen_objects_def example_boot_def example_image_def apart_def)
qed

text \<open>The example kernel behind \<open>sti\<close>, at its first call.\<close>

definition example_frame :: idt_cpu_frame where
  "example_frame = \<lparr>eip = 0xC0100000, cs = 8, eflags = 0x202\<rparr>"

definition example_registers :: idt_registers where
  "example_registers = idt_registers.make 1 2 3 0xC003F000 5 6 7 8"

lemma example_prepared:
  obtains m1 s1 and u :: acpi where
    "calls_kmain example_boot (0, 0, 0) (0x80000011, 0, 0) (example_registers, boot_memory, example_machine) = Some (0x80000011, 0xC0000005, m1, s1)"
    "kmain_prepare s1 = Some u" "lapic_base u = 0xFEE00000" "idt_gate_callback u 33 = Idt_interrupt_handler"
    "idt_gate_callback u 14 = Idt_exception_handler"
    "\<And>x. list_all (\<lambda>(a, n). \<not> in_range a n x) ((0x20000, 4096) # regions example_boot) \<Longrightarrow> m1 x = memory_of boot_cells x"
proof (rule handed_memory [OF example_image_ok(1) example_boot_ok(2), of "(0, 0, 0)" "(0x80000011, 0, 0)" example_registers])
  fix m1 s1 and v :: acpi
  assume run: "calls_kmain example_boot (0, 0, 0) (0x80000011, 0, 0) (example_registers, boot_memory, example_machine)
      = Some (fst (0x80000011, 0, 0), ebx example_registers + KERNEL_CONFIG_VMA, m1, s1)"
    and more: "machine.more s1 = machine.more (idt_init (idt_table example_boot) (stubs example_boot) v)" and hw: "hw s1 = hw example_machine"
    and out: "\<And>x. list_all (\<lambda>(a, n). \<not> in_range a n x) (regions example_boot) \<Longrightarrow> m1 x = boot_memory x"
  obtain u where u: "kmain_prepare s1 = Some u" using prepare_returns [of s1] by (auto simp: hw)
  have base: "lapic_base u = 0xFEE00000"
    by (rule prepare_base [OF u, where hi = 0 and lo = "0xFEE00900"]) (simp_all add: hw)
  have "idt_gate_callback u 33 = Idt_interrupt_handler" "idt_gate_callback u 14 = Idt_exception_handler"
    using idt_init_exception [of 14]
    by (simp_all add: prepare_callbacks [OF u] callback_more [OF more] idt_init_callback reserved_def)
  moreover have "m1 x = memory_of boot_cells x" if "list_all (\<lambda>(a, n). \<not> in_range a n x) ((0x20000, 4096) # regions example_boot)" for x
    using that out [of x] by (simp add: boot_memory_eq)
  ultimately show thesis using that [OF _ u base] run by (simp add: example_registers_def idt_registers.make_def)
qed

lemma example_room: "stack_room example_boot (esp example_registers) 0x2000" "cs example_frame = 8" "52 \<le> (0x2000 :: nat)"
  using example_image_ok(3) by (simp_all add: example_frame_def example_registers_def idt_registers.make_def)

text \<open>The screen of the example, and a call of \<open>printk\<close> of its default handler, with the two arguments in the
  frame of the handler.\<close>

definition example_junk :: mem where
  "example_junk = memory_of (place 0x3EBD8 [33, 0, 0, 0, 0xF0, 0xEF, 0x03, 0xC0])"

definition example_call :: printk_call where
  "example_call = (example_junk, 0xC003DBCC, 0xC0080000, 0xC003EBD8)"

lemma cstr_upper: "cstr (upper m) (a + KERNEL_CONFIG_VMA) t = cstr m a t"
proof (induction t arbitrary: a)
  case (Cons c t)
  show ?case using Cons.IH [of "a + 1"] by (simp add: upper_def add.commute add.left_commute)
qed (simp add: upper_def)

lemma example_length: "Suc (length (chars ''Int %u, esp 0x%x || '')) = 21"
  by (simp add: chars_def)

lemma example_text:
  assumes "\<And>x. list_all (\<lambda>(a, n). \<not> in_range a n x) ((0x20000, 4096) # regions example_boot) \<Longrightarrow> m1 x = memory_of boot_cells x"
  shows "console_ok 80 24 (console_at example_boot m1)" "cstr m1 0x80000 (chars ''Int %u, esp 0x%x || '')"
proof -
  have far: "list_all (\<lambda>x. list_all (\<lambda>(a, n). \<not> in_range a n x) ((0x20000, 4096) # regions example_boot))
      [0x44A, 0x44B, 0x484, 0x51000, 0x51001, 0x51002, 0x51003, 0x51004, 0x51005, 0x51006, 0x51007]"
    by (simp add: regions_def example_boot_def example_image_def in_range_def)
  have cells: "map (memory_of boot_cells) [0x44A, 0x44B, 0x484, 0x51000, 0x51001, 0x51002, 0x51003, 0x51004, 0x51005, 0x51006, 0x51007]
      = [80, 0, 24, 0, 0, 0, 0, 0, 0, 0, 0]" by code_simp
  have "list_all (\<lambda>x. m1 x = memory_of boot_cells x)
      [0x44A, 0x44B, 0x484, 0x51000, 0x51001, 0x51002, 0x51003, 0x51004, 0x51005, 0x51006, 0x51007]"
    using far by (rule list.pred_mono_strong) (rule assms)
  then have "m1 0x44A = 80" "m1 0x44B = 0" "m1 0x484 = 24" "load32 m1 0x51000 = 0" "load32 m1 0x51004 = 0"
    using cells by (simp_all add: load32_def)
  then show "console_ok 80 24 (console_at example_boot m1)"
    by (simp add: console_ok_def geometry_def NumberOfColumns_def NumberOfRows_def load16_def console_at_def upper_def
        on_screen_def screen_of_def example_boot_def)
  have shown: "cstr (memory_of boot_cells) 0x80000 (chars ''Int %u, esp 0x%x || '')" by code_simp
  have ap: "list_all (\<lambda>(a, n). apart a n 0x80000 21) ((0x20000, 4096) # regions example_boot)"
    by (simp add: regions_def example_boot_def example_image_def apart_def)
  show "cstr m1 0x80000 (chars ''Int %u, esp 0x%x || '')"
  proof (rule cstr_cong [OF shown], rule assms)
    fix y assume "in_range 0x80000 (Suc (length (chars ''Int %u, esp 0x%x || ''))) y"
    then have "in_range 0x80000 21 y" by (simp only: example_length)
    with ap show "list_all (\<lambda>(a, n). \<not> in_range a n y) ((0x20000, 4096) # regions example_boot)"
      by (auto simp: list_all_iff apart_iff)
  qed
qed

lemma example_laid_out:
  assumes "cstr m1 0x80000 (chars ''Int %u, esp 0x%x || '')" "outside example_boot 0xC003F000 0x2000 m1 m"
  shows "laid_out example_boot 0xC003EFCC 0x1800 m example_call (chars ''Int %u, esp 0x%x || '') [Num 33, Num 0xC003EFF0]"
proof -
  let ?m = "frames_on (0x1800, example_junk) 0xC003EFCC m"
  have "cstr ?m 0x80000 (chars ''Int %u, esp 0x%x || '')"
  proof (rule cstr_cong [OF assms(1)])
    fix y assume "in_range 0x80000 (Suc (length (chars ''Int %u, esp 0x%x || ''))) y"
    then have y: "in_range 0x80000 21 y" by (simp only: example_length)
    have "apart 0x80000 21 0x3D7CC 0x1800" "apart 0x80000 21 0x3D000 0x2000" "apart 0x80000 21 0xB8000 0x8000"
      "apart 0x80000 21 0x51000 4" "apart 0x80000 21 0x51004 4" by (simp_all add: apart_def)
    then have "\<not> below 0xC003EFCC 0x1800 y" "\<not> below 0xC003F000 0x2000 y" "\<not> screen_part example_boot y"
      using y by (auto simp: below_def screen_part_def screen_objects_def example_boot_def apart_iff)
    then show "?m y = m1 y" using assms(2) by (simp add: frames_on_def outside_def)
  qed
  then have "cstr (upper ?m) (0x80000 + KERNEL_CONFIG_VMA) (chars ''Int %u, esp 0x%x || '')" by (simp only: cstr_upper)
  moreover have "load32 (upper ?m) 0xC003EBD8 = 33" "load32 (upper ?m) 0xC003EBDC = 0xC003EFF0"
    by (simp_all add: load32_def upper_def frames_on_def below_def in_range_def example_junk_def memory_of_def place_def)
  ultimately show ?thesis
    by (simp add: laid_out_def example_call_def Let_def console_at_def called_with_def fmt_at_def example_length kernel_part_def) (simp add: apart_def)
qed

text \<open>The example at its first call: the first interrupt and the state it leads to.\<close>

lemma example_interruptible:
  obtains m1 and u :: acpi where "interruptible example_boot (example_frame, example_registers, m1, u)" "idt_gate_callback u 14 = Idt_exception_handler"
proof (rule example_prepared)
  fix m1 s1 and u :: acpi
  assume h: "calls_kmain example_boot (0, 0, 0) (0x80000011, 0, 0) (example_registers, boot_memory, example_machine) = Some (0x80000011, 0xC0000005, m1, s1)"
    "kmain_prepare s1 = Some u" "lapic_base u = 0xFEE00000" "idt_gate_callback u 14 = Idt_exception_handler"
    and m1: "\<And>x. list_all (\<lambda>(a, n). \<not> in_range a n x) ((0x20000, 4096) # regions example_boot) \<Longrightarrow> m1 x = memory_of boot_cells x"
  have "runs example_boot 80 24 0x80000011 0xC0000005 0x2000 (Lapic_timer_config, example_frame, example_registers, m1, u) []
      (Lapic_timer_config, example_frame, example_registers, m1, u)" by (rule runs.begins)
  moreover have "console_ok 80 24 (console_at example_boot m1)" by (rule example_text(1)) (rule m1)
  moreover have "outside example_boot (esp example_registers) 0x2000 m1 m1" by (rule outside_refl)
  ultimately have "interruptible example_boot (example_frame, example_registers, m1, u)"
    unfolding interruptible_def using example_image_ok(1,2) example_boot_ok(2) h(1-3) example_room by blast
  then show thesis using h(4) by (rule that)
qed

lemma interrupts_resume_witness:
  "\<exists>m1 s1 (u :: acpi) m3 x. calls_kmain example_boot (0, 0, 0) (0x80000011, 0, 0) (example_registers, boot_memory, example_machine)
       = Some (0x80000011, 0xC0000005, m1, s1) \<and> kmain_prepare s1 = Some u
     \<and> interrupt_on example_boot (9, 9, 9) [example_call] (0x1800, \<lambda>y. 0xAA) 33 0 (example_frame, example_registers, m1, u)
       = Some (Returned (example_frame, example_registers, m3, x)) \<and> served u x
     \<and> screen_of (console_at example_boot m3)
       = fold (put 80 24) (chars ''Int 33, esp 0xC003EFF0 || '') (screen_of (console_at example_boot m1))"
proof (rule example_prepared)
  fix m1 s1 and u :: acpi
  assume h: "calls_kmain example_boot (0, 0, 0) (0x80000011, 0, 0) (example_registers, boot_memory, example_machine) = Some (0x80000011, 0xC0000005, m1, s1)"
    "kmain_prepare s1 = Some u" "lapic_base u = 0xFEE00000" and dflt: "idt_gate_callback u 33 = Idt_interrupt_handler"
    and m1: "\<And>x. list_all (\<lambda>(a, n). \<not> in_range a n x) ((0x20000, 4096) # regions example_boot) \<Longrightarrow> m1 x = memory_of boot_cells x"
  let ?r = "example_registers\<lparr>esp := esp example_registers - 16\<rparr>" and ?c = "(example_frame, example_registers, m1, u)"
  have con: "console_ok 80 24 (console_at example_boot m1)" and fmt: "cstr m1 0x80000 (chars ''Int %u, esp 0x%x || '')"
    using example_text [of m1] m1 by blast+
  have esp: "esp example_registers = 0xC003F000" by (simp add: example_registers_def idt_registers.make_def)
  obtain x where x: "idt_interrupt_handler 33 ?r 0 example_frame u = Returned x"
    "trace x = trace u @ [Print ''Int %u, esp 0x%x || '' [Num 33, Num 0xC003EFF0]] @ [OutB 0x20 0x20, MmioWrite (lapic_base u OR LAPIC_EIO) 33]"
    using default_handler_acknowledges [of 33 ?r 0 example_frame u] by (auto simp: esp)
  have shown: "transcript (since u x) = chars ''Int 33, esp 0xC003EFF0 || ''"
    by (simp add: since_def x(2) chars_def conv_text_def dec_text_def hex_text_def digits.simps dec_char_def hex_char_def)
  have "ready example_boot 0xC003EFCC 0x1800 (outside example_boot 0xC003F000 0x2000 m1) [example_call] (since u x)"
    using example_laid_out [OF fmt] by (simp add: since_def x(2))
  then have ready: "prints_ready example_boot 0x2000 ?c (fst (0x1800 :: nat, \<lambda>y :: u32. 0xAA :: u8)) [example_call] (since u x)"
    by (simp add: prints_ready_def esp)
  have disp: "dispatch (directory example_boot) (stacked 33 0 example_frame example_registers m1) (of_nat 33) ?r 0 example_frame u = Returned x"
    using x(1) by (simp add: dispatch_def dflt)
  note resume = interrupts_resume [OF example_image_ok(1,2) example_boot_ok(2) h example_room(1,3,2) outside_refl con runs.begins]
  have "(32 :: nat) \<le> 33 \<and> (33 :: nat) < 255 \<and> 52 + fst (0x1800 :: nat, \<lambda>y :: u32. 0xAA :: u8) \<le> 0x2000" by simp
  from resume [THEN conjunct2, THEN conjunct2, THEN conjunct1, THEN spec [of _ 33], THEN spec [of _ "(9, 9, 9)"], THEN spec [of _ "[example_call]"],
      THEN spec [of _ "(0x1800, \<lambda>y. 0xAA)"], THEN mp, OF this, unfolded disp outcome.case]
  obtain m3 where "served u x" "interrupt_on example_boot (9, 9, 9) [example_call] (0x1800, \<lambda>y. 0xAA) 33 0 ?c = Some (Returned (example_frame, example_registers, m3, x))"
    "screen_of (console_at example_boot m3) = fold (put 80 24) (transcript (since u x)) (screen_of (console_at example_boot m1))"
    using ready by blast
  then show ?thesis using h(1,2) shown by metis
qed

lemma vectors_without_gate_witness:
  "\<exists>m' (t :: acpi). interruptible example_boot (example_frame, example_registers, m', t)
     \<and> deliver example_boot 255 0 (example_frame, example_registers, m', t) = None
     \<and> deliver example_boot 14 2 (example_frame, example_registers, m', t) \<noteq> None"
proof -
  obtain m' and t :: acpi where i: "interruptible example_boot (example_frame, example_registers, m', t)" by (rule example_interruptible)
  have "deliver example_boot 255 0 (example_frame, example_registers, m', t) = None"
    "deliver example_boot 14 2 (example_frame, example_registers, m', t) \<noteq> None"
    using vectors_without_gate [OF i] by (simp_all add: reserved_def)
  with i show ?thesis by blast
qed

lemma exceptions_reported_witness:
  "\<exists>m' (t :: acpi) c. interruptible example_boot (example_frame, example_registers, m', t)
     \<and> interrupt_on example_boot (0, 0, 0) [] (0, m') 14 2 (example_frame, example_registers, m', t) = Some (Halted c)"
proof -
  obtain m' and t :: acpi where i: "interruptible example_boot (example_frame, example_registers, m', t)"
    and h: "idt_gate_callback t 14 = Idt_exception_handler" by (rule example_interruptible)
  have "\<not> reserved 14" by (simp add: reserved_def)
  from exceptions_reported [OF i _ this h, of "(0, 0, 0)" "[]" "(0, m')" 2] i show ?thesis by fastforce
qed

end
