(* ===== verification/Linker.thy ===== *)
theory Linker
  imports Delivery
begin

text \<open>
  The linker script, ksrc/linker.ld.S: where the sections of the kernel lie, from their sizes, and
  what that gives the code that runs: the regions that the entry code relies on are apart, the
  tables the processor reads are mapped, and so is the stack.

  Addresses are natural numbers here, the location counter of the linker; the sizes are arguments.
  Where an object lies inside its section is the linker's choice, as is the address of a stub: the
  predicate \<open>linked\<close> says that objects keep inside their section and do not overlap.

  The script does not name \<open>.eh_frame\<close>, which the flags of ksrc/CMakeLists.txt let the compiler
  emit: the linker puts it behind the last section of read-only data, at its own alignment.
\<close>

section \<open>The script\<close>

record sizes =
  multiboot_size :: nat
  text_size :: nat
  data_size :: nat
  rodata_size :: nat
  eh_frame_size :: nat
  bss_size :: nat

text \<open>The symbols; all but the virtual end are physical addresses. The script has none for \<open>.eh_frame\<close>: these
  two are where the linker puts it.\<close>

record symbols =
  multiboot_start :: nat
  multiboot_end :: nat
  text_start :: nat
  text_end :: nat
  data_start :: nat
  data_end :: nat
  rodata_start :: nat
  rodata_end :: nat
  eh_frame_start :: nat
  eh_frame_end :: nat
  bss_start :: nat
  bss_end :: nat
  kernel_virtual_end :: nat
  kernel_physical_end :: nat

definition ALIGN :: "nat \<Rightarrow> nat \<Rightarrow> nat" where
  "ALIGN a dot = (dot + a - 1) div a * a"

definition linker_script :: "sizes \<Rightarrow> symbols" where
  "linker_script z =
     (let vma = unat KERNEL_CONFIG_VMA;
          dot = unat KERNEL_CONFIG_LMA + vma;
          dot = ALIGN 4 dot; mb = dot - vma;
          dot = dot + multiboot_size z; mb' = dot - vma;
          dot = ALIGN 0x1000 dot; text = dot - vma;
          dot = dot + text_size z; text' = dot - vma;
          dot = ALIGN 0x1000 dot; data = dot - vma;
          dot = dot + data_size z; data' = dot - vma;
          dot = ALIGN 0x1000 dot; rodata = dot - vma;
          dot = dot + rodata_size z; rodata' = dot - vma;
          dot = ALIGN 4 dot; eh_frame = dot - vma;
          dot = dot + eh_frame_size z; eh_frame' = dot - vma;
          dot = ALIGN 0x1000 dot; bss = dot - vma;
          dot = dot + bss_size z; bss' = dot - vma;
          dot = ALIGN 4 dot
      in \<lparr>multiboot_start = mb, multiboot_end = mb', text_start = text, text_end = text', data_start = data, data_end = data',
          rodata_start = rodata, rodata_end = rodata', eh_frame_start = eh_frame, eh_frame_end = eh_frame', bss_start = bss, bss_end = bss',
          kernel_virtual_end = dot, kernel_physical_end = dot - vma\<rparr>)"

lemma ALIGN_facts:
  assumes "0 < a"
  shows "dot \<le> ALIGN a dot" "ALIGN a dot < dot + a" "a dvd ALIGN a dot"
proof -
  have "(dot + a - 1) div a * a + (dot + a - 1) mod a = dot + a - 1" by simp
  moreover have "(dot + a - 1) mod a < a" using assms by simp
  ultimately show "dot \<le> ALIGN a dot" "ALIGN a dot < dot + a" unfolding ALIGN_def using assms by linarith+
  show "a dvd ALIGN a dot" by (simp add: ALIGN_def)
qed

text \<open>Moving the location counter down by the offset of the kernel's half keeps alignment.\<close>

lemma ALIGN_physical:
  assumes "0 < a" "a dvd 0xC0000000" "0xC0000000 \<le> dot"
  shows "a dvd ALIGN a dot - 0xC0000000"
  using ALIGN_facts(3) [OF assms(1)] assms(2) by (rule dvd_diff_nat)

lemma script_order:
  fixes z :: sizes
  defines "y \<equiv> linker_script z"
  shows "0x100000 \<le> multiboot_start y" "multiboot_end y = multiboot_start y + multiboot_size z"
    "multiboot_end y \<le> text_start y" "text_end y = text_start y + text_size z"
    "text_end y \<le> data_start y" "data_end y = data_start y + data_size z"
    "data_end y \<le> rodata_start y" "rodata_end y = rodata_start y + rodata_size z"
    "rodata_end y \<le> eh_frame_start y" "eh_frame_end y = eh_frame_start y + eh_frame_size z"
    "eh_frame_end y \<le> bss_start y" "bss_end y = bss_start y + bss_size z"
    "bss_end y \<le> kernel_physical_end y" "kernel_physical_end y < bss_end y + 4"
    "kernel_virtual_end y = kernel_physical_end y + 0xC0000000"
    "0x1000 dvd text_start y" "0x1000 dvd data_start y" "0x1000 dvd rodata_start y" "0x1000 dvd bss_start y" "4 dvd kernel_physical_end y"
proof -
  define d0 where "d0 = ALIGN 4 (0x100000 + 0xC0000000)"
  define d1 where "d1 = ALIGN 0x1000 (d0 + multiboot_size z)"
  define d2 where "d2 = ALIGN 0x1000 (d1 + text_size z)"
  define d3 where "d3 = ALIGN 0x1000 (d2 + data_size z)"
  define de where "de = ALIGN 4 (d3 + rodata_size z)"
  define d4 where "d4 = ALIGN 0x1000 (de + eh_frame_size z)"
  define d5 where "d5 = ALIGN 4 (d4 + bss_size z)"
  have y: "y = \<lparr>multiboot_start = d0 - 0xC0000000, multiboot_end = d0 + multiboot_size z - 0xC0000000,
      text_start = d1 - 0xC0000000, text_end = d1 + text_size z - 0xC0000000,
      data_start = d2 - 0xC0000000, data_end = d2 + data_size z - 0xC0000000,
      rodata_start = d3 - 0xC0000000, rodata_end = d3 + rodata_size z - 0xC0000000,
      eh_frame_start = de - 0xC0000000, eh_frame_end = de + eh_frame_size z - 0xC0000000,
      bss_start = d4 - 0xC0000000, bss_end = d4 + bss_size z - 0xC0000000,
      kernel_virtual_end = d5, kernel_physical_end = d5 - 0xC0000000\<rparr>"
    by (simp add: y_def linker_script_def Let_def d0_def d1_def d2_def d3_def de_def d4_def d5_def)
  have le: "0xC0100000 \<le> d0" "d0 + multiboot_size z \<le> d1" "d1 + text_size z \<le> d2" "d2 + data_size z \<le> d3"
    "d3 + rodata_size z \<le> de" "de + eh_frame_size z \<le> d4" "d4 + bss_size z \<le> d5" "d5 < d4 + bss_size z + 4"
    using ALIGN_facts(1,2) [of 4] ALIGN_facts(1) [of "0x1000"]
    unfolding d0_def d1_def d2_def d3_def de_def d4_def d5_def by simp_all
  then show "0x100000 \<le> multiboot_start y" "multiboot_end y = multiboot_start y + multiboot_size z"
    "multiboot_end y \<le> text_start y" "text_end y = text_start y + text_size z"
    "text_end y \<le> data_start y" "data_end y = data_start y + data_size z"
    "data_end y \<le> rodata_start y" "rodata_end y = rodata_start y + rodata_size z"
    "rodata_end y \<le> eh_frame_start y" "eh_frame_end y = eh_frame_start y + eh_frame_size z"
    "eh_frame_end y \<le> bss_start y" "bss_end y = bss_start y + bss_size z"
    "bss_end y \<le> kernel_physical_end y" "kernel_physical_end y < bss_end y + 4"
    "kernel_virtual_end y = kernel_physical_end y + 0xC0000000"
    unfolding y by simp_all
  note dvd = ALIGN_physical [of "0x1000"] ALIGN_physical [of 4]
  show "0x1000 dvd text_start y" "0x1000 dvd data_start y" "0x1000 dvd rodata_start y" "0x1000 dvd bss_start y" "4 dvd kernel_physical_end y"
    unfolding y using le by (simp_all add: d1_def d2_def d3_def d4_def d5_def dvd)
qed

section \<open>Objects\<close>

text \<open>An object at linear address \<open>x\<close> inside a section, by physical addresses, and objects apart.\<close>

definition inside :: "nat \<Rightarrow> nat \<Rightarrow> u32 \<times> nat \<Rightarrow> bool" where
  "inside s e q = (case q of (x, n) \<Rightarrow> s + 0xC0000000 \<le> unat x \<and> unat x + n \<le> e + 0xC0000000)"

primrec disjoint :: "(u32 \<times> nat) list \<Rightarrow> bool" where
  "disjoint [] \<longleftrightarrow> True"
| "disjoint (q # qs) \<longleftrightarrow> list_all (\<lambda>p. unat (fst q) + snd q \<le> unat (fst p) \<or> unat (fst p) + snd p \<le> unat (fst q)) qs \<and> disjoint qs"

text \<open>The stack of the entry code has 4096 words, the last one at its top (ksrc/_entry.s).\<close>

definition data_objects :: "boot \<Rightarrow> (u32 \<times> nat) list" where
  "data_objects k = [(stack_top k - 4 * (1024 * 4 - 1), 4 * (1024 * 4)), (entry_page_directory k, 4096)]"

definition bss_objects :: "boot \<Rightarrow> (u32 \<times> nat) list" where
  "bss_objects k = [(column_at k, 4), (row_at k, 4), (page_directory (kernel_image k), 4096), (page_tables (kernel_image k), 40960), (gdt_table k, 80),
     (gdt_pointer k, 6), (idt_table k, 2040)]"

definition linked :: "sizes \<Rightarrow> boot \<Rightarrow> bool" where
  "linked z k = (let y = linker_script z in
     list_all (inside (data_start y) (data_end y)) (data_objects k) \<and> disjoint (data_objects k)
     \<and> list_all (inside (bss_start y) (bss_end y)) (bss_objects k) \<and> disjoint (bss_objects k)
     \<and> list_all aligned [entry_page_directory k, page_directory (kernel_image k), page_tables (kernel_image k)]
     \<and> distinct (map (stubs k) [0..<256])
     \<and> kernel_end k = of_nat (kernel_physical_end y))"

text \<open>What the loader copies: the marker of the script and the directory of the entry code.\<close>

definition loaded_image :: "boot \<Rightarrow> mem \<Rightarrow> bool" where
  "loaded_image k m \<longleftrightarrow> load32 m (kernel_end k) = 0
     \<and> list_all (\<lambda>i. pde (entry_page_directory k - KERNEL_CONFIG_VMA) m i = entry_pde i) [0..<1024]"

text \<open>Ranges that do not overlap as intervals are apart.\<close>

lemma intervals_apart:
  assumes "0xC0000000 \<le> unat x" "0xC0000000 \<le> unat y" "unat x + n \<le> unat y \<or> unat y + k \<le> unat x" "unat x + n \<le> 2 ^ 32" "unat y + k \<le> 2 ^ 32"
  shows "apart (x - KERNEL_CONFIG_VMA) n (y - KERNEL_CONFIG_VMA) k"
proof (cases "n = 0 \<or> k = 0")
  case False
  have "n \<le> unat (y - x) \<and> k \<le> unat (x - y)"
    using assms False by (auto simp: unat_sub_if')
  then show ?thesis unfolding apart_moved by (simp add: apart_def)
qed (auto simp: apart_def)

lemma disjoint_spaced:
  "disjoint qs \<Longrightarrow> list_all (\<lambda>(x, n). 0xC0000000 \<le> unat x \<and> unat x + n \<le> 2 ^ 32) qs
    \<Longrightarrow> spaced (map (\<lambda>(x, n). (x - KERNEL_CONFIG_VMA, n)) qs)"
proof (induction qs)
  case (Cons q qs)
  have "apart (fst q - KERNEL_CONFIG_VMA) (snd q) (fst p - KERNEL_CONFIG_VMA) (snd p)" if "p \<in> set qs" for p
    using Cons.prems that by (intro intervals_apart) (auto simp: list_all_iff split_beta)
  then show ?case using Cons by (auto simp: list_all_iff split_beta)
qed simp

lemma aligned_physical: "aligned x \<Longrightarrow> aligned (x - KERNEL_CONFIG_VMA)"
proof -
  have "(0xC0000000 :: u32) = - 0x40000000" by simp
  then have sum: "x - KERNEL_CONFIG_VMA = x + 0x40000000" by (simp only: diff_minus_eq_add)
  show "aligned x \<Longrightarrow> aligned (x - KERNEL_CONFIG_VMA)" unfolding sum using aligned_add [of x "0x40000"] by simp
qed

section \<open>The kernel the script makes\<close>

text \<open>Objects that lie in different sections are apart.\<close>

lemma disjoint_chain:
  assumes "disjoint ps" "disjoint qs" "list_all (\<lambda>(x, n). unat x + n \<le> d) ps" "list_all (\<lambda>(x, n). d \<le> unat x) qs"
  shows "disjoint (ps @ qs)"
  using assms(1,3)
proof (induction ps)
  case (Cons p ps)
  have "unat (fst p) + snd p \<le> unat (fst q)" if "q \<in> set qs" for q
    using assms(4) Cons.prems that by (fastforce simp: list_all_iff split_beta)
  then show ?case using Cons by (auto simp: list_all_iff)
qed (simp add: assms(2))

text \<open>The parts of the data section, and the linear addresses at which sections begin and end.\<close>

definition data_parts :: "boot \<Rightarrow> (u32 \<times> nat) list" where
  "data_parts k = [(stack_top k - 12, 12), (entry_page_directory k, 4096)]"

lemma linked_places:
  assumes "linked z k" "kernel_physical_end (linker_script z) + 4 \<le> l" "l \<le> 0x3EC00000"
  obtains d e where "e + 4 \<le> l" "unat (kernel_end k + KERNEL_CONFIG_VMA) = 0xC0000000 + e" "d \<le> 0xC0000000 + e"
    "list_all (\<lambda>(x, n). 0xC0100000 \<le> unat x \<and> unat x + n \<le> d) (data_parts k)" "disjoint (data_parts k)"
    "list_all (\<lambda>(x, n). d \<le> unat x \<and> unat x + n \<le> 0xC0000000 + e) (bss_objects k)" "disjoint (bss_objects k)"
    "0xC0100000 + 16380 \<le> unat (stack_top k)" "unat (stack_top k) \<le> d"
proof -
  define y where "y = linker_script z"
  note order = script_order [of z, folded y_def]
  define b where "b = stack_top k - 16380"
  have data: "inside (data_start y) (data_end y) (b, 16384)" "inside (data_start y) (data_end y) (entry_page_directory k, 4096)"
    "unat b + 16384 \<le> unat (entry_page_directory k) \<or> unat (entry_page_directory k) + 4096 \<le> unat b"
    using assms(1) by (simp_all add: linked_def Let_def data_objects_def y_def b_def)
  have bss: "list_all (inside (bss_start y) (bss_end y)) (bss_objects k)" "disjoint (bss_objects k)"
    "kernel_end k = of_nat (kernel_physical_end y)"
    using assms(1) by (simp_all add: linked_def Let_def y_def)
  have small: "kernel_physical_end y + 4 \<le> l" "kernel_physical_end y + 4 \<le> 0x3EC00000" using assms(2,3) by (simp_all add: y_def)
  have ends: "0x100000 \<le> data_start y" "data_end y \<le> bss_start y" "bss_end y \<le> kernel_physical_end y"
    using order by linarith+
  have low: "0xC0100000 \<le> unat b" "unat b + 16384 \<le> data_end y + 0xC0000000" "data_end y \<le> kernel_physical_end y"
    using data(1) ends order by (auto simp: inside_def)
  have "stack_top k = b + of_nat 16380" by (simp add: b_def)
  then have top: "unat (stack_top k) = unat b + 16380" using low small by (simp add: unat_word_ariths)
  then have sp: "unat (stack_top k - 12) = unat b + 16368" using low small by (simp add: unat_sub word_le_nat_alt)
  show thesis
  proof (rule that [of "kernel_physical_end y" "data_end y + 0xC0000000"])
    show "unat (kernel_end k + KERNEL_CONFIG_VMA) = 0xC0000000 + kernel_physical_end y"
      using bss(3) small by (simp add: unat_word_ariths unat_of_nat)
    show "list_all (\<lambda>(x, n). 0xC0100000 \<le> unat x \<and> unat x + n \<le> data_end y + 0xC0000000) (data_parts k)"
      using data(2) low ends by (simp add: data_parts_def inside_def sp)
    show "disjoint (data_parts k)" using data(3) by (auto simp: data_parts_def sp)
    show "list_all (\<lambda>(x, n). data_end y + 0xC0000000 \<le> unat x \<and> unat x + n \<le> 0xC0000000 + kernel_physical_end y) (bss_objects k)"
      using bss(1) by (rule list.pred_mono_strong) (use ends in \<open>auto simp: inside_def\<close>)
  qed (use small bss low top in simp_all)
qed

text \<open>The order of places does not matter.\<close>

lemma spaced_append:
  "spaced (xs @ ys) \<longleftrightarrow> spaced xs \<and> spaced ys \<and> (\<forall>x \<in> set xs. \<forall>y \<in> set ys. apart (fst x) (snd x) (fst y) (snd y))"
  by (induction xs) (auto simp: list_all_iff)

lemma spaced_swap: "spaced (xs @ ys @ zs) = spaced (ys @ xs @ zs)"
  unfolding spaced_append set_append ball_Un using apart_commute by blast

lemma linked_spaced:
  assumes "linked z k" "kernel_physical_end (linker_script z) + 4 \<le> 0x3EC00000"
  shows "spaced ((0, 4096) # screen_objects k @ regions k)"
proof -
  obtain d e where e: "e + 4 \<le> 0x3EC00000" "unat (kernel_end k + KERNEL_CONFIG_VMA) = 0xC0000000 + e" "d \<le> 0xC0000000 + e"
    and data: "list_all (\<lambda>(x, n). 0xC0100000 \<le> unat x \<and> unat x + n \<le> d) (data_parts k)" "disjoint (data_parts k)"
    and bss: "list_all (\<lambda>(x, n). d \<le> unat x \<and> unat x + n \<le> 0xC0000000 + e) (bss_objects k)" "disjoint (bss_objects k)"
    by (rule linked_places [OF assms order_refl])
  define bs where "bs = butlast (bss_objects k)"
  have bs: "list_all (\<lambda>(x, n). d \<le> unat x \<and> unat x + n \<le> 0xC0000000 + e) bs" "disjoint bs"
    using bss by (simp_all add: bs_def bss_objects_def)
  let ?low = "[(KERNEL_CONFIG_VMA, 4096), (0xC00B8000, 0x8000)]" and ?marker = "[(kernel_end k + KERNEL_CONFIG_VMA, 4)]"
  have "disjoint (bs @ ?marker)"
    by (rule disjoint_chain [OF bs(2), where d = "0xC0000000 + e"]) (use bs(1) e in \<open>auto simp: list_all_iff\<close>)
  then have "disjoint (data_parts k @ bs @ ?marker)"
    by (rule disjoint_chain [OF data(2), where d = d]) (use data(1) bs(1) e in \<open>auto simp: list_all_iff\<close>)
  then have "disjoint (?low @ data_parts k @ bs @ ?marker)"
    by (rule disjoint_chain [where d = "0xC0100000", rotated]) (use data(1) bs(1) e in \<open>auto simp: list_all_iff data_parts_def\<close>)
  moreover have "list_all (\<lambda>(x, n). 0xC0000000 \<le> unat x \<and> unat x + n \<le> 2 ^ 32) (?low @ data_parts k @ bs @ ?marker)"
    using data(1) bs(1) e by (auto simp: list_all_iff data_parts_def)
  ultimately have "spaced (map (\<lambda>(x, n). (x - KERNEL_CONFIG_VMA, n)) (?low @ data_parts k @ bs @ ?marker))"
    by (rule disjoint_spaced)
  then have "spaced ([(0, 4096), (0xB8000, 0x8000)] @ (map (\<lambda>(x, n). (x - KERNEL_CONFIG_VMA, n)) (data_parts k)
      @ [(column_at k - KERNEL_CONFIG_VMA, 4), (row_at k - KERNEL_CONFIG_VMA, 4)] @ drop 2 (regions k)))"
    by (simp only: bs_def bss_objects_def regions_def list.map prod.case butlast.simps append.simps map_append) simp
  then have "spaced ([(0, 4096), (0xB8000, 0x8000)] @ ([(column_at k - KERNEL_CONFIG_VMA, 4), (row_at k - KERNEL_CONFIG_VMA, 4)]
      @ map (\<lambda>(x, n). (x - KERNEL_CONFIG_VMA, n)) (data_parts k) @ drop 2 (regions k)))"
    unfolding spaced_append [of "[(0, 4096), (0xB8000, 0x8000)]"] spaced_swap [of "map _ (data_parts k)"] by auto
  then show ?thesis by (simp add: regions_def screen_objects_def data_parts_def)
qed

lemma linked_rooms:
  assumes "linked z k" "kernel_physical_end (linker_script z) + 4 \<le> 0x400000"
  shows "tables_mapped k" "unat (stack_top k) - 16380 + n \<le> unat x \<Longrightarrow> unat x \<le> unat (stack_top k) \<Longrightarrow> stack_room k x n"
    "12 \<le> stack_top k - KERNEL_CONFIG_VMA" "stack_top k - KERNEL_CONFIG_VMA \<le> 0x400000" "page_tables (kernel_image k) \<noteq> KERNEL_CONFIG_VMA"
    "0xC0000000 \<le> unat (page_tables (kernel_image k))" "unat (page_tables (kernel_image k)) + 40960 \<le> 0xC0400000"
proof -
  have small: "kernel_physical_end (linker_script z) + 4 \<le> 0x3EC00000" "(0x400000 :: nat) \<le> 0x3EC00000" using assms(2) by simp_all
  obtain d e where e: "e + 4 \<le> 0x400000" "d \<le> 0xC0000000 + e"
    and bss: "list_all (\<lambda>(x, n). d \<le> unat x \<and> unat x + n \<le> 0xC0000000 + e) (bss_objects k)"
    and top: "0xC0100000 + 16380 \<le> unat (stack_top k)" "unat (stack_top k) \<le> d"
    by (rule linked_places [OF assms small(2)])
  have part: "kernel_part y n" if "d \<le> unat y" "unat y + n \<le> 0xC0000000 + e" for y n
    using that top e by (simp add: kernel_part_def)
  have "inj_on (stubs k) {..<256}"
    using assms(1) by (simp add: linked_def Let_def distinct_map lessThan_atLeast0)
  then show "tables_mapped k" using bss by (simp add: tables_mapped_def bss_objects_def part)
  show "12 \<le> stack_top k - KERNEL_CONFIG_VMA" "stack_top k - KERNEL_CONFIG_VMA \<le> 0x400000"
    using top e by (simp_all add: word_le_nat_alt unat_sub)
  show "unat (page_tables (kernel_image k)) + 40960 \<le> 0xC0400000" using bss e by (simp add: bss_objects_def)
  have "0xC0100000 \<le> unat (page_tables (kernel_image k))" using bss top by (simp add: bss_objects_def)
  then show "page_tables (kernel_image k) \<noteq> KERNEL_CONFIG_VMA" "0xC0000000 \<le> unat (page_tables (kernel_image k))" by auto
  show "stack_room k x n" if x: "unat (stack_top k) - 16380 + n \<le> unat x" "unat x \<le> unat (stack_top k)"
  proof -
    have n: "n \<le> 16380" using x top(1) by linarith
    then have small: "unat (of_nat n :: u32) = n" by (simp add: unat_of_nat take_bit_eq_mod)
    then have low: "unat (x - of_nat n) = unat x - n" using x by (simp add: unat_sub word_le_nat_alt)
    have base: "0xC0100000 + n \<le> unat x" using x(1) top(1) by linarith
    have ap: "apart (x - of_nat n - KERNEL_CONFIG_VMA) n (y - KERNEL_CONFIG_VMA) l" if "d \<le> unat y" "unat y + l \<le> 0xC0000000 + e" for y l
      by (rule intervals_apart) (use that x(2) top base e low in simp_all)
    have "kernel_part (x - of_nat n) n" using x(2) top(2) e base low by (simp add: kernel_part_def)
    moreover have "apart (x - of_nat n - KERNEL_CONFIG_VMA) n (y - KERNEL_CONFIG_VMA) l" if "0xC0000000 \<le> unat y" "unat y + l \<le> 0xC0100000" for y l
    proof (rule intervals_apart)
      show "unat (x - of_nat n) + n \<le> unat y \<or> unat y + l \<le> unat (x - of_nat n)" using that base low by linarith
    qed (use that x(2) top base e low in simp_all)
    from this [of KERNEL_CONFIG_VMA 4096] this [of "0xC00B8000" "0x8000"]
    have "apart (x - of_nat n - KERNEL_CONFIG_VMA) n 0 4096" "apart (x - of_nat n - KERNEL_CONFIG_VMA) n 0xB8000 0x8000" by simp_all
    ultimately show ?thesis using bss ap by (simp add: stack_room_def directory_def tables_def bss_objects_def screen_objects_def)
  qed
qed

text \<open>C5. The script gives the entry code and the processor the image they rely on. When the end of the
  kernel does not pass 4 MB: the stack, both directories, the page tables, the descriptor
  table with its pointer, the statics of the console and the marker are apart from each other, from
  the video memory and from the first page of physical memory, page tables are aligned, both tables
  the processor reads are mapped after \<open>paging_init\<close>, and every stack pointer of the stack has room for
  the \<open>n\<close> bytes below it when they lie in the stack. These are the assumptions on the image of \<open>interrupts_resume\<close>.\<close>

theorem linked_kernel:
  assumes "linked z k" "loaded_image k m" "kernel_physical_end (linker_script z) + 4 \<le> 0x400000"
  shows "image_ok k m \<and> tables_mapped k
    \<and> (\<forall>x n. unat (stack_top k) - 16380 + n \<le> unat x \<and> unat x \<le> unat (stack_top k) \<longrightarrow> stack_room k x n)"
proof -
  note rooms = linked_rooms [OF assms(1,3)]
  have sp: "spaced ((0, 4096) # screen_objects k @ regions k)" by (rule linked_spaced [OF assms(1)]) (use assms(3) in simp)
  have al: "aligned (entry_page_directory k - KERNEL_CONFIG_VMA)" "aligned (page_directory (kernel_image k) - KERNEL_CONFIG_VMA)"
    "aligned (page_tables (kernel_image k) - KERNEL_CONFIG_VMA)"
    using assms(1) by (simp_all add: linked_def Let_def aligned_physical)
  have "apart (page_directory (kernel_image k) - KERNEL_CONFIG_VMA) 4096 (page_tables (kernel_image k) - KERNEL_CONFIG_VMA) 40960"
    using sp by (simp add: regions_def screen_objects_def)
  moreover have "unat (page_tables (kernel_image k) - KERNEL_CONFIG_VMA) + 40960 \<le> 2 ^ 32"
    using rooms(6,7) by (simp add: unat_sub_if')
  ultimately have "placed (page_directory (kernel_image k) - KERNEL_CONFIG_VMA) (page_tables (kernel_image k) - KERNEL_CONFIG_VMA)"
    using al rooms(5) by (simp add: placed_def)
  moreover have "spaced (regions k)" using sp by (simp add: spaced_append)
  ultimately have "image_ok k m"
    using sp al(1) rooms(3,4) assms(2) by (simp add: image_ok_def boot_ok_def loaded_image_def list_all_iff case_prod_beta)
  then show ?thesis using rooms(1,2) by blast
qed

section \<open>What is mapped of the image\<close>

text \<open>The sections of the image, with the word the script puts behind it.\<close>

definition sections :: "symbols \<Rightarrow> (nat \<times> nat) list" where
  "sections y = [(multiboot_start y, multiboot_end y), (text_start y, text_end y), (data_start y, data_end y),
     (rodata_start y, rodata_end y), (eh_frame_start y, eh_frame_end y), (bss_start y, bss_end y),
     (kernel_physical_end y, kernel_physical_end y + 4)]"

definition sections_mapped :: "u32 \<Rightarrow> mem \<Rightarrow> symbols \<Rightarrow> bool" where
  "sections_mapped D m y \<longleftrightarrow> (\<forall>(a, b) \<in> set (sections y). \<forall>p. a \<le> p \<and> p < b \<longrightarrow> walk D m (of_nat p + KERNEL_CONFIG_VMA) = Some (of_nat p))"

lemma sections_below:
  assumes "(a, b) \<in> set (sections (linker_script z))" "p < b" shows "p < kernel_physical_end (linker_script z) + 4"
  using assms script_order [of z] unfolding sections_def by auto

lemma linked_init:
  assumes "linked z k" "kernel_physical_end (linker_script z) + 4 \<le> 0x3EC00000"
  shows "placed (directory k) (tables k)" "apart (kernel_end k) 4 (directory k) 4096" "apart (kernel_end k) 4 (tables k) 40960"
proof -
  have sp: "spaced ((0, 4096) # screen_objects k @ regions k)" by (rule linked_spaced [OF assms])
  then show "apart (kernel_end k) 4 (directory k) 4096" "apart (kernel_end k) 4 (tables k) 40960"
    by (simp_all add: regions_def screen_objects_def directory_def tables_def apart_commute)
  obtain d e where e: "e + 4 \<le> 0x3EC00000" "unat (kernel_end k + KERNEL_CONFIG_VMA) = 0xC0000000 + e" "d \<le> 0xC0000000 + e"
    and bss: "list_all (\<lambda>(x, n). d \<le> unat x \<and> unat x + n \<le> 0xC0000000 + e) (bss_objects k)"
    and top: "0xC0100000 + 16380 \<le> unat (stack_top k)" "unat (stack_top k) \<le> d"
    by (rule linked_places [OF assms order_refl])
  let ?t = "page_tables (kernel_image k)"
  have t: "0xC0100000 \<le> unat ?t" "unat ?t + 40960 \<le> 0xC0000000 + e" using bss top by (simp_all add: bss_objects_def)
  have "unat (?t - KERNEL_CONFIG_VMA) + 40960 \<le> 2 ^ 32" using t e by (simp add: unat_sub_if')
  moreover have "?t \<noteq> KERNEL_CONFIG_VMA" using t by auto
  ultimately show "placed (directory k) (tables k)"
    using sp assms(1) by (simp add: placed_def linked_def Let_def aligned_physical regions_def screen_objects_def directory_def tables_def)
qed

text \<open>C34. \<open>paging_init\<close> maps the whole image exactly when it ends, with the marker, below 4 MB: the loop reads
  the marker word, which is 0, where it means its address. With the address in that word, every
  byte of every section would be mapped. The sections are those of the script, each of its size.\<close>

theorem image_mapped:
  fixes z :: sizes and k :: boot and s :: "'a machine_scheme"
  assumes "linked z k" "kernel_physical_end (linker_script z) + 4 \<le> 0x3EC00000"
    and "load32 m (kernel_end k) = 0 \<or> load32 m (kernel_end k) = kernel_end k"
  shows "\<exists>m' s'. paging_init (page_directory (kernel_image k)) (page_tables (kernel_image k)) (kernel_end k) m s = Some (m', s')
    \<and> (if load32 m (kernel_end k) = 0
       then sections_mapped (directory k) m' (linker_script z) \<longleftrightarrow> kernel_physical_end (linker_script z) + 4 \<le> 0x400000
       else sections_mapped (directory k) m' (linker_script z))
    \<and> map (\<lambda>(a, b). b - a) (sections (linker_script z))
       = [multiboot_size z, text_size z, data_size z, rodata_size z, eh_frame_size z, bss_size z, 4]"
proof -
  define y where "y = linker_script z"
  define e where "e = kernel_physical_end y"
  note order = script_order [of z, folded y_def]
  have ke: "kernel_end k = of_nat e" using assms(1) by (simp add: linked_def Let_def y_def e_def)
  have small: "e + 4 \<le> 0x3EC00000" using assms(2) by (simp add: e_def y_def)
  then have ue: "unat (kernel_end k) = e" by (simp add: ke unat_of_nat)
  have bound: "unat (load32 m (kernel_end k)) < 0x3EC00000" using assms(3) small ue by auto
  have D: "page_directory (kernel_image k) = directory k + KERNEL_CONFIG_VMA" "page_tables (kernel_image k) = tables k + KERNEL_CONFIG_VMA"
    by (simp_all add: directory_def tables_def)
  let ?b = "unat (load32 m (kernel_end k))"
  obtain m' s' where init: "paging_init (page_directory (kernel_image k)) (page_tables (kernel_image k)) (kernel_end k) m s = Some (m', s')"
    and walk: "\<And>x. walk (directory k) m' x = (if drop_bit 12 x = 0xFEC00 \<or> drop_bit 12 x = 0xFEE00 then Some x
      else if KERNEL_CONFIG_VMA \<le> x \<and> unat x < 0xC0000000 + (?b div 0x400000 + 1) * 0x400000 then Some (x - KERNEL_CONFIG_VMA) else None)"
    using init_translation [OF linked_init [OF assms(1,2)] bound, of s] unfolding D by blast
  have u: "unat (of_nat p + KERNEL_CONFIG_VMA) = p + 0xC0000000" if "p < 0x3EC00000" for p
    using that by (simp add: unat_word_ariths unat_of_nat)
  have page: "drop_bit 12 (of_nat p + KERNEL_CONFIG_VMA) \<noteq> 0xFEC00 \<and> drop_bit 12 (of_nat p + KERNEL_CONFIG_VMA) \<noteq> 0xFEE00"
    if "p < 0x3EC00000" for p
  proof -
    have "unat (drop_bit 12 (of_nat p + KERNEL_CONFIG_VMA)) < 0xFEC00"
      using that by (simp add: unat_drop_bit_eq drop_bit_eq_div unat_div u [OF that])
    then show ?thesis by auto
  qed
  have view: "walk (directory k) m' (of_nat p + KERNEL_CONFIG_VMA) = (if p < (?b div 0x400000 + 1) * 0x400000 then Some (of_nat p) else None)"
    if "p < 0x3EC00000" for p
    using page [OF that] by (simp add: walk u [OF that] word_le_nat_alt)
  have inside: "p < e + 4" if "(a, b) \<in> set (sections y)" "p < b" for a b p
    using sections_below that unfolding y_def e_def by blast
  have "sections_mapped (directory k) m' y \<longleftrightarrow> e + 4 \<le> (?b div 0x400000 + 1) * 0x400000"
  proof
    assume all: "sections_mapped (directory k) m' y"
    have "(e, e + 4) \<in> set (sections y)" by (simp add: sections_def e_def)
    moreover have "e \<le> e + 3" "e + 3 < e + 4" by simp_all
    ultimately have "walk (directory k) m' (of_nat (e + 3) + KERNEL_CONFIG_VMA) = Some (of_nat (e + 3))"
      using all unfolding sections_mapped_def by blast
    then show "e + 4 \<le> (?b div 0x400000 + 1) * 0x400000" using view [of "e + 3"] small by (simp split: if_splits)
  next
    assume "e + 4 \<le> (?b div 0x400000 + 1) * 0x400000"
    then show "sections_mapped (directory k) m' y"
      unfolding sections_mapped_def
    proof (intro ballI case_prodI2 allI impI)
      fix q a b p assume "q \<in> set (sections y)" "q = (a, b)" "a \<le> p \<and> p < b"
      then have "p < e + 4" using inside [of a b p] by blast
      then have "p < 0x3EC00000" "p < (?b div 0x400000 + 1) * 0x400000"
        using \<open>e + 4 \<le> (?b div 0x400000 + 1) * 0x400000\<close> small by linarith+
      then show "walk (directory k) m' (of_nat p + KERNEL_CONFIG_VMA) = Some (of_nat p)" using view [of p] by (simp only: if_True)
    qed
  qed
  moreover have "e + 4 \<le> (e div 0x400000 + 1) * 0x400000"
  proof -
    have "4 dvd e" using order by (simp add: e_def)
    then obtain i where i: "e = 4 * i" by blast
    have "4 * i div 0x400000 = i div 0x100000" by (simp add: div_mult2_eq [of "4 * i" 4 "0x100000", simplified])
    moreover have "i < (i div 0x100000 + 1) * 0x100000" by (simp add: dividend_less_times_div)
    ultimately show ?thesis unfolding i by simp
  qed
  moreover have "kernel_end k \<noteq> 0"
  proof -
    have "0 < e" using order by (simp add: e_def)
    then show ?thesis using ue by auto
  qed
  moreover have "map (\<lambda>(a, b). b - a) (sections y)
       = [multiboot_size z, text_size z, data_size z, rodata_size z, eh_frame_size z, bss_size z, 4]"
    using order by (simp add: sections_def)
  ultimately show ?thesis
    using init assms(3) ue unfolding y_def [symmetric] e_def [symmetric] by (intro exI [of _ m'] exI [of _ s']) auto
qed

section \<open>Examples\<close>

text \<open>The sizes of the sections of Kernel.elf, and the addresses of its objects; those of the stubs are others.\<close>

definition example_sizes :: sizes where
  "example_sizes = \<lparr>multiboot_size = 0x30, text_size = 0x401B, data_size = 0x6400, rodata_size = 0xA94, eh_frame_size = 0xB74, bss_size = 0xC014\<rparr>"

definition example_linked :: boot where
  "example_linked = \<lparr>kernel_image = example_image\<lparr>page_directory := 0xC0110000, page_tables := 0xC0111000\<rparr>,
     stack_top = 0xC010AFFC, entry_page_directory = 0xC010B000, gdt_table = 0xC010F020, gdt_pointer = 0xC010F070, idt_table = 0xC010F080,
     stubs = \<lambda>i. 0xC0101000 + of_nat (32 * i), kernel_end = 0x11B014, column_at = 0xC011B004, row_at = 0xC011B008\<rparr>"

definition example_loaded :: mem where
  "example_loaded = directory_at 0x10B000 (\<lambda>x. 0)"

lemma example_script: "linker_script example_sizes = \<lparr>multiboot_start = 0x100000, multiboot_end = 0x100030, text_start = 0x101000, text_end = 0x10501B,
    data_start = 0x106000, data_end = 0x10C400, rodata_start = 0x10D000, rodata_end = 0x10DA94, eh_frame_start = 0x10DA94, eh_frame_end = 0x10E608,
    bss_start = 0x10F000, bss_end = 0x11B014, kernel_virtual_end = 0xC011B014, kernel_physical_end = 0x11B014\<rparr>"
proof -
  have "ALIGN 4 3222274048 = 3222274048"
    "ALIGN 4096 3222274096 = 3222278144"
    "ALIGN 4096 3222294555 = 3222298624"
    "ALIGN 4096 3222324224 = 3222327296"
    "ALIGN 4 3222330004 = 3222330004"
    "ALIGN 4096 3222332936 = 3222335488"
    "ALIGN 4 3222384660 = 3222384660"
    by (simp_all add: ALIGN_def)
  then show ?thesis by (simp add: linker_script_def example_sizes_def Let_def)
qed

lemma example_linked: "linked example_sizes example_linked"
proof -
  have "inj_on (\<lambda>i. 0xC0101000 + of_nat (32 * i) :: u32) {0..<256}"
    by (rule inj_onI) (auto simp: word_unat_eq_iff unat_word_ariths unat_of_nat take_bit_eq_mod)
  then show ?thesis
    by (simp add: linked_def Let_def example_script data_objects_def bss_objects_def example_linked_def example_image_def inside_def
        aligned_def distinct_map)
qed

lemma example_loaded: "loaded_image example_linked example_loaded"
proof -
  have "load32 example_loaded 0x11B014 = 0"
    by (simp add: load32_def example_loaded_def directory_at_def in_range_def)
  then show ?thesis
    by (simp add: loaded_image_def example_linked_def example_loaded_def boot_directory list_all_iff)
qed

lemma linked_kernel_witness:
  "image_ok example_linked example_loaded \<and> tables_mapped example_linked \<and> stack_room example_linked 0xC010A000 0x1000"
proof -
  have "kernel_physical_end (linker_script example_sizes) + 4 \<le> 0x400000" by (simp add: example_script)
  note linked_kernel [OF example_linked example_loaded this]
  moreover have "unat (stack_top example_linked) - 16380 + 0x1000 \<le> unat (0xC010A000 :: u32) \<and> unat (0xC010A000 :: u32) \<le> unat (stack_top example_linked)"
    by (simp add: example_linked_def)
  ultimately show ?thesis by blast
qed

lemma image_mapped_witness:
  fixes s :: machine
  defines "s \<equiv> \<lparr>hw = quiet, trace = []\<rparr>"
  shows "\<exists>m' s'. paging_init 0xC0110000 0xC0111000 0x11B014 example_loaded s = Some (m', s') \<and> sections_mapped 0x110000 m' (linker_script example_sizes)"
proof -
  have "kernel_physical_end (linker_script example_sizes) + 4 \<le> 0x3EC00000" by (simp add: example_script)
  moreover have ld: "load32 example_loaded (kernel_end example_linked) = 0" using example_loaded by (simp add: loaded_image_def)
  ultimately obtain m' s' where "paging_init (page_directory (kernel_image example_linked)) (page_tables (kernel_image example_linked))
      (kernel_end example_linked) example_loaded s = Some (m', s')"
    "sections_mapped (directory example_linked) m' (linker_script example_sizes) \<longleftrightarrow> kernel_physical_end (linker_script example_sizes) + 4 \<le> 0x400000"
    using image_mapped [OF example_linked, of example_loaded s] by auto
  then show ?thesis by (simp add: example_linked_def directory_def example_script)
qed

end
