(* ===== verification/Multiboot2.thy ===== *)
theory Multiboot2
  imports Layout
begin

text \<open>
  The formats of version 2 of the Multiboot specification, ksrc/multiboot/multiboot_v2.h: the
  numbers and structures of the header and of the tags that follow it, and of the tags of the
  information structure. No file of the kernel includes this header; the names it shares with
  version 1 are written with multiboot2 here. An array of length 0 at the end of a structure
  is a field of width 0.
\<close>

section \<open>Constants\<close>

definition MULTIBOOT_SEARCH :: u32 where "MULTIBOOT_SEARCH = 32768"
definition MULTIBOOT2_HEADER_ALIGN :: u32 where "MULTIBOOT2_HEADER_ALIGN = 8"
definition MULTIBOOT2_HEADER_MAGIC :: u32 where "MULTIBOOT2_HEADER_MAGIC = 0xE85250D6"
definition MULTIBOOT2_BOOTLOADER_MAGIC :: u32 where "MULTIBOOT2_BOOTLOADER_MAGIC = 0x36d76289"
definition MULTIBOOT2_MOD_ALIGN :: u32 where "MULTIBOOT2_MOD_ALIGN = 0x00001000"
definition MULTIBOOT2_INFO_ALIGN :: u32 where "MULTIBOOT2_INFO_ALIGN = 0x00000008"
definition MULTIBOOT_TAG_ALIGN :: u32 where "MULTIBOOT_TAG_ALIGN = 8"
definition MULTIBOOT_ARCHITECTURE_I386 :: u32 where "MULTIBOOT_ARCHITECTURE_I386 = 0"
definition MULTIBOOT_ARCHITECTURE_MIPS32 :: u32 where "MULTIBOOT_ARCHITECTURE_MIPS32 = 4"
definition MULTIBOOT_HEADER_TAG_OPTIONAL :: u32 where "MULTIBOOT_HEADER_TAG_OPTIONAL = 1"
definition MULTIBOOT_CONSOLE_FLAGS_CONSOLE_REQUIRED :: u32 where "MULTIBOOT_CONSOLE_FLAGS_CONSOLE_REQUIRED = 1"
definition MULTIBOOT_CONSOLE_FLAGS_EGA_TEXT_SUPPORTED :: u32 where "MULTIBOOT_CONSOLE_FLAGS_EGA_TEXT_SUPPORTED = 2"

definition multiboot_tag_types :: "(string \<times> u32) list" where
  "multiboot_tag_types = [(''END'', 0), (''CMDLINE'', 1), (''BOOT_LOADER_NAME'', 2),
     (''MODULE'', 3), (''BASIC_MEMINFO'', 4), (''BOOTDEV'', 5), (''MMAP'', 6), (''VBE'', 7),
     (''FRAMEBUFFER'', 8), (''ELF_SECTIONS'', 9), (''APM'', 10), (''EFI32'', 11), (''EFI64'', 12),
     (''SMBIOS'', 13), (''ACPI_OLD'', 14), (''ACPI_NEW'', 15), (''NETWORK'', 16),
     (''EFI_MMAP'', 17), (''EFI_BS'', 18)]"

definition multiboot_header_tags :: "(string \<times> u32) list" where
  "multiboot_header_tags = [(''END'', 0), (''INFORMATION_REQUEST'', 1), (''ADDRESS'', 2),
     (''ENTRY_ADDRESS'', 3), (''CONSOLE_FLAGS'', 4), (''FRAMEBUFFER'', 5), (''MODULE_ALIGN'', 6),
     (''EFI_BS'', 7)]"

definition multiboot_memory_types :: "(string \<times> u32) list" where
  "multiboot_memory_types = [(''AVAILABLE'', 1), (''RESERVED'', 2), (''ACPI_RECLAIMABLE'', 3),
     (''NVS'', 4), (''BADRAM'', 5)]"

definition multiboot_framebuffer_types :: "(string \<times> u32) list" where
  "multiboot_framebuffer_types = [(''INDEXED'', 0), (''RGB'', 1), (''EGA_TEXT'', 2)]"

section \<open>Structures\<close>

definition multiboot2_header_t :: layout where
  "multiboot2_header_t = [(''magic'', 32), (''architecture'', 32), (''header_length'', 32),
     (''checksum'', 32)]"

definition multiboot_header_tag_t :: layout where
  "multiboot_header_tag_t = [(''type'', 16), (''flags'', 16), (''size'', 32)]"

definition multiboot_header_tag_information_request_t :: layout where
  "multiboot_header_tag_information_request_t = [(''type'', 16), (''flags'', 16), (''size'', 32),
     (''requests'', 0)]"

definition multiboot_header_tag_address_t :: layout where
  "multiboot_header_tag_address_t = [(''type'', 16), (''flags'', 16), (''size'', 32),
     (''header_addr'', 32), (''load_addr'', 32), (''load_end_addr'', 32), (''bss_end_addr'', 32)]"

definition multiboot_header_tag_entry_address_t :: layout where
  "multiboot_header_tag_entry_address_t = [(''type'', 16), (''flags'', 16), (''size'', 32),
     (''entry_addr'', 32)]"

definition multiboot_header_tag_console_flags_t :: layout where
  "multiboot_header_tag_console_flags_t = [(''type'', 16), (''flags'', 16), (''size'', 32),
     (''console_flags'', 32)]"

definition multiboot_header_tag_framebuffer_t :: layout where
  "multiboot_header_tag_framebuffer_t = [(''type'', 16), (''flags'', 16), (''size'', 32),
     (''width'', 32), (''height'', 32), (''depth'', 32)]"

definition multiboot_header_tag_module_align :: layout where
  "multiboot_header_tag_module_align = [(''type'', 16), (''flags'', 16), (''size'', 32),
     (''width'', 32), (''height'', 32), (''depth'', 32)]"

definition multiboot2_color_t :: layout where
  "multiboot2_color_t = [(''red'', 8), (''green'', 8), (''blue'', 8)]"

definition multiboot2_memory_map_t :: layout where
  "multiboot2_memory_map_t = [(''addr'', 64), (''len'', 64), (''type'', 32), (''zero'', 32)]"

definition multiboot_tag_t :: layout where
  "multiboot_tag_t = [(''type'', 32), (''size'', 32)]"

definition multiboot_tag_string_t :: layout where
  "multiboot_tag_string_t = [(''type'', 32), (''size'', 32), (''string'', 0)]"

definition multiboot_tag_module_t :: layout where
  "multiboot_tag_module_t = [(''type'', 32), (''size'', 32), (''mod_start'', 32),
     (''mod_end'', 32), (''cmdline'', 0)]"

definition multiboot_tag_basic_meminfo_t :: layout where
  "multiboot_tag_basic_meminfo_t = [(''type'', 32), (''size'', 32), (''mem_lower'', 32),
     (''mem_upper'', 32)]"

definition multiboot_tag_bootdev_t :: layout where
  "multiboot_tag_bootdev_t = [(''type'', 32), (''size'', 32), (''biosdev'', 32), (''slice'', 32),
     (''part'', 32)]"

definition multiboot_tag_mmap_t :: layout where
  "multiboot_tag_mmap_t = [(''type'', 32), (''size'', 32), (''entry_size'', 32),
     (''entry_version'', 32), (''entries'', 0)]"

definition multiboot_vbe_info_block_t :: layout where
  "multiboot_vbe_info_block_t = [(''external_specification'', 4096)]"

definition multiboot_vbe_mode_info_block_t :: layout where
  "multiboot_vbe_mode_info_block_t = [(''external_specification'', 2048)]"

definition multiboot_tag_vbe_t :: layout where
  "multiboot_tag_vbe_t = [(''type'', 32), (''size'', 32), (''vbe_mode'', 16),
     (''vbe_interface_seg'', 16), (''vbe_interface_off'', 16), (''vbe_interface_len'', 16),
     (''vbe_control_info'', bit_size multiboot_vbe_info_block_t), (''vbe_mode_info'', bit_size multiboot_vbe_mode_info_block_t)]"

definition multiboot_tag_framebuffer_common_t :: layout where
  "multiboot_tag_framebuffer_common_t = [(''type'', 32), (''size'', 32),
     (''framebuffer_addr'', 64), (''framebuffer_pitch'', 32), (''framebuffer_width'', 32),
     (''framebuffer_height'', 32), (''framebuffer_bpp'', 8), (''framebuffer_type'', 8),
     (''reserved'', 16)]"

text \<open>The colours of a frame buffer: a palette, or the places of the three colours in a pixel.\<close>

definition framebuffer_palette :: layout where
  "framebuffer_palette = [(''framebuffer_palette_num_colors'', 16), (''framebuffer_palette'', 0)]"

definition framebuffer_rgb :: layout where
  "framebuffer_rgb = [(''framebuffer_red_field_position'', 8), (''framebuffer_red_mask_size'', 8),
     (''framebuffer_green_field_position'', 8), (''framebuffer_green_mask_size'', 8),
     (''framebuffer_blue_field_position'', 8), (''framebuffer_blue_mask_size'', 8)]"

definition multiboot_tag_framebuffer_t :: layout where
  "multiboot_tag_framebuffer_t = [(''common'', bit_size multiboot_tag_framebuffer_common_t),
     (''colors'', max (bit_size framebuffer_palette) (bit_size framebuffer_rgb))]"

definition multiboot_tag_elf_sections_t :: layout where
  "multiboot_tag_elf_sections_t = [(''type'', 32), (''size'', 32), (''num'', 32),
     (''entsize'', 32), (''shndx'', 32), (''sections'', 0)]"

definition multiboot_tag_apm_t :: layout where
  "multiboot_tag_apm_t = [(''type'', 32), (''size'', 32), (''version'', 16), (''cseg'', 16),
     (''offset'', 32), (''cseg_16'', 16), (''dseg'', 16), (''flags'', 16), (''cseg_len'', 16),
     (''cseg_16_len'', 16), (''dseg_len'', 16)]"

definition multiboot_tag_efi32_t :: layout where
  "multiboot_tag_efi32_t = [(''type'', 32), (''size'', 32), (''pointer'', 32)]"

definition multiboot_tag_efi64_t :: layout where
  "multiboot_tag_efi64_t = [(''type'', 32), (''size'', 32), (''pointer'', 64)]"

definition multiboot_tag_smbios_t :: layout where
  "multiboot_tag_smbios_t = [(''type'', 32), (''size'', 32), (''major'', 8), (''minor'', 8),
     (''reserved'', 48), (''tables'', 0)]"

definition multiboot_tag_old_acpi_t :: layout where
  "multiboot_tag_old_acpi_t = [(''type'', 32), (''size'', 32), (''rsdp'', 0)]"

definition multiboot_tag_new_acpi_t :: layout where
  "multiboot_tag_new_acpi_t = [(''type'', 32), (''size'', 32), (''rsdp'', 0)]"

definition multiboot_tag_network_t :: layout where
  "multiboot_tag_network_t = [(''type'', 32), (''size'', 32), (''dhcpack'', 0)]"

definition multiboot_tag_efi_mmap_t :: layout where
  "multiboot_tag_efi_mmap_t = [(''type'', 32), (''size'', 32), (''descr_size'', 32),
     (''descr_vers'', 32), (''efi_mmap'', 0)]"

section \<open>Consistency\<close>

definition multiboot_tags :: "layout list" where
  "multiboot_tags = [multiboot_tag_string_t, multiboot_tag_module_t,
      multiboot_tag_basic_meminfo_t, multiboot_tag_bootdev_t,
      multiboot_tag_mmap_t, multiboot_tag_vbe_t,
      multiboot_tag_framebuffer_common_t, multiboot_tag_elf_sections_t,
      multiboot_tag_apm_t, multiboot_tag_efi32_t,
      multiboot_tag_efi64_t, multiboot_tag_smbios_t,
      multiboot_tag_old_acpi_t, multiboot_tag_new_acpi_t,
      multiboot_tag_network_t, multiboot_tag_efi_mmap_t]"

definition multiboot_header_tag_layouts :: "layout list" where
  "multiboot_header_tag_layouts = [multiboot_header_tag_information_request_t, multiboot_header_tag_address_t,
      multiboot_header_tag_entry_address_t, multiboot_header_tag_console_flags_t,
      multiboot_header_tag_framebuffer_t, multiboot_header_tag_module_align]"

lemmas multiboot2_defs = multiboot2_header_t_def multiboot_header_tag_t_def
    multiboot_header_tag_information_request_t_def multiboot_header_tag_address_t_def
    multiboot_header_tag_entry_address_t_def multiboot_header_tag_console_flags_t_def
    multiboot_header_tag_framebuffer_t_def multiboot_header_tag_module_align_def
    multiboot2_color_t_def multiboot2_memory_map_t_def
    multiboot_tag_t_def multiboot_tag_string_t_def
    multiboot_tag_module_t_def multiboot_tag_basic_meminfo_t_def
    multiboot_tag_bootdev_t_def multiboot_tag_mmap_t_def
    multiboot_vbe_info_block_t_def multiboot_vbe_mode_info_block_t_def
    multiboot_tag_vbe_t_def multiboot_tag_framebuffer_common_t_def
    multiboot_tag_elf_sections_t_def multiboot_tag_apm_t_def
    multiboot_tag_efi32_t_def multiboot_tag_efi64_t_def
    multiboot_tag_smbios_t_def multiboot_tag_old_acpi_t_def
    multiboot_tag_new_acpi_t_def multiboot_tag_network_t_def
    multiboot_tag_efi_mmap_t_def
    framebuffer_palette_def framebuffer_rgb_def multiboot_tag_framebuffer_t_def

text \<open>
  Every tag can be read through the structure of its head: a layout that begins with another one
  has that one's fields in the same places.
\<close>

lemma prefix_fields:
  assumes "f \<in> set (map fst l)"
  shows "bit_offset f (l @ k) = bit_offset f l" "bit_width f (l @ k) = bit_width f l"
  using assms by (induction l) force+

lemma prefix_get_field:
  assumes "take (length p) l = p" "f \<in> set (map fst p)" shows "get_field l f w = get_field p f w"
proof -
  have "l = p @ drop (length p) l" using append_take_drop_id [of "length p" l] assms(1) by simp
  then show ?thesis using prefix_fields [OF assms(2), of "drop (length p) l"] by (metis get_field_def)
qed

lemma tag_heads:
  "list_all (\<lambda>l. take 2 l = multiboot_tag_t) multiboot_tags"
  "list_all (\<lambda>l. take 3 l = multiboot_header_tag_t) multiboot_header_tag_layouts"
  by code_simp+

text \<open>
  The type and the size of every tag are where the head of a tag has them, so that a list of
  tags can be searched without knowing them; every structure is a whole number of bytes with
  distinct fields; and the sizes are those of the specification, but for the module alignment
  tag, which has the three fields of the frame buffer tag although the specification ends it
  after its size.
\<close>

theorem multiboot2_formats:
  fixes w :: u64
  shows "list_all (\<lambda>l. get_field l ''type'' w = get_field multiboot_tag_t ''type'' w
      \<and> get_field l ''size'' w = get_field multiboot_tag_t ''size'' w \<and> well_formed l) multiboot_tags
    \<and> list_all (\<lambda>l. get_field l ''type'' w = get_field multiboot_header_tag_t ''type'' w
      \<and> get_field l ''flags'' w = get_field multiboot_header_tag_t ''flags'' w
      \<and> get_field l ''size'' w = get_field multiboot_header_tag_t ''size'' w \<and> well_formed l) multiboot_header_tag_layouts
    \<and> map sizeof multiboot_tags = [8, 16, 16, 20, 16, 784, 32, 20, 28, 12, 16, 16, 8, 8, 8, 16]
    \<and> map sizeof multiboot_header_tag_layouts = [8, 24, 12, 12, 20, 20]
    \<and> sizeof multiboot2_memory_map_t = 24 \<and> sizeof multiboot_tag_framebuffer_t = 38
    \<and> multiboot_header_tag_module_align = multiboot_header_tag_framebuffer_t"
proof (intro conjI)
  have heads: "''type'' \<in> set (map fst multiboot_tag_t)" "''size'' \<in> set (map fst multiboot_tag_t)"
    "''type'' \<in> set (map fst multiboot_header_tag_t)" "''flags'' \<in> set (map fst multiboot_header_tag_t)"
    "''size'' \<in> set (map fst multiboot_header_tag_t)" by (simp_all add: multiboot2_defs)
  have formed: "list_all well_formed multiboot_tags" "list_all well_formed multiboot_header_tag_layouts"
    by (simp_all add: multiboot_tags_def multiboot_header_tag_layouts_def well_formed_def multiboot2_defs)
  have len: "length multiboot_tag_t = 2" "length multiboot_header_tag_t = 3" by (simp_all add: multiboot2_defs)
  show "list_all (\<lambda>l. get_field l ''type'' w = get_field multiboot_tag_t ''type'' w
      \<and> get_field l ''size'' w = get_field multiboot_tag_t ''size'' w \<and> well_formed l) multiboot_tags"
    using tag_heads(1) formed(1) prefix_get_field [OF _ heads(1)] prefix_get_field [OF _ heads(2)] unfolding list_all_iff len by blast
  show "list_all (\<lambda>l. get_field l ''type'' w = get_field multiboot_header_tag_t ''type'' w
      \<and> get_field l ''flags'' w = get_field multiboot_header_tag_t ''flags'' w
      \<and> get_field l ''size'' w = get_field multiboot_header_tag_t ''size'' w \<and> well_formed l) multiboot_header_tag_layouts"
    using tag_heads(2) formed(2) prefix_get_field [OF _ heads(3)] prefix_get_field [OF _ heads(4)] prefix_get_field [OF _ heads(5)]
    unfolding list_all_iff len by blast
qed (simp_all add: multiboot_tags_def multiboot_header_tag_layouts_def sizeof_def multiboot2_defs)

text \<open>The numbers of the tags are their places in the list, so that no two tags share one.\<close>

theorem multiboot2_numbers:
  "map snd multiboot_tag_types = map of_nat [0..<19] \<and> map snd multiboot_header_tags = map of_nat [0..<8]
   \<and> distinct (map snd multiboot_memory_types) \<and> distinct (map snd multiboot_framebuffer_types)"
  by code_simp

end
