(* ===== verification/Constants.thy ===== *)
theory Constants
  imports Cpu Gdt Idt Paging Pit8254 Pic8259A Ioapic82093AA Kbd Console
begin

text \<open>
  The numbers the headers define for registers, ports, commands and flags, used by the code or
  not, as tables of the names behind the common prefix. The lemmas relate them to the formats
  they belong to and to the names the models of the drivers use. The last section has the
  integer types.
\<close>

unbundle bit_operations_syntax

section \<open>Processor, ksrc/cpu.h\<close>

definition cpu_msrs :: "(string \<times> u32) list" where
  "cpu_msrs = [(''P5_MC_ADDR'', 0), (''P5_MC_TYPE'', 1), (''MONITOR_FILTER_SIZE'', 6),
     (''TIME_STAMP_COUNTER'', 0x10), (''PLATFORM_ID'', 0x17), (''APIC_BASE'', 0x1B),
     (''FEATURE_CONTROL'', 0x3A), (''TSC_ADJUST'', 0x3B), (''BIOS_UPDT_TRIG'', 0x79),
     (''BIOS_SIGN_ID'', 0x8B), (''SMM_MONITOR_CTL'', 0x9B), (''SMBASE'', 0x9E)]"

definition cpuid_leaves :: "(string \<times> u32) list" where
  "cpuid_leaves = [(''VENDOR_INFO'', 0), (''VERSION_FEATURES'', 1),
     (''CACHE_TLB_DESCRIPTORS'', 2), (''DETERMINISTIC_CACHE'', 4), (''MONITOR_MWAIT'', 5),
     (''THERMAL_POWER'', 6), (''EXTENDED_FEATURES'', 7), (''ARCH_PERF_MONITORING'', 0xA),
     (''EXT_TOPOLOGY'', 0xB), (''SGX'', 0x12), (''V2_EXT_TOPOLOGY'', 0x1F),
     (''TSC_CRYSTAL_FREQ'', 0x15)]"

definition cpuid_ext_leaves :: "(string \<times> u32) list" where
  "cpuid_ext_leaves = [(''MAX_SUPPORTED'', 0x80000000), (''FEATURES'', 0x80000001),
     (''BRAND_STRING_1'', 0x80000002), (''BRAND_STRING_2'', 0x80000003),
     (''BRAND_STRING_3'', 0x80000004), (''L1_CACHE_TLB'', 0x80000005),
     (''L2_L3_CACHE'', 0x80000006), (''SVM_FEATURES'', 0x8000000A), (''ADDR_SIZE'', 0x80000008)]"

text \<open>No two names share a number, and the extended leaves are those with the top bit.\<close>

lemma cpu_numbers:
  "distinct (map snd cpu_msrs)" "distinct (map snd (cpuid_leaves @ cpuid_ext_leaves))"
  "list_all (\<lambda>(n, v). \<not> bit v 31) cpuid_leaves" "list_all (\<lambda>(n, v). bit v 31) cpuid_ext_leaves"
  "map_of cpu_msrs ''APIC_BASE'' = Some MSR_IA32_APIC_BASE"
  by (simp_all add: cpu_msrs_def cpuid_leaves_def cpuid_ext_leaves_def bit_numeral_simps)

section \<open>Descriptors, ksrc/gdt.h and idt.h\<close>

definition gdt_data_types :: "(string \<times> u32) list" where
  "gdt_data_types = [(''RO'', 0), (''ROA'', 0x100), (''RW'', 0x200), (''RWA'', 0x300),
     (''ROD'', 0x400), (''RODA'', 0x500), (''RWD'', 0x600), (''RWDA'', 0x700)]"

definition gdt_code_types :: "(string \<times> u32) list" where
  "gdt_code_types = [(''EO'', 0x800), (''EOA'', 0x900), (''ER'', 0xA00), (''ERA'', 0xB00),
     (''EC'', 0xC00), (''EOCA'', 0xD00), (''ERC'', 0xE00), (''ERCA'', 0xF00)]"

definition gdt_flags :: "(string \<times> u32) list" where
  "gdt_flags = [(''S'', 0x1000), (''DPL0'', 0), (''DPL1'', 0x2000), (''DPL2'', 0x4000),
     (''DPL3'', 0x6000), (''P'', 0x8000), (''DB'', 0x400000), (''G'', 0x800000)]"

definition idt_gate_flags :: "(string \<times> u32) list" where
  "idt_gate_flags = [(''DPL0'', 0), (''DPL1'', 0x2000), (''DPL2'', 0x4000), (''DPL3'', 0x6000),
     (''P'', 0x8000), (''D'', 0x800)]"

text \<open>
  The types are the sixteen values of the four type bits of the high word, in order; each flag is
  the field of its name, and the fields are apart, so that a type and flags can be combined
  with a bitwise or.
\<close>

lemma gdt_numbers:
  "map snd (gdt_data_types @ gdt_code_types) = map (\<lambda>i. push_bit 8 (of_nat i)) [0..<16]"
  "map_of gdt_data_types ''RW'' = Some GDT_TYPE_DATA_RW" "map_of gdt_code_types ''ER'' = Some GDT_TYPE_CODE_ER"
  "map (map_of gdt_flags) [''S'', ''DPL0'', ''P'', ''DB'', ''G'']
     = map Some [GDT_FLAG_S, GDT_FLAG_DPL0, GDT_FLAG_P, GDT_FLAG_DB, GDT_FLAG_G]"
  "map (map_of gdt_flags) [''DPL0'', ''DPL1'', ''DPL2'', ''DPL3''] = map (\<lambda>i. Some (push_bit 13 (of_nat i))) [0..<4]"
  "map (map_of idt_gate_flags) [''DPL0'', ''P'', ''D'']
     = map (\<lambda>f. Some (ucast f)) [IDT_FLAG_GATE_DPL0, IDT_FLAG_GATE_P, IDT_FLAG_GATE_D]"
  "map (map_of idt_gate_flags) [''DPL0'', ''DPL1'', ''DPL2'', ''DPL3''] = map (\<lambda>i. Some (push_bit 13 (of_nat i))) [0..<4]"
  by (simp_all add: gdt_data_types_def gdt_code_types_def gdt_flags_def idt_gate_flags_def gdt_words
      IDT_FLAG_GATE_DPL0_def IDT_FLAG_GATE_P_def IDT_FLAG_GATE_D_def upt_conv_Cons)

section \<open>Paging, ksrc/mmu/paging.h\<close>

definition paging_pde_flags :: "(string \<times> u32) list" where
  "paging_pde_flags = [(''PRESENT'', 1), (''READWRITE'', 2), (''USER'', 4), (''SUPERVISOR'', 0),
     (''WRITE_THROUGH'', 8), (''CACHE_DISABLE'', 0x10), (''ACCESSED'', 0x20), (''SIZE'', 0x80),
     (''GLOBAL'', 0x100), (''AVAILABLE_MASK'', 0xE00), (''TABLE_MASK'', 0xFFFFF000),
     (''4MB_FRAME_MASK'', 0xFFC00000), (''FLAGS_MASK'', 0xFFF)]"

definition paging_pte_flags :: "(string \<times> u32) list" where
  "paging_pte_flags = [(''PRESENT'', 1), (''READWRITE'', 2), (''USER'', 4), (''SUPERVISOR'', 0),
     (''WRITE_THROUGH'', 8), (''CACHE_DISABLE'', 0x10), (''ACCESSED'', 0x20), (''DIRTY'', 0x40),
     (''PAT'', 0x80), (''GLOBAL'', 0x100), (''AVAILABLE_MASK'', 0xE00),
     (''FRAME_MASK'', 0xFFFFF000), (''FLAGS_MASK'', 0xFFF)]"

text \<open>
  Each flag is the field of the entry formats it stands for. The bit of the USER flags is named
  \<open>supervisor\<close> in the formats although it is set for pages of the user. The masks of the frame
  and of the flags divide the word.
\<close>

definition flag_fields :: "layout \<Rightarrow> (string \<times> u32) list \<Rightarrow> (string \<times> string) list \<Rightarrow> bool" where
  "flag_fields l flags ps \<longleftrightarrow> list_all (\<lambda>(f, n). map_of flags n = Some (set_field l f (- 1) 0)) ps"

lemma paging_flags_fields:
  "flag_fields paging_map_4mb_t paging_pde_flags [(''present'', ''PRESENT''), (''read_write'', ''READWRITE''),
     (''supervisor'', ''USER''), (''page_level_write_through'', ''WRITE_THROUGH''),
     (''page_level_cache_disable'', ''CACHE_DISABLE''), (''accessed'', ''ACCESSED''), (''page_size'', ''SIZE''),
     (''global'', ''GLOBAL''), (''_i0'', ''AVAILABLE_MASK''), (''physical_address'', ''4MB_FRAME_MASK'')]"
  "flag_fields paging_reference_table_t paging_pde_flags [(''present'', ''PRESENT''), (''read_write'', ''READWRITE''),
     (''supervisor'', ''USER''), (''page_level_write_through'', ''WRITE_THROUGH''),
     (''page_level_cache_disable'', ''CACHE_DISABLE''), (''accessed'', ''ACCESSED''), (''page_size'', ''SIZE''),
     (''physical_address'', ''TABLE_MASK'')]"
  "flag_fields paging_page_table_entry_t paging_pte_flags [(''present'', ''PRESENT''), (''read_write'', ''READWRITE''),
     (''supervisor'', ''USER''), (''page_level_write_through'', ''WRITE_THROUGH''),
     (''page_level_cache_disable'', ''CACHE_DISABLE''), (''accessed'', ''ACCESSED''), (''dirty'', ''DIRTY''), (''pat'', ''PAT''),
     (''global'', ''GLOBAL''), (''_i0'', ''AVAILABLE_MASK''), (''physical_address'', ''FRAME_MASK'')]"
  by (simp_all add: flag_fields_def paging_pde_flags_def paging_pte_flags_def paging_map_4mb_t_def
      paging_reference_table_t_def paging_page_table_entry_t_def layout_eval)

lemma paging_masks_divide:
  "map_option NOT (map_of paging_pde_flags ''TABLE_MASK'') = map_of paging_pde_flags ''FLAGS_MASK''"
  "map_option NOT (map_of paging_pte_flags ''FRAME_MASK'') = map_of paging_pte_flags ''FLAGS_MASK''"
  by (simp_all add: paging_pde_flags_def paging_pte_flags_def)

section \<open>Timer, ksrc/drivers/i8254.h\<close>

definition pit_frequency :: "(string \<times> u32) list" where
  "pit_frequency = [(''FREQUENCY'', 1193182)]"

definition pit_ports :: "(string \<times> u32) list" where
  "pit_ports = [(''CHANNEL0'', 0x40), (''CHANNEL1'', 0x41), (''CHANNEL2'', 0x42),
     (''COMMAND'', 0x43)]"

definition pit_channels :: "(string \<times> u32) list" where
  "pit_channels = [(''SELECT_CHANNEL0'', 0), (''SELECT_CHANNEL1'', 0x40),
     (''SELECT_CHANNEL2'', 0x80), (''READ_BACK'', 0xC0)]"

definition pit_accesses :: "(string \<times> u32) list" where
  "pit_accesses = [(''LATCH'', 0), (''LOW_BYTE'', 0x10), (''HIGH_BYTE'', 0x20), (''BOTH'', 0x30)]"

definition pit_modes :: "(string \<times> u32) list" where
  "pit_modes = [(''0'', 0), (''1'', 2), (''2'', 4), (''3'', 6), (''4'', 8), (''5'', 0xA)]"

definition pit_formats :: "(string \<times> u32) list" where
  "pit_formats = [(''BINARY'', 0), (''BCD'', 1)]"

text \<open>
  A control word is one choice of each of the four groups, which use different bits: whatever is
  combined can be read back.
\<close>

lemma pit_control_word:
  "list_all (\<lambda>(c, a, m, f). let w = c OR a OR m OR f in
      w AND 0xC0 = c \<and> w AND 0x30 = a \<and> w AND 0x0E = m \<and> w AND 0x01 = f)
    (List.product (map snd pit_channels) (List.product (map snd pit_accesses)
      (List.product (map snd pit_modes) (map snd pit_formats))))"
  by (simp add: pit_channels_def pit_accesses_def pit_modes_def pit_formats_def Let_def)

text \<open>The port the driver writes the count to is the one of channel 0, under the name of the
  selection of channel 1.\<close>

lemma pit_driver_port:
  "map_of pit_channels ''SELECT_CHANNEL1'' = map_of pit_ports ''CHANNEL0''"
  "map_of pit_channels ''SELECT_CHANNEL1'' = Some (ucast PIT_SELECT_CHANNEL1)"
  "map_of pit_ports ''COMMAND'' = Some (ucast PIT_PORT_COMMAND)" "map_of pit_accesses ''BOTH'' = Some (ucast PIT_ACCESS_BOTH)"
  by (simp_all add: pit_channels_def pit_ports_def pit_accesses_def)

section \<open>Interrupt controllers, ksrc/drivers/8259A.h and 82093AA.h\<close>

definition pic_ports :: "(string \<times> u32) list" where
  "pic_ports = [(''MC'', 0x20), (''MD'', 0x21), (''SC'', 0xA0), (''SD'', 0xA1)]"

definition pic_icw1 :: "(string \<times> u32) list" where
  "pic_icw1 = [(''IC4'', 0x11), (''SNGL'', 0x12), (''ADI'', 0x14), (''LTIM'', 0x18)]"

definition pic_icw4 :: "(string \<times> u32) list" where
  "pic_icw4 = [(''PM'', 1), (''AEOI'', 2), (''SBUF'', 8), (''MBUF'', 0xC), (''SFNM'', 0x10)]"

definition ioapic_registers :: "(string \<times> u32) list" where
  "ioapic_registers = [(''ID'', 0), (''VER'', 1), (''ARB'', 2)]"

text \<open>The first control word is the one with bit 4 set.\<close>

lemma pic_numbers:
  "list_all (\<lambda>(n, v). bit v 4) pic_icw1"
  "map (map_of pic_ports) [''MC'', ''MD'', ''SC'', ''SD''] = map (\<lambda>p. Some (ucast p)) [PIC_MC, PIC_MD, PIC_SC, PIC_SD]"
  "map_of ioapic_registers ''ID'' = Some IOAPIC_IOAPICID" "map_of ioapic_registers ''VER'' = Some IOAPIC_IOAPICVER"
  by (simp_all add: pic_icw1_def pic_ports_def ioapic_registers_def bit_numeral_simps)

section \<open>Clock and keyboard, ksrc/drivers/MC146818.h and kbd.h\<close>

definition cmos_registers :: "(string \<times> u32) list" where
  "cmos_registers = [(''SECONDS'', 0), (''ALARM_SECOND'', 1), (''MINUTES'', 2),
     (''ALARM_MINUTE'', 3), (''HOURS'', 4), (''ALARM_HOUR'', 5), (''DAY_OF_WEEK'', 6),
     (''DATE_OF_MONTH'', 7), (''MONTH'', 8), (''YEAR'', 9), (''RA'', 0xA), (''RB'', 0xB),
     (''RC'', 0xC), (''RD'', 0xD)]"

definition cmos_century :: "(string \<times> u32) list" where
  "cmos_century = [(''CENTURY_BYTE'', 0x32)]"

definition kbd_out_commands :: "(string \<times> u32) list" where
  "kbd_out_commands = [(''RESET'', 0xFF), (''RESEND'', 0xFE), (''SET_DEFAULT'', 0xF6),
     (''DISABLE'', 0xF5), (''ENABLE'', 0xF4), (''TYPEMATIC_DELAYRATE'', 0xF3), (''ECHO'', 0xEE),
     (''SET_INDICATOR'', 0xED)]"

definition kbd_in_codes :: "(string \<times> u32) list" where
  "kbd_in_codes = [(''RESEND'', 0xFE), (''ACK'', 0xFA), (''OVERRUN'', 0),
     (''DIAGNOSTIC_FAILURE'', 0xFD), (''BREAK_CODE_PREFIX'', 0xF0),
     (''BAT_COMPLETION_CODE'', 0xAA), (''ECHO_RESPONSE'', 0xEE)]"

text \<open>The registers of the clock are the first fourteen bytes, in order; the codes of each direction
  are distinct, and the acknowledgement is the code the initialisations wait for.\<close>

lemma clock_and_keyboard_numbers:
  "map snd cmos_registers = map of_nat [0..<14]" "distinct (map snd kbd_out_commands)" "distinct (map snd kbd_in_codes)"
  "map_of kbd_in_codes ''ACK'' = Some 0xFA"
  by (simp_all add: cmos_registers_def kbd_out_commands_def kbd_in_codes_def upt_conv_Cons)

section \<open>Boot loader and configuration, ksrc/multiboot/multiboot_v1.h and _config.h\<close>

definition multiboot_alignments :: "(string \<times> u32) list" where
  "multiboot_alignments = [(''SEARCH'', 0x2000), (''HEADER_ALIGN'', 4), (''MOD_ALIGN'', 0x1000),
     (''INFO_ALIGN'', 4)]"

definition kernel_config :: "(string \<times> u32) list" where
  "kernel_config = [(''PAGING_PAGE_TABLES'', 10), (''PRINTK_BUFFER'', 4096),
     (''TIMER_FALLBACK_FREQ'', 1000000000)]"

lemma configuration_numbers:
  "map_of kernel_config ''PAGING_PAGE_TABLES'' = Some (of_nat KERNEL_CONFIG_PAGING_PAGE_TABLES)"
  "map_of kernel_config ''PRINTK_BUFFER'' = Some KERNEL_CONFIG_PRINTK_BUFFER"
  by (simp_all add: kernel_config_def)

section \<open>Basic types, klib/types.h\<close>

text \<open>Width in bits and signedness of the types, on the 32-bit target; a plain \<open>char\<close> is signed there.
  The model uses the word type of the width, and reads a signed type with \<open>sint\<close>.\<close>

definition pointer_types :: "(string \<times> nat \<times> bool) list" where
  "pointer_types = [(''voidptr_t'', 32, False), (''uintptr_t'', 32, False), (''intptr_t'', 32, True)]"

definition integer_types :: "(string \<times> nat \<times> bool) list" where
  "integer_types = [(''int_t'', 32, True), (''uint_t'', 32, False), (''size_t'', 32, False), (''bool_t'', 8, False),
     (''char_t'', 8, True), (''int8_t'', 8, True), (''uint8_t'', 8, False), (''byte_t'', 8, False),
     (''wchar_t'', 16, True), (''int16_t'', 16, True), (''uint16_t'', 16, False), (''word_t'', 16, False),
     (''int32_t'', 32, True), (''uint32_t'', 32, False), (''dword_t'', 32, False),
     (''int64_t'', 64, True), (''uint64_t'', 64, False), (''qword_t'', 64, False)]"

definition pointer_constants :: "(string \<times> u32) list" where
  "pointer_constants = [(''NULL'', 0)]"

definition bool_constants :: "(string \<times> u8) list" where
  "bool_constants = [(''TRUE'', 1), (''FALSE'', 0)]"

text \<open>The values of a type.\<close>

definition type_values :: "nat \<times> bool \<Rightarrow> int set" where
  "type_values t = (case t of (w, sg) \<Rightarrow> if sg then {- (2 ^ (w - 1))..<2 ^ (w - 1)} else {0..<2 ^ w})"

lemma word_values:
  "range (uint :: 'a::len word \<Rightarrow> int) = type_values (LENGTH('a), False)"
  "range (sint :: 'a::len word \<Rightarrow> int) = type_values (LENGTH('a), True)"
proof -
  have "i \<in> range (uint :: 'a word \<Rightarrow> int)" if "0 \<le> i" "i < 2 ^ LENGTH('a)" for i
    using that by (intro range_eqI [of _ _ "word_of_int i"]) (simp add: uint_word_of_int)
  then show "range (uint :: 'a word \<Rightarrow> int) = type_values (LENGTH('a), False)"
    by (auto simp: type_values_def uint_lt2p)
  have "i \<in> range (sint :: 'a word \<Rightarrow> int)" if "- (2 ^ (LENGTH('a) - 1)) \<le> i" "i < 2 ^ (LENGTH('a) - 1)" for i
    using that by (intro range_eqI [of _ _ "word_of_int i"]) (simp add: signed_of_int signed_take_bit_int_eq_self)
  then show "range (sint :: 'a word \<Rightarrow> int) = type_values (LENGTH('a), True)"
    using sint_ge sint_lt by (auto simp: type_values_def simp del: One_nat_def)
qed

text \<open>The sized names mean their width, and every integer has the size of a pointer or an explicit one;
  signed and unsigned names of a width have the values of the model's word of that width.\<close>

lemma type_widths:
  "distinct (map fst (pointer_types @ integer_types))"
  "list_all (\<lambda>(n, w, sg). w = 32) pointer_types"
  "map (map_of integer_types) [''uint8_t'', ''uint16_t'', ''uint32_t'', ''uint64_t'', ''size_t'', ''uint_t'']
     = map Some [(LENGTH(8), False), (LENGTH(16), False), (LENGTH(32), False), (LENGTH(64), False), (LENGTH(32), False), (LENGTH(32), False)]"
  "list_all (\<lambda>(n, t). type_values t \<in> {range (uint :: u8 \<Rightarrow> int), range (sint :: u8 \<Rightarrow> int), range (uint :: u16 \<Rightarrow> int), range (sint :: u16 \<Rightarrow> int),
     range (uint :: u32 \<Rightarrow> int), range (sint :: u32 \<Rightarrow> int), range (uint :: u64 \<Rightarrow> int), range (sint :: u64 \<Rightarrow> int)}) (pointer_types @ integer_types)"
  by (simp_all add: pointer_types_def integer_types_def word_values)

end
