(* ===== verification/Bda.thy ===== *)
theory Bda
  imports Console Layout
begin

text \<open>
  The BIOS data area, ksrc/bios/bda.h and bda.c: the 21 structures the kernel lays over the 256
  bytes at 40:00, with their bit-fields from the least significant bit up, as gcc lays them out,
  and the pointers to them. The lemmas compare the layout with the addresses the header's
  comments document, and give the console's two reads their fields.
\<close>

unbundle bit_operations_syntax

section \<open>The structures\<close>

definition bda_RS232CPort_t :: layout where
  "bda_RS232CPort_t = [(''BaseAddrL1'', 16), (''BaseAddrL2'', 16), (''BaseAddrL3'', 16),
     (''BaseAddrL4'', 16)]"

definition bda_PrinterPort_t :: layout where
  "bda_PrinterPort_t = [(''BaseAddrP1'', 16), (''BaseAddrP2'', 16), (''BaseAddrP3'', 16),
     (''_r0'', 16)]"

definition bda_SystemEquipment_t :: layout where
  "bda_SystemEquipment_t = [(''NumOfPrinters'', 2), (''_r0'', 1), (''_r1'', 1),
     (''NumOfRS232'', 3), (''_r2'', 1), (''NumOfDisketteDrivers'', 2), (''VideoModeType'', 2),
     (''_r3'', 1), (''PointingDevice'', 1), (''MathCoprocessor'', 1), (''IPLDiskette'', 1)]"

definition bda_Miscellaneous1_t :: layout where
  "bda_Miscellaneous1_t = [(''_r0'', 8)]"

definition bda_MemorySize_t :: layout where
  "bda_MemorySize_t = [(''MemSize'', 16), (''_r0'', 8)]"

definition bda_Keyboard1_t :: layout where
  "bda_Keyboard1_t = [(''InsertLocked'', 1), (''CapsLockLocked'', 1), (''NumLockLocked'', 1),
     (''ScrollLockLocked'', 1), (''AltKeyPressed'', 1), (''CtrlKeyPressed'', 1),
     (''LefShiftKeyPressed'', 1), (''RightShiftKeyPressed'', 1), (''InsertKeyPressed'', 1),
     (''CapsLockKeyPressed'', 1), (''NumLockKeyPressed'', 1), (''ScrollLockKeyPressed'', 1),
     (''PauseLocked'', 1), (''SystemRequestKeyPressed'', 1), (''LefAltKeyPressed'', 1),
     (''LefCtrlKeyPressed'', 1), (''AlternateKeypadEntry'', 8),
     (''KeyboardBufferHeadPointer'', 16), (''KeyboardBufferTailPointer'', 16),
     (''KeyboardBuffer'', 256)]"

definition bda_DisketteDrive_t :: layout where
  "bda_DisketteDrive_t = [(''InterruptFlag'', 1), (''_r00'', 1), (''_r01'', 1), (''_r02'', 1),
     (''RecalibrateDrive3'', 1), (''RecalibrateDrive2'', 1), (''RecalibrateDrive1'', 1),
     (''RecalibrateDrive0'', 1), (''WriteReadOperation'', 1), (''_r10'', 1),
     (''DriveSelectStatus'', 2), (''MotorDrive3'', 1), (''MotorDrive2'', 1), (''MotorDrive1'', 1),
     (''MotorDrive0'', 1), (''MotorOffCounter'', 8), (''LastDriveOperationStatus'', 8),
     (''ControllerStatus'', 56)]"

definition bda_VideoControl1_t :: layout where
  "bda_VideoControl1_t = [(''DisplayModeSet'', 8), (''NumberOfColumns'', 16),
     (''LengthOfRegenBuffer'', 16), (''StartingAddressInRegenBuffer'', 16),
     (''CursorPositionPage1'', 16), (''CursorPositionPage2'', 16), (''CursorPositionPage3'', 16),
     (''CursorPositionPage4'', 16), (''CursorPositionPage5'', 16), (''CursorPositionPage6'', 16),
     (''CursorPositionPage7'', 16), (''CursorPositionPage8'', 16), (''CursorType'', 16),
     (''DisplayPage'', 8), (''CRTControllerBaseAddress'', 16),
     (''CurrentSettingOf3x8Register'', 8), (''CurrentSettingOf3x9Register'', 8)]"

definition bda_System1_t :: layout where
  "bda_System1_t = [(''_r0'', 32), (''_r1'', 8)]"

definition bda_SystemTimer_t :: layout where
  "bda_SystemTimer_t = [(''Counter'', 32), (''Overflow'', 8)]"

definition bda_System2_t :: layout where
  "bda_System2_t = [(''BreakKeyStatus'', 8), (''ResetFlag'', 16)]"

definition bda_FixedDiskDrive_t :: layout where
  "bda_FixedDiskDrive_t = [(''LastDriveOperation'', 8), (''NumOfDrives'', 8), (''_r0'', 8),
     (''_r1'', 8)]"

definition bda_PrinterTimeoutValue_t :: layout where
  "bda_PrinterTimeoutValue_t = [(''Printer1'', 8), (''Printer2'', 8), (''Printer3'', 8),
     (''_r0'', 8)]"

definition bda_RS232CTimeoutValue_t :: layout where
  "bda_RS232CTimeoutValue_t = [(''Line1'', 8), (''Line2'', 8), (''Line3'', 8), (''Line4'', 8)]"

definition bda_Keyboard2_t :: layout where
  "bda_Keyboard2_t = [(''BuffStartOffsetPtr'', 16), (''BuffEndOffsetPtr'', 16)]"

definition bda_VideoControl2_t :: layout where
  "bda_VideoControl2_t = [(''NumberOfRows'', 8), (''CharacterHeight'', 16),
     (''VideoControlStates1'', 8), (''VideoControlStates2'', 8), (''_r0'', 8), (''_r1'', 8)]"

definition bda_DisketOrDriveControl_t :: layout where
  "bda_DisketOrDriveControl_t = [(''DisketDataRateSel'', 2), (''LastDiskettDriveStep'', 2),
     (''_r1'', 1), (''_r2'', 1), (''_r3'', 1), (''_r4'', 1), (''FixedDiskStatus'', 8),
     (''FixedDiskError'', 8), (''FixedDiskIntCtrl'', 8), (''_r5'', 8), (''StateDrive0'', 8),
     (''StateDrive1'', 8), (''_r6'', 8), (''_r7'', 8), (''CurrCylDrive0'', 8),
     (''CurrCylDrive1'', 8)]"

definition bda_Keyboard3_t :: layout where
  "bda_Keyboard3_t = [(''Read10Progress'', 1), (''LastCharFirst10Char'', 1),
     (''ForceNumLockIfRead10'', 1), (''Keyboard101102'', 1), (''RightAltPressed'', 1),
     (''RightCtrlPressed'', 1), (''LastCodeEO'', 1), (''LastCodeE1'', 1), (''TransmitError'', 1),
     (''ModeIndicatorUpdate'', 1), (''ResendReceive'', 1), (''AckReceived'', 1), (''_r0'', 1),
     (''LedStatus'', 3)]"

definition bda_RealTimeClock_t :: layout where
  "bda_RealTimeClock_t = [(''OffsetAddr'', 16), (''SegAddr'', 16), (''WaitCountL'', 16),
     (''WaitCountH'', 16), (''WaitActiveFlag'', 8), (''_r0'', 56)]"

definition bda_SavePointer_t :: layout where
  "bda_SavePointer_t = [(''PtrVideoParam'', 32)]"

definition bda_Miscellaneous2_t :: layout where
  "bda_Miscellaneous2_t = [(''_r0'', 664), (''PrintScreenStatus'', 16)]"

section \<open>The pointers\<close>

definition BDA_ADDR :: u32 where
  "BDA_ADDR = 0x00000400 + KERNEL_CONFIG_VMA"

text \<open>The areas in the order of the pointers' declarations.\<close>

definition bda_areas :: "(u32 \<times> layout) list" where
  "bda_areas = [(BDA_ADDR OR 0x00, bda_RS232CPort_t), (BDA_ADDR OR 0x08, bda_PrinterPort_t),
     (BDA_ADDR OR 0x10, bda_SystemEquipment_t),
     (BDA_ADDR OR 0x12, bda_Miscellaneous1_t), (BDA_ADDR OR 0x13, bda_MemorySize_t),
     (BDA_ADDR OR 0x17, bda_Keyboard1_t), (BDA_ADDR OR 0x3E, bda_DisketteDrive_t),
     (BDA_ADDR OR 0x49, bda_VideoControl1_t), (BDA_ADDR OR 0x67, bda_System1_t),
     (BDA_ADDR OR 0x6C, bda_SystemTimer_t), (BDA_ADDR OR 0x71, bda_System2_t),
     (BDA_ADDR OR 0x74, bda_FixedDiskDrive_t),
     (BDA_ADDR OR 0x78, bda_PrinterTimeoutValue_t),
     (BDA_ADDR OR 0x7C, bda_RS232CTimeoutValue_t), (BDA_ADDR OR 0x80, bda_Keyboard2_t),
     (BDA_ADDR OR 0x84, bda_VideoControl2_t),
     (BDA_ADDR OR 0x8B, bda_DisketOrDriveControl_t),
     (BDA_ADDR OR 0x96, bda_Keyboard3_t), (BDA_ADDR OR 0x98, bda_RealTimeClock_t),
     (BDA_ADDR OR 0xA8, bda_SavePointer_t), (BDA_ADDR OR 0xAC, bda_Miscellaneous2_t)]"

section \<open>Against the documented addresses\<close>

text \<open>The byte after an area, and the distances between the areas.\<close>

definition area_end :: "u32 \<times> layout \<Rightarrow> u32" where
  "area_end al = fst al + of_nat (sizeof (snd al))"

fun gaps :: "(u32 \<times> layout) list \<Rightarrow> u32 list" where
  "gaps (a # b # as) = (fst b - area_end a) # gaps (b # as)"
| "gaps _ = []"

text \<open>The offset of a field of area \<open>i\<close>, in bytes from 40:00.\<close>

definition bda_offset :: "nat \<Rightarrow> string \<Rightarrow> u32" where
  "bda_offset i f = (let (a, l) = bda_areas ! i in a - BDA_ADDR + of_nat (offsetof l f))"

text \<open>The comments of the header that give a field's address: area, field, offset.\<close>

definition documented_offsets :: "(nat \<times> string \<times> u32) list" where
  "documented_offsets = [(0, ''BaseAddrL1'', 0x00), (0, ''BaseAddrL2'', 0x02),
     (0, ''BaseAddrL3'', 0x04), (0, ''BaseAddrL4'', 0x06), (1, ''BaseAddrP1'', 0x08),
     (1, ''BaseAddrP2'', 0x0A), (1, ''BaseAddrP3'', 0x0C), (1, ''_r0'', 0x0E),
     (2, ''NumOfPrinters'', 0x10), (3, ''_r0'', 0x12), (4, ''MemSize'', 0x13), (4, ''_r0'', 0x15),
     (5, ''InsertLocked'', 0x17), (5, ''InsertKeyPressed'', 0x18),
     (5, ''AlternateKeypadEntry'', 0x19), (5, ''KeyboardBufferHeadPointer'', 0x1A),
     (5, ''KeyboardBufferTailPointer'', 0x1C), (5, ''KeyboardBuffer'', 0x1E),
     (6, ''InterruptFlag'', 0x3E), (6, ''WriteReadOperation'', 0x3F),
     (6, ''MotorOffCounter'', 0x40), (6, ''LastDriveOperationStatus'', 0x41),
     (6, ''ControllerStatus'', 0x42), (7, ''DisplayModeSet'', 0x49),
     (7, ''NumberOfColumns'', 0x4A), (7, ''LengthOfRegenBuffer'', 0x4C),
     (7, ''StartingAddressInRegenBuffer'', 0x4E), (7, ''CursorPositionPage1'', 0x50),
     (7, ''CursorPositionPage2'', 0x52), (7, ''CursorPositionPage3'', 0x54),
     (7, ''CursorPositionPage4'', 0x56), (7, ''CursorPositionPage5'', 0x58),
     (7, ''CursorPositionPage6'', 0x5A), (7, ''CursorPositionPage7'', 0x5C),
     (7, ''CursorPositionPage8'', 0x5E), (7, ''CursorType'', 0x60), (7, ''DisplayPage'', 0x62),
     (7, ''CRTControllerBaseAddress'', 0x63), (7, ''CurrentSettingOf3x8Register'', 0x65),
     (7, ''CurrentSettingOf3x9Register'', 0x66), (8, ''_r0'', 0x67), (8, ''_r1'', 0x6B),
     (9, ''Counter'', 0x6C), (9, ''Overflow'', 0x70), (10, ''BreakKeyStatus'', 0x71),
     (10, ''ResetFlag'', 0x72), (11, ''LastDriveOperation'', 0x74), (11, ''NumOfDrives'', 0x75),
     (11, ''_r0'', 0x76), (11, ''_r1'', 0x77), (12, ''Printer1'', 0x78), (12, ''Printer2'', 0x79),
     (12, ''Printer3'', 0x7A), (12, ''_r0'', 0x7B), (13, ''Line1'', 0x7C), (13, ''Line2'', 0x70),
     (13, ''Line3'', 0x7E), (13, ''Line4'', 0x7F), (14, ''BuffStartOffsetPtr'', 0x80),
     (14, ''BuffEndOffsetPtr'', 0x82), (15, ''NumberOfRows'', 0x84),
     (15, ''CharacterHeight'', 0x85), (15, ''VideoControlStates1'', 0x87),
     (15, ''VideoControlStates2'', 0x88), (15, ''_r0'', 0x89), (15, ''_r1'', 0x8A),
     (16, ''DisketDataRateSel'', 0x8B), (16, ''FixedDiskStatus'', 0x8C),
     (16, ''FixedDiskError'', 0x8D), (16, ''FixedDiskIntCtrl'', 0x8E), (16, ''_r5'', 0x8F),
     (16, ''StateDrive0'', 0x90), (16, ''StateDrive1'', 0x91), (16, ''_r6'', 0x92),
     (16, ''_r7'', 0x93), (16, ''CurrCylDrive0'', 0x94), (16, ''CurrCylDrive1'', 0x95),
     (17, ''Read10Progress'', 0x96), (17, ''TransmitError'', 0x97), (18, ''OffsetAddr'', 0x98),
     (18, ''SegAddr'', 0x9A), (18, ''WaitCountL'', 0x9C), (18, ''WaitCountH'', 0x9E),
     (18, ''WaitActiveFlag'', 0xA0), (18, ''_r0'', 0xA1), (19, ''PtrVideoParam'', 0xA8),
     (20, ''_r0'', 0xAC)]"

text \<open>The comments that give the bits of a bit-field: area, field, first bit and width of the
  byte or word described, and the highest bit documented.\<close>

definition documented_bits :: "(nat \<times> string \<times> nat \<times> nat \<times> nat) list" where
  "documented_bits = [(2, ''NumOfPrinters'', 0, 16, 15), (2, ''NumOfRS232'', 0, 16, 11),
     (2, ''NumOfDisketteDrivers'', 0, 16, 7), (2, ''VideoModeType'', 0, 16, 5),
     (2, ''PointingDevice'', 0, 16, 2), (2, ''MathCoprocessor'', 0, 16, 1),
     (2, ''IPLDiskette'', 0, 16, 0), (5, ''InsertLocked'', 0, 8, 7),
     (5, ''CapsLockLocked'', 0, 8, 6), (5, ''NumLockLocked'', 0, 8, 5),
     (5, ''ScrollLockLocked'', 0, 8, 4), (5, ''AltKeyPressed'', 0, 8, 3),
     (5, ''CtrlKeyPressed'', 0, 8, 2), (5, ''LefShiftKeyPressed'', 0, 8, 1),
     (5, ''RightShiftKeyPressed'', 0, 8, 0), (5, ''InsertKeyPressed'', 8, 8, 7),
     (5, ''CapsLockKeyPressed'', 8, 8, 6), (5, ''NumLockKeyPressed'', 8, 8, 5),
     (5, ''ScrollLockKeyPressed'', 8, 8, 4), (5, ''PauseLocked'', 8, 8, 3),
     (5, ''SystemRequestKeyPressed'', 8, 8, 2), (5, ''LefAltKeyPressed'', 8, 8, 1),
     (5, ''LefCtrlKeyPressed'', 8, 8, 0), (6, ''InterruptFlag'', 0, 8, 7),
     (6, ''RecalibrateDrive3'', 0, 8, 3), (6, ''RecalibrateDrive2'', 0, 8, 2),
     (6, ''RecalibrateDrive1'', 0, 8, 1), (6, ''RecalibrateDrive0'', 0, 8, 0),
     (6, ''WriteReadOperation'', 8, 8, 7), (6, ''DriveSelectStatus'', 8, 8, 5),
     (6, ''MotorDrive3'', 8, 8, 3), (6, ''MotorDrive2'', 8, 8, 2), (6, ''MotorDrive1'', 8, 8, 1),
     (6, ''MotorDrive0'', 8, 8, 0), (16, ''DisketDataRateSel'', 0, 8, 7),
     (16, ''LastDiskettDriveStep'', 0, 8, 5), (17, ''Read10Progress'', 0, 8, 7),
     (17, ''LastCharFirst10Char'', 0, 8, 6), (17, ''ForceNumLockIfRead10'', 0, 8, 5),
     (17, ''Keyboard101102'', 0, 8, 4), (17, ''RightAltPressed'', 0, 8, 3),
     (17, ''RightCtrlPressed'', 0, 8, 2), (17, ''LastCodeEO'', 0, 8, 1),
     (17, ''LastCodeE1'', 0, 8, 0), (17, ''TransmitError'', 8, 8, 7),
     (17, ''ModeIndicatorUpdate'', 8, 8, 6), (17, ''ResendReceive'', 8, 8, 5),
     (17, ''AckReceived'', 8, 8, 4), (17, ''LedStatus'', 8, 8, 2)]"

text \<open>The 21 areas follow each other in the data area without overlap, each where the last one
  ends but for one byte, 40:16, that no area covers; the last one ends one byte behind the 256
  bytes of the data area, since its reserved block is a byte short and its last field lies at
  40:FF. By bytes every field lies at the address its comment documents, with one exception (\<open>Line2\<close>);
  the comments on the two reserved ranges 40:15 to 40:16 and 40:AC to 40:FF are off by a byte, and the bits
  inside a byte are mirrored (\<open>bda_bits_reversed\<close>). The two words the console reads are the fields of
  those names.\<close>

theorem bda_fields_placed:
  "gaps bda_areas = [0, 0, 0, 0, 1, 0, 0, 0, 0, 0, 0, 0, 0, 0, 0, 0, 0, 0, 0, 0]
   \<and> fst (hd bda_areas) = BDA_ADDR \<and> area_end (last bda_areas) = BDA_ADDR + 0x101
   \<and> bda_offset 20 ''PrintScreenStatus'' = 0xFF
   \<and> filter (\<lambda>(i, f, d). bda_offset i f \<noteq> d) documented_offsets = [(13, ''Line2'', 0x70)]
   \<and> NumberOfColumns m = ucast (load16 m (BDA_ADDR + bda_offset 7 ''NumberOfColumns''))
   \<and> NumberOfRows m = ucast (m (BDA_ADDR + bda_offset 15 ''NumberOfRows''))"
proof -
  have "bda_offset 7 ''NumberOfColumns'' = 0x4A" "bda_offset 15 ''NumberOfRows'' = 0x84" by code_simp+
  then have "NumberOfColumns m = ucast (load16 m (BDA_ADDR + bda_offset 7 ''NumberOfColumns''))"
    "NumberOfRows m = ucast (m (BDA_ADDR + bda_offset 15 ''NumberOfRows''))"
    by (simp_all add: NumberOfColumns_def NumberOfRows_def BDA_ADDR_def)
  moreover have "gaps bda_areas = [0, 0, 0, 0, 1, 0, 0, 0, 0, 0, 0, 0, 0, 0, 0, 0, 0, 0, 0, 0]"
    "fst (hd bda_areas) = BDA_ADDR" "area_end (last bda_areas) = BDA_ADDR + 0x101"
    "bda_offset 20 ''PrintScreenStatus'' = 0xFF"
    "filter (\<lambda>(i, f, d). bda_offset i f \<noteq> d) documented_offsets = [(13, ''Line2'', 0x70)]"
    by code_simp+
  ultimately show ?thesis by blast
qed

text \<open>Every bit-field of the data area lies at the mirror image of the bits its comment gives:
  the structures list the bits from the highest down, and the compiler allots them from the
  lowest up.\<close>

theorem bda_bits_reversed:
  "list_all (\<lambda>(i, f, s, n, h). bit_offset f (snd (bda_areas ! i)) = s + (n - 1 - h)) documented_bits"
  by code_simp

end
