(* ===== verification/LapicRegisters.thy ===== *)
theory LapicRegisters
  imports Lapic82489DX Layout
begin

text \<open>
  The register map of the local APIC, ksrc/drivers/82489DX.h: the addresses of its registers,
  their bit-fields (a variant of a union is named by its field), and the flag macros the driver
  combines. The lemmas say that macros, fields and addresses agree with each other.
\<close>

unbundle bit_operations_syntax

section \<open>Addresses\<close>

definition lapic_registers :: "(string \<times> u32) list" where
  "lapic_registers = [(''LAPIC_ID'', 0x0020), (''LAPIC_VER'', 0x0030), (''LAPIC_TPR'', 0x0080),
     (''LAPIC_APR'', 0x0090), (''LAPIC_PPR'', 0x00A0), (''LAPIC_EIO'', 0x00B0),
     (''LAPIC_RRD'', 0x00C0), (''LAPIC_LDR'', 0x00D0), (''LAPIC_DFR'', 0x00E0),
     (''LAPIC_SIVR'', 0x00F0), (''LAPIC_ISR0'', 0x0100), (''LAPIC_ISR1'', 0x0110),
     (''LAPIC_ISR2'', 0x0120), (''LAPIC_ISR3'', 0x0130), (''LAPIC_ISR4'', 0x0140),
     (''LAPIC_ISR5'', 0x0150), (''LAPIC_ISR6'', 0x0160), (''LAPIC_ISR7'', 0x0170),
     (''LAPIC_TMR0'', 0x0180), (''LAPIC_TMR1'', 0x0190), (''LAPIC_TMR2'', 0x01A0),
     (''LAPIC_TMR3'', 0x01B0), (''LAPIC_TMR4'', 0x01C0), (''LAPIC_TMR5'', 0x01D0),
     (''LAPIC_TMR6'', 0x01E0), (''LAPIC_TMR7'', 0x01F0), (''LAPIC_IRR0'', 0x0200),
     (''LAPIC_IRR1'', 0x0210), (''LAPIC_IRR2'', 0x0220), (''LAPIC_IRR3'', 0x0230),
     (''LAPIC_IRR4'', 0x0240), (''LAPIC_IRR5'', 0x0250), (''LAPIC_IRR6'', 0x0260),
     (''LAPIC_IRR7'', 0x0270), (''LAPIC_ESR'', 0x0280), (''LAPIC_LVTCMCIR'', 0x02F0),
     (''LAPIC_ICR0'', 0x0300), (''LAPIC_ICR1'', 0x0310), (''LAPIC_LVTTR'', 0x0320),
     (''LAPIC_LVTTSR'', 0x0330), (''LAPIC_LVTPMCR'', 0x0340), (''LAPIC_LVTLINT0'', 0x0350),
     (''LAPIC_LVTLINT1'', 0x0360), (''LAPIC_LVTERROR'', 0x0370), (''LAPIC_ICR'', 0x0380),
     (''LAPIC_CCR'', 0x0390), (''LAPIC_DCR'', 0x03E0)]"

section \<open>Bit-fields\<close>

definition lapic_idr_pp6_t :: layout where
  "lapic_idr_pp6_t = [(''_r0'', 24), (''id'', 4), (''_r1'', 4)]"

definition lapic_idr_p4xl_t :: layout where
  "lapic_idr_p4xl_t = [(''_r0'', 24), (''id'', 8)]"

definition lapic_idr_xapic_t :: layout where
  "lapic_idr_xapic_t = [(''id'', 32)]"

definition lapic_ver_t :: layout where
  "lapic_ver_t = [(''ver'', 8), (''_r0'', 8), (''mlvte'', 8), (''seiobs'', 1), (''_r1'', 7)]"

definition lapic_tpr_t :: layout where
  "lapic_tpr_t = [(''tps'', 4), (''tpc'', 4), (''_r0'', 24)]"

definition lapic_apr_t :: layout where
  "lapic_apr_t = [(''aps'', 4), (''apc'', 4), (''_r0'', 24)]"

definition lapic_ppr_t :: layout where
  "lapic_ppr_t = [(''pps'', 4), (''ppc'', 4), (''_r0'', 24)]"

definition lapic_eio_t :: layout where
  "lapic_eio_t = [(''eio'', 32)]"

definition lapic_rrd_t :: layout where
  "lapic_rrd_t = [(''rrd'', 32)]"

definition lapic_ldr_t :: layout where
  "lapic_ldr_t = [(''_r0'', 24), (''id'', 8)]"

definition lapic_dfr_t :: layout where
  "lapic_dfr_t = [(''_r0'', 28), (''mod'', 4)]"

definition lapic_sivr_t :: layout where
  "lapic_sivr_t = [(''sv'', 8), (''sed'', 1), (''fpc'', 3), (''ebs'', 1), (''_r0'', 19)]"

definition lapic_isr_fv_t :: layout where
  "lapic_isr_fv_t = [(''_r0'', 16), (''vec'', 16)]"

definition lapic_isr_nv_t :: layout where
  "lapic_isr_nv_t = [(''vec'', 32)]"

definition lapic_esr_t :: layout where
  "lapic_esr_t = [(''sc'', 1), (''rc'', 1), (''sa'', 1), (''ra'', 1), (''ripi'', 1), (''siv'', 1),
     (''riv'', 1), (''ira'', 1), (''_r0'', 24)]"

definition lapic_lvt_cmci_t :: layout where
  "lapic_lvt_cmci_t = [(''vec'', 8), (''dm'', 3), (''_r0'', 1), (''ds'', 1), (''_r1'', 3),
     (''ma'', 1), (''_r2'', 15)]"

definition lapic_lvt_tr_t :: layout where
  "lapic_lvt_tr_t = [(''vec'', 8), (''_r0'', 4), (''ds'', 1), (''_r1'', 3), (''ma'', 1),
     (''tm'', 2), (''_r2'', 13)]"

definition lapic_lvt_ts_t :: layout where
  "lapic_lvt_ts_t = [(''vec'', 8), (''dm'', 3), (''_r0'', 1), (''ds'', 1), (''_r1'', 3),
     (''ma'', 1), (''_r2'', 15)]"

definition lapic_lvt_pmc_t :: layout where
  "lapic_lvt_pmc_t = [(''vec'', 8), (''dm'', 3), (''_r0'', 1), (''ds'', 1), (''_r1'', 3),
     (''ma'', 1), (''_r2'', 15)]"

definition lapic_lvt_lint0_t :: layout where
  "lapic_lvt_lint0_t = [(''vec'', 8), (''dm'', 3), (''_r0'', 1), (''ds'', 1), (''iipp'', 1),
     (''rirr'', 1), (''tm'', 1), (''ma'', 1), (''_r2'', 15)]"

definition lapic_lvt_lint1_t :: layout where
  "lapic_lvt_lint1_t = [(''vec'', 8), (''dm'', 3), (''_r0'', 1), (''ds'', 1), (''iipp'', 1),
     (''rirr'', 1), (''tm'', 1), (''ma'', 1), (''_r2'', 15)]"

definition lapic_lvt_error_t :: layout where
  "lapic_lvt_error_t = [(''vec'', 8), (''_r0'', 4), (''ds'', 1), (''_r1'', 3), (''ma'', 1),
     (''_r2'', 15)]"

definition lapic_icr_t :: layout where
  "lapic_icr_t = [(''count'', 32)]"

definition lapic_ccr_t :: layout where
  "lapic_ccr_t = [(''count'', 32)]"

definition lapic_dcr_t :: layout where
  "lapic_dcr_t = [(''div'', 4), (''_r1'', 28)]"

section \<open>Macros\<close>

definition LAPIC_LINT_VECTOR :: "u32 \<Rightarrow> u32" where "LAPIC_LINT_VECTOR v = v AND 0xFF"
definition LAPIC_LINT_FIXED :: u32 where "LAPIC_LINT_FIXED = push_bit 8 0"
definition LAPIC_LINT_SMI :: u32 where "LAPIC_LINT_SMI = push_bit 8 2"
definition LAPIC_LINT_INIT :: u32 where "LAPIC_LINT_INIT = push_bit 8 5"
definition LAPIC_LINT_EXTINT :: u32 where "LAPIC_LINT_EXTINT = push_bit 8 7"
definition LAPIC_LINT_IIPP :: u32 where "LAPIC_LINT_IIPP = push_bit 13 1"
definition LAPIC_LINT_RIRR :: u32 where "LAPIC_LINT_RIRR = push_bit 14 1"
definition LAPIC_LINT_LEVEL :: u32 where "LAPIC_LINT_LEVEL = push_bit 15 1"
definition LAPIC_DCR_DIV1 :: u32 where "LAPIC_DCR_DIV1 = 0xB"
definition LAPIC_DCR_DIV2 :: u32 where "LAPIC_DCR_DIV2 = 0"
definition LAPIC_DCR_DIV4 :: u32 where "LAPIC_DCR_DIV4 = 1"
definition LAPIC_DCR_DIV8 :: u32 where "LAPIC_DCR_DIV8 = 2"
definition LAPIC_DCR_DIV32 :: u32 where "LAPIC_DCR_DIV32 = 8"
definition LAPIC_DCR_DIV64 :: u32 where "LAPIC_DCR_DIV64 = 9"
definition LAPIC_DCR_DIV128 :: u32 where "LAPIC_DCR_DIV128 = 0xA"

lemmas lapic_macros = lapic_words LAPIC_LINT_VECTOR_def LAPIC_LINT_FIXED_def LAPIC_LINT_SMI_def
  LAPIC_LINT_INIT_def LAPIC_LINT_EXTINT_def LAPIC_LINT_IIPP_def LAPIC_LINT_RIRR_def
  LAPIC_LINT_LEVEL_def LAPIC_DCR_DIV1_def LAPIC_DCR_DIV2_def LAPIC_DCR_DIV4_def
  LAPIC_DCR_DIV8_def LAPIC_DCR_DIV32_def LAPIC_DCR_DIV64_def LAPIC_DCR_DIV128_def

text \<open>The divisor the manual gives for a value of the divide configuration register: bits 3, 1
  and 0 are the exponent, less one, with 7 for no division.\<close>

definition divisor :: "u32 \<Rightarrow> nat" where
  "divisor v = 2 ^ ((unat (v AND 3) + (if bit v 3 then 4 else 0) + 1) mod 8)"

definition lapic_layouts :: "layout list" where
  "lapic_layouts = [lapic_idr_pp6_t, lapic_idr_p4xl_t, lapic_idr_xapic_t, lapic_ver_t,
     lapic_tpr_t, lapic_apr_t, lapic_ppr_t, lapic_eio_t, lapic_rrd_t, lapic_ldr_t, lapic_dfr_t,
     lapic_sivr_t, lapic_isr_fv_t, lapic_isr_nv_t, lapic_esr_t, lapic_lvt_cmci_t, lapic_lvt_tr_t,
     lapic_lvt_ts_t, lapic_lvt_pmc_t, lapic_lvt_lint0_t, lapic_lvt_lint1_t, lapic_lvt_error_t,
     lapic_icr_t, lapic_ccr_t, lapic_dcr_t]"

lemma registers_are_words: "list_all (\<lambda>l. bit_size l = 32 \<and> well_formed l) lapic_layouts"
  by code_simp

lemma registers_placed:
  "distinct (map snd lapic_registers)" "list_all (\<lambda>(n, r). r AND 0xF = 0 \<and> r < 0x400) lapic_registers"
  by code_simp+

lemma register_address:
  assumes "r < 0x400"
  shows "(b AND 0xFFFFF000) OR r = (b AND 0xFFFFF000) + (r :: u32)"
proof -
  have "r AND mask 12 = r"
  proof -
    have "unat r < 4096" using assms by (simp add: word_less_nat_alt)
    then have "r mod 4096 = r" by (simp add: word_unat_eq_iff unat_mod)
    then show ?thesis by (simp add: and_low_mod mask_eq_exp_minus_1)
  qed
  then have "(b AND NOT (mask 12)) AND r = (b AND NOT (mask 12)) AND (r AND mask 12)" by simp
  also have "\<dots> = 0" by (rule bit_word_eqI) (simp add: bit_simps)
  finally have "(b AND NOT (mask 12)) AND r = 0" .
  moreover have "(0xFFFFF000 :: u32) = NOT (mask 12)" by (simp add: mask_eq_exp_minus_1)
  ultimately show ?thesis by (simp only: disjunctive_add_eq_or)
qed

text \<open>The map of the registers is consistent: every structure is one word of distinct fields;
  the registers have different addresses, 16 bytes apart and inside 1 KB, so that \<open>LAPIC_REG\<close>,
  which combines the base with an offset by a bitwise or, addresses the sum; each flag macro is
  the field it stands for; and each divisor macro selects the divisor of its name.\<close>

theorem lapic_registers_consistent:
  "list_all (\<lambda>l. bit_size l = 32) lapic_layouts \<and> list_all (\<lambda>l. distinct (map fst l)) lapic_layouts
   \<and> distinct (map snd lapic_registers)
   \<and> list_all (\<lambda>(n, r). r AND 0xF = 0) lapic_registers
   \<and> list_all (\<lambda>(n, r). (b AND 0xFFFFF000) OR r = (b AND 0xFFFFF000) + r) lapic_registers
   \<and> LAPIC_LVTTR_VECTOR v = set_field lapic_lvt_tr_t ''vec'' v 0
   \<and> LAPIC_LVTTR_MASK = set_field lapic_lvt_tr_t ''ma'' 1 0
   \<and> LAPIC_LVTTR_ONESHOT = set_field lapic_lvt_tr_t ''tm'' 0 0
   \<and> LAPIC_LVTTR_PERIODIC = set_field lapic_lvt_tr_t ''tm'' 1 0
   \<and> LAPIC_LINT_VECTOR v = set_field lapic_lvt_lint0_t ''vec'' v 0
   \<and> map (\<lambda>m. set_field lapic_lvt_lint0_t ''dm'' m 0) [0, 2, 4, 5, 7]
     = [LAPIC_LINT_FIXED, LAPIC_LINT_SMI, LAPIC_LINT_NMI, LAPIC_LINT_INIT, LAPIC_LINT_EXTINT]
   \<and> map (\<lambda>f. set_field lapic_lvt_lint0_t f 1 0) [''iipp'', ''rirr'', ''tm'', ''ma'']
     = [LAPIC_LINT_IIPP, LAPIC_LINT_RIRR, LAPIC_LINT_LEVEL, LAPIC_LINT_MASK]
   \<and> map divisor [LAPIC_DCR_DIV1, LAPIC_DCR_DIV2, LAPIC_DCR_DIV4, LAPIC_DCR_DIV8, LAPIC_DCR_DIV16,
       LAPIC_DCR_DIV32, LAPIC_DCR_DIV64, LAPIC_DCR_DIV128] = [1, 2, 4, 8, 16, 32, 64, 128]"
proof -
  have words: "list_all (\<lambda>l. bit_size l = 32) lapic_layouts" "list_all (\<lambda>l. distinct (map fst l)) lapic_layouts"
    using registers_are_words by (auto simp: list_all_iff well_formed_def)
  have sums: "list_all (\<lambda>(n, r). (b AND 0xFFFFF000) OR r = (b AND 0xFFFFF000) + r) lapic_registers"
    using registers_placed(2) by (auto simp: list_all_iff register_address)
  have spaced: "list_all (\<lambda>(n, r). r AND 0xF = 0) lapic_registers"
    using registers_placed(2) by (auto simp: list_all_iff)
  have "LAPIC_LVTTR_VECTOR v = set_field lapic_lvt_tr_t ''vec'' v 0"
    "LAPIC_LINT_VECTOR v = set_field lapic_lvt_lint0_t ''vec'' v 0"
    by (simp_all add: lapic_macros lapic_lvt_tr_t_def lapic_lvt_lint0_t_def layout_eval)
  moreover have "LAPIC_LVTTR_MASK = set_field lapic_lvt_tr_t ''ma'' 1 0"
    "LAPIC_LVTTR_ONESHOT = set_field lapic_lvt_tr_t ''tm'' 0 0"
    "LAPIC_LVTTR_PERIODIC = set_field lapic_lvt_tr_t ''tm'' 1 0"
    "map (\<lambda>m. set_field lapic_lvt_lint0_t ''dm'' m 0) [0, 2, 4, 5, 7]
     = [LAPIC_LINT_FIXED, LAPIC_LINT_SMI, LAPIC_LINT_NMI, LAPIC_LINT_INIT, LAPIC_LINT_EXTINT]"
    "map (\<lambda>f. set_field lapic_lvt_lint0_t f 1 0) [''iipp'', ''rirr'', ''tm'', ''ma'']
     = [LAPIC_LINT_IIPP, LAPIC_LINT_RIRR, LAPIC_LINT_LEVEL, LAPIC_LINT_MASK]"
    "map divisor [LAPIC_DCR_DIV1, LAPIC_DCR_DIV2, LAPIC_DCR_DIV4, LAPIC_DCR_DIV8, LAPIC_DCR_DIV16,
       LAPIC_DCR_DIV32, LAPIC_DCR_DIV64, LAPIC_DCR_DIV128] = [1, 2, 4, 8, 16, 32, 64, 128]"
    by code_simp+
  ultimately show ?thesis using words registers_placed(1) spaced sums by (intro conjI)
qed

end
