(* ===== verification/Spec2Isabelle.thy ===== *)
theory Spec2Isabelle
  imports Kmain Interrupts Gdt Interleaving Entry Observers Output KernelMemory Delivery Preemption Linker Multiboot2 Constants Paging Console Timer CmosMC146818 Pit8254 Bda LapicRegisters
begin

text \<open>
  Verification of basic-x86-kernel, a kernel for the 32-bit PC that is loaded by a Multiboot loader.

  \<^bold>\<open>The program.\<close> The entry code (ksrc/_entry.s) enables a boot page directory, calls \<open>gdt_init\<close>,
  \<open>idt_init\<close> and, in the higher half, \<open>paging_init\<close>, and then \<open>kmain\<close> (ksrc/_kmain.c). \<open>kmain\<close> reads
  the clock, initialises the legacy interrupt controllers and masks them, initialises the local
  APIC and the I/O APIC, enables interrupts, starts the APIC timer, finds the ACPI tables for the
  power button, initialises the keyboard controller, the keyboard and the mouse, prints the
  boot arguments and the CPU vendor, and halts in a loop. Interrupts enter by 256 generated stubs
  (ksrc/idt.s), which call the C handler in the slot of their vector. Output goes through
  \<open>printk\<close>, which formats with \<open>vsprintf\<close> of klib into a buffer and writes to the text screen.

  \<^bold>\<open>The model.\<close> Words have their machine width and wrap. Memory is a function from 32-bit addresses
  to bytes (theory Memory); structures and bit-fields are layouts, lists of named fields with their
  widths, over words and addresses (theory Layout). The hardware is a parameter: port input,
  device registers, model-specific registers, \<open>cpuid\<close> and control registers answer by functions
  of everything that happened so far, and every access and privileged instruction is an event
  of the trace in the machine state (theory Machine). What a chip does with the events is a
  separate specification, used in statements only: the 8259A, the I/O APIC, the clock, the MMU's
  page walk, the screen. A stage that polls a device without bound or faults has an option
  result, None when it does not return.

  \<^item> Prelude, Memory, Machine, Layout: shared types, lemmas, collections, and the contracts
    (locales) for memory cells and polling loops.
  \<^item> KlibMem, KlibString, KlibStdio: klib/mem.c, string.c, stdio.c with stdarg.h. The routines against
    reference definitions: copies, comparisons, C strings, decimal and hexadecimal text, and the
    text of a format.
  \<^item> Cpu: ksrc/cpu.c. MSR access, \<open>cpuid\<close>, the vendor string.
  \<^item> Pic8259A, Pit8254, CmosMC146818, Lapic82489DX, LapicRegisters, Timer, Ioapic82093AA: the
    drivers of the same names and timer.c. Programming sequences and their effect on the chips,
    when waits return, the calendar that is read, calibration, delays, register formats.
  \<^item> Idt, Interrupts: ksrc/idt.c, idt.h, idt.s. Gate formats, the tables of gates and handlers,
    masking, what a stub passes to a handler and restores, the exception handler and the default
    handler; the contract \<open>acknowledging\<close> of a handler that writes one end of interrupt.
  \<^item> Gdt: ksrc/gdt.c. Descriptor format, the flat table, segment loads, base look-ups.
  \<^item> Paging: ksrc/mmu/paging.c. Entry formats, both mapping routines, table allocation, the
    look-up and \<open>paging_init\<close>, stated by the translation \<open>walk\<close> of the MMU and the invariant
    \<open>tables_ok\<close> of the page tables.
  \<^item> Console: ksrc/printk.c. The screen as a grid of cells that scrolls is the abstract
    specification; the locale \<open>simulation\<close> carries the refinement from characters to strings.
  \<^item> Bda: ksrc/bios/bda.h and bda.c. The structures of the BIOS data area and where they lie.
  \<^item> I8042, Kbd: ksrc/drivers/i8042.c and kbd.c. Bounded polling (locale \<open>bounded_poll\<close>), the
    handlers, the initialisations; the frame \<open>port_step\<close> of port traffic.
  \<^item> Acpi: ksrc/acpi.c. Reads go through the page directory; the search, the walk over the
    tables, the power button and its handler.
  \<^item> Multiboot: ksrc/multiboot/multiboot_v1.h and multiboot.c. Formats and the kernel's header.
  \<^item> Kmain: ksrc/_kmain.c. The composition: what is ready when interrupts are enabled, when the
    idle loop is reached, and the invariant of the idle loop under interrupts.
  \<^item> Interleaving: the same with the calls after \<open>sti\<close> as steps of a relation, interrupts being
    served between any two of them.
  \<^item> Entry: ksrc/_entry.s. The code between the loader and \<open>kmain\<close> on registers, stack and physical
    memory, through the translation of the moment.
  \<^item> Observers: the contracts \<open>observer\<close> and \<open>boot_observer\<close> of a view of the machine that survives every
    driver, every handler and \<open>kmain\<close>, interpreted in Output for the calls of \<open>printk\<close> and in
    Delivery for the control registers.
  \<^item> Output: the calls of \<open>printk\<close> in the kernel composed with ksrc/printk.c. Formats, arguments and
    the length of every text, the run of \<open>printk\<close> over a trace, and the text it leaves on the screen.
  \<^item> KernelMemory, Delivery: what of the memory the kernel keeps from the entry code to its idle loop,
    and the delivery of an interrupt: gate and segment are looked up in the tables in force, the
    frame is pushed on the kernel's stack, the stub of ksrc/idt.s pushes and pops through the page
    tables, the handler runs and its calls of \<open>printk\<close> write to the screen in memory, \<open>iretl\<close> returns.
  \<^item> Preemption: the steps of theory Interleaving with these interrupts between them, from \<open>sti\<close> on,
    and the invariant of thread, memory and registers that all of them keep.
  \<^item> Linker: ksrc/linker.ld.S as a function from section sizes to the symbols, with the section
    \<open>.eh_frame\<close> that the compiler's flags add, the image it makes, and which sections \<open>paging_init\<close> maps.
  \<^item> Multiboot2, Constants: ksrc/multiboot/multiboot_v2.h, and the numbers of the other headers as
    tables, related to the formats they belong to and to the names the models use; the integer
    types of klib/types.h.

  \<^bold>\<open>What is shown.\<close> The root result is \<open>interrupts_resume\<close> of theory Preemption: from the state the
  loader leaves, after the entry code, \<open>kmain\<close> up to \<open>sti\<close> and any sequence of its further calls, its
  idle loop and interrupts, the next interrupt of a device lets the interrupted code go on with its registers
  and flags, and changes memory only below its stack pointer and on the screen, where the text of the
  handler is put, or it is the power button; and one end of interrupt per interrupt has been written. Its conditions on the image hold for every kernel
  that the linker script places below 4 MB (\<open>linked_kernel\<close> of theory Linker). \<open>boot_serves\<close> of
  theory Entry has the table of handlers in the idle loop, \<open>interrupts_any_time\<close> of theory
  Interleaving the interrupts between calls, both without the conditions on the image; \<open>entry_calls_kmain\<close> the machine \<open>kmain\<close> starts on. They rest on the handlers'
  interpretations of \<open>acknowledging\<close>, on the observers, and on what each initialisation does to the
  table of handlers. \<open>kmain_ready\<close> has the state of the controllers at \<open>sti\<close>, \<open>kmain_returns\<close> the
  conditions under which the idle loop is reached. Below them are the properties of the
  components, those of failures among them: formatted output into a dirty buffer, the 12-hour
  clock, the waits the interval timer cannot make, a machine without an ACPI root pointer, page tables that run out, a mapping inside a 4 MB page, an image beyond 4 MB, vectors
  without a gate, acknowledgements that never came, a command line longer than the buffer of
  \<open>printk\<close>.

  \<^bold>\<open>Termination.\<close> Loops with a bound are total functions with the bound of the source (500 polls and
  512 answers of the keyboard controller, 1024 entries and 10 page tables, 255 vectors, the digits
  of a number). Loops that wait for a device, scan a string or walk by a computed bound are partial
  functions with values in option; theorems say when they return. There is no fuel.

  \<^bold>\<open>Not modelled.\<close> The build and the placement of objects inside a section, which is a parameter;
  unused macros that compute nothing and prototypes. An interrupt in the middle of a call is not
  modelled, nor is the translation look-aside buffer. The C handlers run on the machine state: what
  their frames leave on the stack is arbitrary (\<open>frames_on\<close>), and they keep their arguments there.
  \<open>printk\<close> is an event for its callers; theory Console has the routine itself on linear memory,
  theory Output composes the two, and theory Delivery runs the calls of a handler on the memory of the
  kernel; that the formats and arguments lie in memory at each call is a hypothesis there (\<open>called_with\<close>,
  \<open>prints_ready\<close>). What the calls of \<open>kmain\<close> after \<open>sti\<close> print changes screen and stack in any way that
  leaves the console in order (\<open>runs\<close>). The report of an exception is in the events, not in the memory it
  stops on. The gates are those of the state's field \<open>idt_gate\<close>, whose address is translated (\<open>gate_at\<close>). Of the stack, the entry code has the registers it saves and the arguments of
  \<open>kmain\<close>, and a routine that takes the address of a local has that local; return addresses and
  frames of the code before \<open>sti\<close> are not part of the memory. Addresses of string literals, and of
  objects inside their section, are parameters.
\<close>

end
